(* ===== verification/Prelude.thy ===== *)
theory Prelude
  imports Main "HOL-Library.Word" "HOL-Library.Monad_Syntax"
begin

text \<open>
  Shared vocabulary of the development: the machine integer types of
  \<^verbatim>\<open>types.h\<close>, the byte-addressed memory that C pointers of the kernel range
  over, and the generic lemmas on address arithmetic, byte strings in memory and
  little-endian loads and stores that every component uses.

  Memory is a total function from 32-bit addresses to bytes, so that pointer
  arithmetic wraps as it does on the i386.  \<open>load_bytes\<close> and \<open>store_bytes\<close> are the
  reference semantics of block reads and writes.  The collection \<open>mem_simps\<close> holds
  the equations that evaluate a read after a write.
\<close>

unbundle bit_operations_syntax

type_synonym u8 = "8 word"
type_synonym u16 = "16 word"
type_synonym u32 = "32 word"
type_synonym mem = "u32 \<Rightarrow> u8"

named_theorems mem_simps \<open>reads after writes in byte memory\<close>
named_theorems mem_disj \<open>disjointness of memory regions\<close>

subsection \<open>Block reads and writes\<close>

definition load_bytes :: "mem \<Rightarrow> u32 \<Rightarrow> nat \<Rightarrow> u8 list" where
  "load_bytes m a n = map (\<lambda>i. m (a + of_nat i)) [0..<n]"

primrec store_bytes :: "mem \<Rightarrow> u32 \<Rightarrow> u8 list \<Rightarrow> mem" where
  "store_bytes m a [] = m"
| "store_bytes m a (b # bs) = store_bytes (m(a := b)) (a + 1) bs"

text \<open>Little-endian 32-bit loads and stores, as the i386 performs them.\<close>

definition load32 :: "mem \<Rightarrow> u32 \<Rightarrow> u32" where
  "load32 m a = ucast (m a) OR push_bit 8 (ucast (m (a + 1)))
     OR push_bit 16 (ucast (m (a + 2))) OR push_bit 24 (ucast (m (a + 3)))"

definition store32 :: "mem \<Rightarrow> u32 \<Rightarrow> u32 \<Rightarrow> mem" where
  "store32 m a v = m(a := ucast v, a + 1 := ucast (drop_bit 8 v),
     a + 2 := ucast (drop_bit 16 v), a + 3 := ucast (drop_bit 24 v))"

definition bytes_of32 :: "u32 \<Rightarrow> u8 list" where
  "bytes_of32 v = [ucast v, ucast (drop_bit 8 v), ucast (drop_bit 16 v), ucast (drop_bit 24 v)]"

text \<open>\<open>in_region a n x\<close>: address \<open>x\<close> is one of the \<open>n\<close> bytes that start at \<open>a\<close>.\<close>

definition in_region :: "u32 \<Rightarrow> nat \<Rightarrow> u32 \<Rightarrow> bool" where
  "in_region a n x \<longleftrightarrow> unat (x - a) < n"

definition disjoint_regions :: "u32 \<Rightarrow> nat \<Rightarrow> u32 \<Rightarrow> nat \<Rightarrow> bool" where
  "disjoint_regions a n b k \<longleftrightarrow> (\<forall>x. \<not> (in_region a n x \<and> in_region b k x))"

text \<open>A NUL-terminated byte string at an address.\<close>

definition cstr :: "mem \<Rightarrow> u32 \<Rightarrow> u8 list \<Rightarrow> bool" where
  "cstr m s xs \<longleftrightarrow> 0 \<notin> set xs \<and> length xs < 2 ^ 32 \<and>
     load_bytes m s (length xs) = xs \<and> m (s + of_nat (length xs)) = 0"

subsection \<open>Address arithmetic\<close>

lemma fold_upd: "fold (\<lambda>i d. d(i := f i)) [0..<n] d = (\<lambda>j. if j < n then f j else d j)"
  by (induction n) (auto simp: fun_eq_iff less_Suc_eq)

lemma recombine: "push_bit n (drop_bit n (a :: u32)) OR take_bit n a = a"
  by (rule bit_word_eqI) (auto simp: bit_simps)

lemma aligned_bit: "take_bit n (a :: u32) = 0 \<Longrightarrow> k < n \<Longrightarrow> \<not> bit a k"
  by (metis bit_0_eq bit_take_bit_iff bot_apply bot_bool_def)

lemma aligned_ident: "take_bit n (a :: u32) = 0 \<Longrightarrow> push_bit n (drop_bit n a) = a"
  using recombine [of n a] by simp

lemma unat_drop32: "unat (drop_bit n (a :: u32)) = unat a div 2 ^ n"
  using unat_drop_bit_eq [of n a] by (simp add: drop_bit_eq_div)

lemma drop_zero_bit: "drop_bit n (a :: u32) = 0 \<Longrightarrow> n \<le> k \<Longrightarrow> \<not> bit a k"
proof
  assume "drop_bit n a = 0" "n \<le> k" "bit a k"
  have "bit (drop_bit n a) (k - n)" using \<open>n \<le> k\<close> \<open>bit a k\<close> by (simp add: bit_drop_bit_eq)
  then show False using \<open>drop_bit n a = 0\<close> by simp
qed

lemma drop_push_drop [simp]: "drop_bit n (push_bit n (drop_bit n (a :: u32))) = drop_bit n a"
  by (rule bit_word_eqI) (auto simp: bit_simps dest: bit_imp_le_length)

lemma drop_push: "n \<le> 32 \<Longrightarrow> drop_bit (32 - n) (x :: u32) = 0 \<Longrightarrow> drop_bit n (push_bit n x) = x"
proof (rule bit_word_eqI)
  fix i assume "n \<le> 32" "drop_bit (32 - n) x = 0"
  moreover have "n + i < 32" if "bit x i"
    using drop_zero_bit [of "32 - n" x i] that calculation by fastforce
  ultimately show "bit (drop_bit n (push_bit n x)) i = bit x i" by (auto simp: bit_simps)
qed

lemma ucast_ucast8 [simp]: "ucast (ucast (v :: u8) :: u32) = v"
  by (rule bit_word_eqI) (auto simp: bit_simps)

lemma upto_ten: "1 \<le> k \<Longrightarrow> k \<le> 10 \<Longrightarrow> k \<in> {1, 2, 3, 4, 5, 6, 7, 8, 9, 10 :: nat}"
  by (simp, presburger)

lemma unat_of_nat32 [simp]: "n < 2 ^ 32 \<Longrightarrow> unat (of_nat n :: u32) = n"
  by (simp add: unsigned_of_nat take_bit_nat_eq_self)

lemma of_nat32_inj: "i < 2 ^ 32 \<Longrightarrow> j < 2 ^ 32 \<Longrightarrow> (of_nat i :: u32) = of_nat j \<longleftrightarrow> i = j"
  by (metis unat_of_nat32)

lemma unat32_less [simp]: "unat (x :: u32) < 4294967296"
  using unsigned_less [of x] by simp

lemma unat32_le [simp]: "unat (x :: u32) \<le> 4294967296"
  using unat32_less [of x] by (rule less_imp_le)

lemma le_unat32: "i \<le> unat (n :: u32) \<Longrightarrow> i < 2 ^ 32"
  using unat32_less [of n] by (simp del: unat32_less)

lemma less_unat32: "i < unat (n :: u32) \<Longrightarrow> i < 2 ^ 32"
  by (rule le_unat32, rule less_imp_le)

lemma of_nat_less32: "i \<le> unat n \<Longrightarrow> (of_nat i :: u32) < n \<longleftrightarrow> i < unat n"
  using le_unat32 [of i n] by (simp add: word_less_nat_alt)

lemma unat_minus_one32: "(x :: u32) \<noteq> 0 \<Longrightarrow> unat (x - 1) = unat x - 1"
  by (simp add: unat_minus_one)

lemma unat_plus_one32: "unat (x :: u32) + 1 < 2 ^ 32 \<Longrightarrow> unat (x + 1) = unat x + 1"
  by (simp add: unat_word_ariths)

lemma unat_diff_less: "(i :: u32) < n \<Longrightarrow> unat (n - (i + 1)) < unat (n - i)"
proof -
  assume "i < n"
  then have "n - i \<noteq> 0" by simp
  moreover have "n - (i + 1) = (n - i) - 1" by simp
  ultimately show ?thesis by (metis measure_unat)
qed

lemma offset_cancel [simp]: "(a + x) - a = (x :: u32)"
  by simp

lemma of_nat_unat32 [simp]: "of_nat (unat (x :: u32)) = x"
  by simp


lemma unat_diff_step: "(x :: u32) \<noteq> a \<Longrightarrow> unat (x - a) = Suc (unat (x - (a + 1)))"
proof -
  assume "x \<noteq> a"
  then have "x - a \<noteq> 0" by simp
  moreover have "x - (a + 1) = (x - a) - 1" by simp
  ultimately show ?thesis
    by (metis One_nat_def Suc_pred neq0_conv unat_eq_zero unat_minus_one)
qed

subsection \<open>Reads after block writes\<close>

lemma length_load_bytes [simp]: "length (load_bytes m a n) = n"
  by (simp add: load_bytes_def)

lemma nth_load_bytes [simp]: "i < n \<Longrightarrow> load_bytes m a n ! i = m (a + of_nat i)"
  by (simp add: load_bytes_def)

lemma load_bytes_0 [simp]: "load_bytes m a 0 = []"
  by (simp add: load_bytes_def)

lemma load_bytes_Suc: "load_bytes m a (Suc n) = m a # load_bytes m (a + 1) n"
  by (rule nth_equalityI) (auto simp: load_bytes_def nth_Cons simp del: upt_Suc split: nat.split
      intro!: arg_cong [of _ _ m])

lemma load_bytes_add: "load_bytes m a (n + k) = load_bytes m a n @ load_bytes m (a + of_nat n) k"
  by (rule nth_equalityI) (auto simp: nth_append ac_simps)

lemma store_bytes_apply [mem_simps]:
  "length bs \<le> 2 ^ 32 \<Longrightarrow>
   store_bytes m a bs x = (if unat (x - a) < length bs then bs ! unat (x - a) else m x)"
proof (induction bs arbitrary: m a)
  case Nil
  then show ?case by simp
next
  case (Cons b bs)
  from Cons.prems have len: "length bs \<le> 2 ^ 32" "length bs < 2 ^ 32" by auto
  have IH: "store_bytes (m(a := b)) (a + 1) bs x =
      (if unat (x - (a + 1)) < length bs then bs ! unat (x - (a + 1)) else (m(a := b)) x)"
    by (rule Cons.IH [OF len(1)])
  show ?case
  proof (cases "x = a")
    case True
    have "\<not> unat (a - (a + 1)) < length bs"
    proof -
      have "a - (a + 1) = (- 1 :: u32)" by simp
      moreover have "unat (- 1 :: u32) = 2 ^ 32 - 1"
        by (simp add: unsigned_minus_1_eq_mask mask_eq_exp_minus_1)
      ultimately show ?thesis using len by simp
    qed
    with IH show ?thesis by (simp add: True)
  next
    case False
    with unat_diff_step [OF False] IH show ?thesis by simp
  qed
qed

lemma store_bytes_append:
  "store_bytes m a (xs @ ys) = store_bytes (store_bytes m a xs) (a + of_nat (length xs)) ys"
  by (induction xs arbitrary: m a) (simp_all add: ac_simps)

lemma store_bytes_snoc: "store_bytes m a (bs @ [b]) = (store_bytes m a bs)(a + of_nat (length bs) := b)"
  by (simp add: store_bytes_append)

lemma fold_store_bytes:
  "fold (\<lambda>j m. m(a + of_nat j := g j)) [0..<n] m = store_bytes m a (map g [0..<n])"
  by (induction n) (auto simp: store_bytes_snoc fun_eq_iff)

lemma store_bytes_update:
  assumes "k < length bs" "length bs \<le> 2 ^ 32"
  shows "(store_bytes m a bs)(a + of_nat k := v) = store_bytes m a (bs[k := v])"
proof (rule ext)
  fix x
  have "k < 2 ^ 32" using assms by simp
  then have "x = a + of_nat k \<longleftrightarrow> unat (x - a) = k"
    by (metis add_diff_cancel_left' diff_add_cancel of_nat_unat32 unat_of_nat32)
  then show "((store_bytes m a bs)(a + of_nat k := v)) x = store_bytes m a (bs[k := v]) x"
    using assms by (auto simp: store_bytes_apply nth_list_update)
qed

lemma store_bytes_outside [mem_simps]:
  "length bs \<le> 2 ^ 32 \<Longrightarrow> \<not> in_region a (length bs) x \<Longrightarrow> store_bytes m a bs x = m x"
  by (simp add: store_bytes_apply in_region_def)

lemma load_store_bytes [simp]:
  "length bs \<le> 2 ^ 32 \<Longrightarrow> n = length bs \<Longrightarrow> load_bytes (store_bytes m a bs) a n = bs"
  by (rule nth_equalityI) (auto simp: store_bytes_apply)

lemma load_bytes_cong:
  "(\<And>x. in_region a n x \<Longrightarrow> m x = m' x) \<Longrightarrow> n \<le> 2 ^ 32 \<Longrightarrow> load_bytes m a n = load_bytes m' a n"
  by (rule nth_equalityI) (auto simp: in_region_def)

lemma load_bytes_store_disjoint [mem_simps]:
  assumes "disjoint_regions a n b (length bs)" "length bs \<le> 2 ^ 32" "n \<le> 2 ^ 32"
  shows "load_bytes (store_bytes m b bs) a n = load_bytes m a n"
  using assms by (intro load_bytes_cong) (auto simp: store_bytes_outside disjoint_regions_def)

lemma store_load_same [simp]: "n \<le> 2 ^ 32 \<Longrightarrow> store_bytes m a (load_bytes m a n) = m"
  by (rule ext) (auto simp: store_bytes_apply)

lemma disjoint_regions_sym: "disjoint_regions a n b k \<longleftrightarrow> disjoint_regions b k a n"
  by (auto simp: disjoint_regions_def)

lemma disjoint_regions_mono:
  "disjoint_regions a n b k \<Longrightarrow> n' \<le> n \<Longrightarrow> k' \<le> k \<Longrightarrow> disjoint_regions a n' b k'"
  unfolding disjoint_regions_def in_region_def by (meson less_le_trans)

lemma in_region_offset:
  assumes "i + n \<le> k" "k \<le> 2 ^ 32" "in_region (a + of_nat i) n x"
  shows "in_region a k x"
proof -
  let ?d = "x - (a + of_nat i)"
  have eq: "x - a = of_nat i + ?d" by simp
  have "unat ?d < n" using assms(3) by (simp add: in_region_def)
  moreover from this have "unat (of_nat i :: u32) = i"
    using assms(1,2) by (intro unat_of_nat32) simp
  ultimately have "unat (x - a) = i + unat ?d"
    using assms(1,2) unfolding eq unat_word_ariths(1) by simp
  with \<open>unat ?d < n\<close> assms(1) show ?thesis by (simp add: in_region_def)
qed

lemma disjoint_regions_offset:
  "disjoint_regions a n b k \<Longrightarrow> i + n' \<le> n \<Longrightarrow> j + k' \<le> k \<Longrightarrow> n \<le> 2 ^ 32 \<Longrightarrow> k \<le> 2 ^ 32 \<Longrightarrow>
   disjoint_regions (a + of_nat i) n' (b + of_nat j) k'"
  unfolding disjoint_regions_def by (meson in_region_offset)

lemma store_bytes_read_disjoint:
  assumes "disjoint_regions a n b k" "i < n" "n \<le> 2 ^ 32" "length bs \<le> k" "k \<le> 2 ^ 32"
  shows "store_bytes m b bs (a + of_nat i) = m (a + of_nat i)"
proof -
  have "in_region a n (a + of_nat i)" using assms by (simp add: in_region_def)
  then have "\<not> in_region b (length bs) (a + of_nat i)"
    using assms(1,4) unfolding disjoint_regions_def in_region_def by (meson less_le_trans)
  then show ?thesis using assms by (simp add: store_bytes_outside)
qed

text \<open>Two linear address ranges that do not wrap and lie one after the other are disjoint.\<close>

lemma disjoint_regionsI [mem_disj]:
  assumes "unat a + n \<le> unat b" "unat b + k \<le> 2 ^ 32"
  shows "disjoint_regions a n b k"
proof -
  have False if "unat (x - a) < n" "unat (x - b) < k" for x :: u32
  proof -
    have "unat (a + (x - a)) = unat a + unat (x - a)"
      using that assms by (subst unat_word_ariths) simp
    moreover have "unat (b + (x - b)) = unat b + unat (x - b)"
      using that assms by (subst unat_word_ariths) simp
    ultimately show False using that assms by simp
  qed
  then show ?thesis by (auto simp: disjoint_regions_def in_region_def)
qed

subsection \<open>Little-endian words\<close>

lemma disjoint_regions_apart:
  "unat a + n \<le> unat b \<and> unat b + k \<le> 2 ^ 32 \<or> unat b + k \<le> unat a \<and> unat a + n \<le> 2 ^ 32 \<Longrightarrow> disjoint_regions a n b k"
  using disjoint_regionsI [of a n b k] disjoint_regionsI [of b k a n] disjoint_regions_sym by blast

lemma store32_store_bytes: "store32 m a v = store_bytes m a (bytes_of32 v)"
  by (simp add: store32_def bytes_of32_def add.commute)

lemma length_bytes_of32 [simp]: "length (bytes_of32 v) = 4"
  by (simp add: bytes_of32_def)

lemma load_bytes_4: "load_bytes m a 4 = [m a, m (a + 1), m (a + 2), m (a + 3)]"
  by (simp add: load_bytes_def upt_rec)

lemma bytes_of32_join:
  fixes b0 b1 b2 b3 :: u8
  defines "v \<equiv> (ucast b0 OR push_bit 8 (ucast b1) OR push_bit 16 (ucast b2) OR push_bit 24 (ucast b3) :: u32)"
  shows "bytes_of32 v = [b0, b1, b2, b3]"
proof -
  have "ucast v = b0"
    unfolding v_def by (rule bit_word_eqI) (auto simp: bit_simps dest: bit_imp_le_length)
  moreover have "ucast (drop_bit 8 v) = b1"
    unfolding v_def by (rule bit_word_eqI) (auto simp: bit_simps dest: bit_imp_le_length)
  moreover have "ucast (drop_bit 16 v) = b2"
    unfolding v_def by (rule bit_word_eqI) (auto simp: bit_simps dest: bit_imp_le_length)
  moreover have "ucast (drop_bit 24 v) = b3"
    unfolding v_def by (rule bit_word_eqI) (auto simp: bit_simps dest: bit_imp_le_length)
  ultimately show ?thesis by (simp add: bytes_of32_def)
qed

lemma bytes_of32_load32 [mem_simps]: "bytes_of32 (load32 m a) = load_bytes m a 4"
  unfolding load32_def by (simp add: bytes_of32_join load_bytes_4)

lemma bytes_of32_inj: "bytes_of32 v = bytes_of32 w \<longleftrightarrow> v = w"
proof
  assume eq: "bytes_of32 v = bytes_of32 w"
  show "v = w"
  proof (rule bit_word_eqI)
    fix n assume n: "n < LENGTH(32)"
    let ?k = "n div 8"
    have b: "bit x n = bit (bytes_of32 x ! ?k) (n mod 8)" for x :: u32
    proof -
      have "?k = 0 \<or> ?k = 1 \<or> ?k = 2 \<or> ?k = 3" using n by auto
      moreover have "n = 8 * ?k + n mod 8" by simp
      moreover have "n mod 8 < 8" by simp
      ultimately show ?thesis
        by (elim disjE) (simp_all add: bytes_of32_def bit_simps nth_Cons')
    qed
    show "bit v n = bit w n" unfolding b eq ..
  qed
qed simp

lemma load32_store32 [mem_simps]: "load32 (store32 m a v) a = v"
proof -
  have "bytes_of32 (load32 (store32 m a v) a) = bytes_of32 v"
    by (simp add: bytes_of32_load32 store32_store_bytes)
  then show ?thesis by (simp add: bytes_of32_inj)
qed

lemma load32_cong: "load_bytes m a 4 = load_bytes m' a 4 \<Longrightarrow> load32 m a = load32 m' a"
  by (simp add: load_bytes_4 load32_def)

lemma store32_load32_same [simp]: "store32 m a (load32 m a) = m"
  by (simp add: store32_store_bytes bytes_of32_load32)

lemma load32_store_disjoint [mem_simps]:
  "disjoint_regions a 4 b (length bs) \<Longrightarrow> length bs \<le> 2 ^ 32 \<Longrightarrow>
   load32 (store_bytes m b bs) a = load32 m a"
  by (intro load32_cong load_bytes_store_disjoint) auto

subsection \<open>NUL-terminated strings\<close>

lemma cstr_nth: "cstr m s xs \<Longrightarrow> i < length xs \<Longrightarrow> m (s + of_nat i) = xs ! i"
  unfolding cstr_def by (metis nth_load_bytes)

lemma cstr_nth_nonzero: "cstr m s xs \<Longrightarrow> i < length xs \<Longrightarrow> m (s + of_nat i) \<noteq> 0"
  by (metis cstr_def cstr_nth nth_mem)

lemma cstr_nth_nz: "cstr m s xs \<Longrightarrow> i < length xs \<Longrightarrow> xs ! i \<noteq> 0"
  using cstr_nth cstr_nth_nonzero by metis

lemma cstr_end: "cstr m s xs \<Longrightarrow> m (s + of_nat (length xs)) = 0"
  by (simp add: cstr_def)

lemma cstr_store:
  "0 \<notin> set xs \<Longrightarrow> length xs < 2 ^ 32 \<Longrightarrow> cstr (store_bytes m s (xs @ [0])) s xs"
  unfolding cstr_def by (auto simp: store_bytes_apply nth_append intro!: nth_equalityI)

lemma cstr_bytes:
  assumes "load_bytes m s (length xs + 1) = xs @ [0]" "0 \<notin> set xs" "length xs < 2 ^ 32"
  shows "cstr m s xs"
  using assms load_bytes_add [of m s "length xs" 1] by (simp add: cstr_def load_bytes_def)

lemma cstr_load: "cstr m s xs \<Longrightarrow> load_bytes m s (length xs + 1) = xs @ [0]"
  using load_bytes_add [of m s "length xs" 1] load_bytes_Suc [of m "s + of_nat (length xs)" 0] by (simp add: cstr_def)

lemma cstr_unique:
  assumes "cstr m s xs" "cstr m s ys"
  shows "xs = ys"
proof -
  have "\<not> length ys < length xs"
    using cstr_nth_nonzero [OF assms(1), of "length ys"] cstr_end [OF assms(2)] by auto
  moreover have "\<not> length xs < length ys"
    using cstr_nth_nonzero [OF assms(2), of "length xs"] cstr_end [OF assms(1)] by auto
  ultimately have "length xs = length ys" by simp
  with assms show ?thesis by (metis cstr_def)
qed

lemma cstr_frame:
  assumes "cstr m s xs" "disjoint_regions s (Suc (length xs)) b (length bs)"
    "length bs \<le> 2 ^ 32"
  shows "cstr (store_bytes m b bs) s xs"
proof -
  from assms(1) have len: "Suc (length xs) \<le> 2 ^ 32" by (simp add: cstr_def)
  have "load_bytes (store_bytes m b bs) s (Suc (length xs)) = load_bytes m s (Suc (length xs))"
    using assms(2,3) len by (rule load_bytes_store_disjoint)
  then have "load_bytes (store_bytes m b bs) s (length xs) @ [store_bytes m b bs (s + of_nat (length xs))] =
      load_bytes m s (length xs) @ [m (s + of_nat (length xs))]"
    using load_bytes_add [of _ s "length xs" 1] by (simp add: load_bytes_def)
  with assms(1) show ?thesis by (simp add: cstr_def)
qed

subsection \<open>Frames\<close>

text \<open>Two memories that differ at most in one region.\<close>

definition changes_only :: "u32 \<Rightarrow> nat \<Rightarrow> mem \<Rightarrow> mem \<Rightarrow> bool" where
  "changes_only a n m m' \<longleftrightarrow> (\<forall>x. \<not> in_region a n x \<longrightarrow> m' x = m x)"

lemma changes_only_refl: "changes_only a n m m"
  by (simp add: changes_only_def)

lemma changes_only_trans: "changes_only a n m m' \<Longrightarrow> changes_only a n m' m'' \<Longrightarrow> changes_only a n m m''"
  by (simp add: changes_only_def)

lemma changes_only_store:
  assumes "i + length bs \<le> n" "n \<le> 2 ^ 32"
  shows "changes_only a n m (store_bytes m (a + of_nat i) bs)"
proof -
  have "length bs \<le> 2 ^ 32" using assms by simp
  moreover have "\<not> in_region (a + of_nat i) (length bs) x" if "\<not> in_region a n x" for x
    using that in_region_offset [OF assms] by blast
  ultimately show ?thesis by (simp add: changes_only_def store_bytes_outside)
qed

lemma changes_only_load_bytes:
  assumes "changes_only a n m m'" "disjoint_regions a n b k" "k \<le> 2 ^ 32"
  shows "load_bytes m' b k = load_bytes m b k"
  using assms by (intro load_bytes_cong) (auto simp: changes_only_def disjoint_regions_def)

lemma changes_only_load32:
  assumes "changes_only a n m m'" "disjoint_regions a n b k" "i + 4 \<le> k" "k \<le> 2 ^ 32" "n \<le> 2 ^ 32"
  shows "load32 m' (b + of_nat i) = load32 m (b + of_nat i)"
  using assms disjoint_regions_offset [of a n b k 0 n i 4]
  by (intro load32_cong changes_only_load_bytes [OF assms(1)]) simp_all

lemma disjoint_same_base:
  assumes "i + n \<le> j" "j + k \<le> 2 ^ 32"
  shows "disjoint_regions (a + of_nat i) n (a + of_nat j) k"
proof -
  have off: "unat (x - a) = r + unat (x - (a + of_nat r))" if "unat (x - (a + of_nat r)) < l" "r + l \<le> 2 ^ 32" "0 < l" for x r l
  proof -
    have "x - a = of_nat r + (x - (a + of_nat r))" by simp
    moreover have "unat (of_nat r :: u32) = r" using that by (intro unat_of_nat32) simp
    ultimately show ?thesis using that unat_word_ariths(1) [of "of_nat r" "x - (a + of_nat r)"] by simp
  qed
  have False if "unat (x - (a + of_nat i)) < n" "unat (x - (a + of_nat j)) < k" for x
    using off [OF that(1)] off [OF that(2)] that assms by simp
  then show ?thesis by (auto simp: disjoint_regions_def in_region_def)
qed

lemma changes_only_cstr:
  assumes "changes_only a n m m'" "cstr m s xs" "disjoint_regions a n s (Suc (length xs))"
  shows "cstr m' s xs"
proof (rule cstr_bytes)
  show xs: "0 \<notin> set xs" "length xs < 2 ^ 32" using assms(2) by (simp_all add: cstr_def)
  show "load_bytes m' s (length xs + 1) = xs @ [0]"
    using changes_only_load_bytes [OF assms(1,3)] cstr_load [OF assms(2)] xs(2) by simp
qed

lemma store_bytes_swap:
  assumes "disjoint_regions a (length xs) b (length ys)" "length xs \<le> 2 ^ 32" "length ys \<le> 2 ^ 32"
  shows "store_bytes (store_bytes m a xs) b ys = store_bytes (store_bytes m b ys) a xs"
  using assms by (intro ext) (auto simp: store_bytes_apply disjoint_regions_def in_region_def)

lemma sint_small: "n < 2 ^ 31 \<Longrightarrow> sint (of_nat n :: u32) = int n"
  by (simp add: sint_uint signed_take_bit_int_eq_self uint_nat)

end
