(* ===== verification/Lib_Memory.thy ===== *)
theory Lib_Memory
  imports Prelude
begin

text \<open>
  The block memory routines of \<^verbatim>\<open>student-distrib/lib.c\<close>: \<open>memset\<close>,
  \<open>memset_word\<close>, \<open>memset_dword\<close>, \<open>memcpy\<close> and \<open>memmove\<close>.  They are inline
  assembly; each label of the assembly is one recursive function here over the
  registers it uses (\<open>edi\<close>, \<open>esi\<close>, \<open>ecx\<close>, \<open>edx\<close>, \<open>eax\<close>) and memory, and a
  \<^verbatim>\<open>rep\<close> prefix is a loop that counts \<open>ecx\<close> down.  The segment register moves
  have no effect in the flat address space of the kernel.  The C return value of
  every routine is its first argument and is not repeated in the models.

  The routines are shown equal to the reference block write
  \<open>store_bytes\<close>; the locale \<open>block_copy\<close> is the contract that their callers
  use, and both \<open>memcpy\<close> and \<open>memmove\<close> meet it.
\<close>

subsection \<open>String instructions\<close>

function rep_stosl :: "mem \<Rightarrow> u32 \<Rightarrow> u32 \<Rightarrow> u32 \<Rightarrow> mem \<times> u32" where
  "rep_stosl m edi eax ecx =
     (if ecx = 0 then (m, edi) else rep_stosl (store32 m edi eax) (edi + 4) eax (ecx - 1))"
  by pat_completeness auto
termination
  by (relation "measure (\<lambda>(m, edi, eax, ecx). unat ecx)") (auto simp: measure_unat)

function rep_stosw :: "mem \<Rightarrow> u32 \<Rightarrow> u32 \<Rightarrow> u32 \<Rightarrow> mem \<times> u32" where
  "rep_stosw m edi eax ecx =
     (if ecx = 0 then (m, edi)
      else rep_stosw (m(edi := ucast eax, edi + 1 := ucast (drop_bit 8 eax))) (edi + 2) eax (ecx - 1))"
  by pat_completeness auto
termination
  by (relation "measure (\<lambda>(m, edi, eax, ecx). unat ecx)") (auto simp: measure_unat)

function rep_movsl :: "mem \<Rightarrow> u32 \<Rightarrow> u32 \<Rightarrow> u32 \<Rightarrow> mem \<times> u32 \<times> u32" where
  "rep_movsl m edi esi ecx =
     (if ecx = 0 then (m, edi, esi)
      else rep_movsl (store32 m edi (load32 m esi)) (edi + 4) (esi + 4) (ecx - 1))"
  by pat_completeness auto
termination
  by (relation "measure (\<lambda>(m, edi, esi, ecx). unat ecx)") (auto simp: measure_unat)

text \<open>\<open>df\<close> is the direction flag: set, the string instruction walks downwards.\<close>

function rep_movsb :: "bool \<Rightarrow> mem \<Rightarrow> u32 \<Rightarrow> u32 \<Rightarrow> u32 \<Rightarrow> mem" where
  "rep_movsb df m edi esi ecx =
     (if ecx = 0 then m
      else rep_movsb df (m(edi := m esi)) (if df then edi - 1 else edi + 1)
             (if df then esi - 1 else esi + 1) (ecx - 1))"
  by pat_completeness auto
termination
  by (relation "measure (\<lambda>(df, m, edi, esi, ecx). unat ecx)") (auto simp: measure_unat)

subsection \<open>memset\<close>

text \<open>\<^verbatim>\<open>.memset_bottom\<close>: the at most three bytes after the last full word.\<close>

function memset_bottom :: "mem \<Rightarrow> u32 \<Rightarrow> u32 \<Rightarrow> u32 \<Rightarrow> mem" where
  "memset_bottom m edi eax edx =
     (if edx = 0 then m else memset_bottom (m(edi := ucast eax)) (edi + 1) eax (edx - 1))"
  by pat_completeness auto
termination
  by (relation "measure (\<lambda>(m, edi, eax, edx). unat edx)") (auto simp: measure_unat)

definition memset_aligned :: "mem \<Rightarrow> u32 \<Rightarrow> u32 \<Rightarrow> u32 \<Rightarrow> mem" where
  "memset_aligned m edi eax ecx =
     (let edx = ecx AND 3; (m', edi') = rep_stosl m edi eax (drop_bit 2 ecx)
      in memset_bottom m' edi' eax edx)"

function memset_top :: "mem \<Rightarrow> u32 \<Rightarrow> u32 \<Rightarrow> u32 \<Rightarrow> mem" where
  "memset_top m edi eax ecx =
     (if ecx = 0 then m
      else if edi AND 3 = 0 then memset_aligned m edi eax ecx
      else memset_top (m(edi := ucast eax)) (edi + 1) eax (ecx - 1))"
  by pat_completeness auto
termination
  by (relation "measure (\<lambda>(m, edi, eax, ecx). unat ecx)") (auto simp: measure_unat)

definition memset :: "mem \<Rightarrow> u32 \<Rightarrow> u32 \<Rightarrow> u32 \<Rightarrow> mem" where
  "memset m s c n =
     (let c = c AND 255
      in memset_top m s (push_bit 24 c OR push_bit 16 c OR push_bit 8 c OR c) n)"

definition memset_word :: "mem \<Rightarrow> u32 \<Rightarrow> u32 \<Rightarrow> u32 \<Rightarrow> mem" where
  "memset_word m s c n = fst (rep_stosw m s c n)"

definition memset_dword :: "mem \<Rightarrow> u32 \<Rightarrow> u32 \<Rightarrow> u32 \<Rightarrow> mem" where
  "memset_dword m s c n = fst (rep_stosl m s c n)"

subsection \<open>memcpy\<close>

function memcpy_bottom :: "mem \<Rightarrow> u32 \<Rightarrow> u32 \<Rightarrow> u32 \<Rightarrow> mem" where
  "memcpy_bottom m edi esi edx =
     (if edx = 0 then m else memcpy_bottom (m(edi := m esi)) (edi + 1) (esi + 1) (edx - 1))"
  by pat_completeness auto
termination
  by (relation "measure (\<lambda>(m, edi, esi, edx). unat edx)") (auto simp: measure_unat)

definition memcpy_aligned :: "mem \<Rightarrow> u32 \<Rightarrow> u32 \<Rightarrow> u32 \<Rightarrow> mem" where
  "memcpy_aligned m edi esi ecx =
     (let edx = ecx AND 3; (m', edi', esi') = rep_movsl m edi esi (drop_bit 2 ecx)
      in memcpy_bottom m' edi' esi' edx)"

function memcpy_top :: "mem \<Rightarrow> u32 \<Rightarrow> u32 \<Rightarrow> u32 \<Rightarrow> mem" where
  "memcpy_top m edi esi ecx =
     (if ecx = 0 then m
      else if edi AND 3 = 0 then memcpy_aligned m edi esi ecx
      else memcpy_top (m(edi := m esi)) (edi + 1) (esi + 1) (ecx - 1))"
  by pat_completeness auto
termination
  by (relation "measure (\<lambda>(m, edi, esi, ecx). unat ecx)") (auto simp: measure_unat)

definition memcpy :: "mem \<Rightarrow> u32 \<Rightarrow> u32 \<Rightarrow> u32 \<Rightarrow> mem" where
  "memcpy m dest src n = memcpy_top m dest src n"

subsection \<open>memmove\<close>

text \<open>The result pairs memory with the direction flag the routine leaves behind.\<close>

definition memmove :: "mem \<Rightarrow> u32 \<Rightarrow> u32 \<Rightarrow> u32 \<Rightarrow> mem \<times> bool" where
  "memmove m dest src n =
     (if dest \<le> src then (rep_movsb False m dest src n, False)
      else (rep_movsb True m (dest + n - 1) (src + n - 1) n, True))"

declare rep_stosl.simps [simp del] rep_stosw.simps [simp del] rep_movsl.simps [simp del]
  rep_movsb.simps [simp del] memset_bottom.simps [simp del] memset_top.simps [simp del]
  memcpy_bottom.simps [simp del] memcpy_top.simps [simp del]

subsection \<open>The fill routines against the reference write\<close>

lemma concat_replicate_Suc: "concat (replicate (Suc n) bs) = bs @ concat (replicate n bs)"
  by simp

lemma concat_replicate_quad: "concat (replicate n [c, c, c, c]) = replicate (4 * n) c"
  by (induction n) (simp_all add: numeral_eq_Suc)

lemma unat_Suc_pred32: "(x :: u32) \<noteq> 0 \<Longrightarrow> unat x = Suc (unat (x - 1))"
  by (metis One_nat_def Suc_pred neq0_conv unat_eq_zero unat_minus_one)

lemma rep_stosl_eq:
  "rep_stosl m edi eax ecx =
     (store_bytes m edi (concat (replicate (unat ecx) (bytes_of32 eax))), edi + 4 * ecx)"
proof (induction m edi eax ecx rule: rep_stosl.induct)
  case (1 m edi eax ecx)
  show ?case
  proof (cases "ecx = 0")
    case True
    then show ?thesis by (simp add: rep_stosl.simps)
  next
    case False
    from 1 [OF False] False show ?thesis
      by (subst rep_stosl.simps)
        (simp add: store32_store_bytes unat_Suc_pred32 store_bytes_append algebra_simps)
  qed
qed

lemma memset_bottom_eq:
  "memset_bottom m edi eax edx = store_bytes m edi (replicate (unat edx) (ucast eax))"
proof (induction m edi eax edx rule: memset_bottom.induct)
  case (1 m edi eax edx)
  have "memset_bottom (m(edi := ucast eax)) (edi + 1) eax (edx - 1) =
      store_bytes (m(edi := ucast eax)) (edi + 1) (replicate (unat (edx - 1)) (ucast eax))"
    if "edx \<noteq> 0" using that by (rule 1)
  then show ?case
    by (subst memset_bottom.simps) (auto simp: unat_Suc_pred32)
qed

lemma unat_split4: "unat (x :: u32) = 4 * unat (drop_bit 2 x) + unat (x AND 3)"
proof -
  have "unat (drop_bit 2 x) = unat x div 4"
    by (simp add: drop_bit_eq_div unat_div_distrib)
  moreover have "unat (x AND 3) = unat x mod 4"
  proof -
    have "x AND 3 = take_bit 2 x" by (simp add: take_bit_eq_mask mask_eq_exp_minus_1)
    then show ?thesis by (simp add: take_bit_eq_mod unat_mod_distrib)
  qed
  ultimately show ?thesis by simp
qed

lemma memset_aligned_eq:
  assumes "bytes_of32 eax = [c, c, c, c]"
  shows "memset_aligned m edi eax ecx = store_bytes m edi (replicate (unat ecx) c)"
proof -
  let ?w = "drop_bit 2 ecx" and ?r = "ecx AND 3"
  have c: "ucast eax = c" using assms by (simp add: bytes_of32_def)
  have off: "4 * ?w = (of_nat (4 * unat ?w) :: u32)" by simp
  show ?thesis
    unfolding memset_aligned_def Let_def rep_stosl_eq assms concat_replicate_quad prod.case
      memset_bottom_eq c off unat_split4 [of ecx] replicate_add
    by (simp add: store_bytes_append)
qed

lemma memset_top_eq:
  assumes "bytes_of32 eax = [c, c, c, c]"
  shows "memset_top m edi eax ecx = store_bytes m edi (replicate (unat ecx) c)"
  using assms
proof (induction m edi eax ecx rule: memset_top.induct)
  case (1 m edi eax ecx)
  have c: "ucast eax = c" using 1(2) by (simp add: bytes_of32_def)
  have "memset_top (m(edi := ucast eax)) (edi + 1) eax (ecx - 1) =
      store_bytes (m(edi := ucast eax)) (edi + 1) (replicate (unat (ecx - 1)) c)"
    if "ecx \<noteq> 0" "edi AND 3 \<noteq> 0" using that 1(2) by (rule 1(1))
  with 1(2) show ?case
    by (subst memset_top.simps) (auto simp: memset_aligned_eq unat_Suc_pred32 c)
qed

lemma memset_pattern:
  "bytes_of32 (let c = c AND 255 in push_bit 24 c OR push_bit 16 c OR push_bit 8 c OR c) =
     [ucast c, ucast c, ucast c, ucast c]"
proof -
  have "(255 :: u32) = mask 8" by (simp add: mask_eq_exp_minus_1)
  then have "c AND 255 = take_bit 8 c" by (simp add: take_bit_eq_mask)
  then have u: "c AND 255 = ucast (ucast c :: u8)"
    by simp (rule bit_word_eqI, auto simp: bit_simps)
  show ?thesis
    unfolding Let_def u using bytes_of32_join [of "ucast c" "ucast c" "ucast c" "ucast c"]
    by (simp add: ac_simps)
qed

lemma memset_eq: "memset m s c n = store_bytes m s (replicate (unat n) (ucast c))"
  unfolding memset_def Let_def
  by (rule memset_top_eq) (simp only: memset_pattern [unfolded Let_def])

subsection \<open>The copy routines against the reference write\<close>

lemma copy_split:
  assumes "disjoint_regions s (a + b) d (a + b)" "a + b \<le> 2 ^ 32"
  shows "store_bytes (store_bytes m d (load_bytes m s a)) (d + of_nat a)
      (load_bytes (store_bytes m d (load_bytes m s a)) (s + of_nat a) b) =
    store_bytes m d (load_bytes m s (a + b))"
proof -
  have "disjoint_regions (s + of_nat a) b (d + of_nat 0) a"
    using assms by (intro disjoint_regions_offset [of s "a + b" d "a + b"]) auto
  then have "load_bytes (store_bytes m d (load_bytes m s a)) (s + of_nat a) b =
      load_bytes m (s + of_nat a) b"
    using assms(2) by (intro load_bytes_store_disjoint) auto
  then show ?thesis by (simp add: load_bytes_add store_bytes_append)
qed

lemma copy_byte:
  assumes "disjoint_regions s (Suc n) d (Suc n)" "Suc n \<le> 2 ^ 32"
  shows "store_bytes (m(d := m s)) (d + 1) (load_bytes (m(d := m s)) (s + 1) n) =
    store_bytes m d (load_bytes m s (Suc n))"
  using copy_split [of s 1 n d m] assms by (simp add: load_bytes_def)

lemma disjoint_step:
  "disjoint_regions s (k + n) d (k + n) \<Longrightarrow> k + n \<le> 2 ^ 32 \<Longrightarrow>
   disjoint_regions (s + of_nat k) n (d + of_nat k) n"
  using disjoint_regions_offset [of s "k + n" d "k + n" k n k n] by simp

lemma rep_movsl_eq:
  "disjoint_regions esi (4 * unat ecx) edi (4 * unat ecx) \<Longrightarrow> 4 * unat ecx \<le> 2 ^ 32 \<Longrightarrow>
   rep_movsl m edi esi ecx =
     (store_bytes m edi (load_bytes m esi (4 * unat ecx)), edi + 4 * ecx, esi + 4 * ecx)"
proof (induction "unat ecx" arbitrary: m edi esi ecx)
  case 0
  then show ?case by (simp add: rep_movsl.simps unat_eq_zero)
next
  case (Suc n)
  then have nz: "ecx \<noteq> 0" by auto
  have n: "n = unat (ecx - 1)" using unat_Suc_pred32 [OF nz] Suc.hyps(2) by simp
  have len: "4 * unat ecx = 4 + 4 * n" using Suc.hyps(2) by simp
  have "disjoint_regions (esi + of_nat 4) (4 * n) (edi + of_nat 4) (4 * n)"
    using Suc.prems len by (intro disjoint_step) auto
  then have "rep_movsl (store32 m edi (load32 m esi)) (edi + 4) (esi + 4) (ecx - 1) =
     (store_bytes (store32 m edi (load32 m esi)) (edi + 4)
        (load_bytes (store32 m edi (load32 m esi)) (esi + 4) (4 * n)),
      edi + 4 + 4 * (ecx - 1), esi + 4 + 4 * (ecx - 1))"
    using Suc.hyps(1) [OF n, of "esi + 4" "edi + 4"] n len Suc.prems(2) by simp
  moreover have "store_bytes (store32 m edi (load32 m esi)) (edi + 4)
        (load_bytes (store32 m edi (load32 m esi)) (esi + 4) (4 * n)) =
      store_bytes m edi (load_bytes m esi (4 * unat ecx))"
    using copy_split [of esi 4 "4 * n" edi m] Suc.prems len
    by (simp add: store32_store_bytes bytes_of32_load32)
  ultimately show ?case using nz by (subst rep_movsl.simps) simp
qed

lemma memcpy_bottom_eq:
  "disjoint_regions esi (unat edx) edi (unat edx) \<Longrightarrow>
   memcpy_bottom m edi esi edx = store_bytes m edi (load_bytes m esi (unat edx))"
proof (induction "unat edx" arbitrary: m edi esi edx)
  case 0
  then show ?case by (simp add: memcpy_bottom.simps unat_eq_zero)
next
  case (Suc n)
  then have nz: "edx \<noteq> 0" by auto
  have n: "n = unat (edx - 1)" using unat_Suc_pred32 [OF nz] Suc.hyps(2) by simp
  have len: "Suc n \<le> 2 ^ 32" using Suc.hyps(2) unat32_less [of edx] by simp
  have "disjoint_regions (esi + of_nat 1) n (edi + of_nat 1) n"
    using Suc.prems Suc.hyps(2) len by (intro disjoint_step) auto
  then have "memcpy_bottom (m(edi := m esi)) (edi + 1) (esi + 1) (edx - 1) =
      store_bytes (m(edi := m esi)) (edi + 1) (load_bytes (m(edi := m esi)) (esi + 1) n)"
    using Suc.hyps(1) [OF n, of "esi + 1" "edi + 1"] n by (simp only: of_nat_1)
  also have "\<dots> = store_bytes m edi (load_bytes m esi (unat edx))"
    using copy_byte [of esi n edi m] Suc.prems Suc.hyps(2) len by (simp only: )
  finally show ?case using nz by (subst memcpy_bottom.simps) simp
qed

lemma memcpy_aligned_eq:
  assumes "disjoint_regions esi (unat ecx) edi (unat ecx)"
  shows "memcpy_aligned m edi esi ecx = store_bytes m edi (load_bytes m esi (unat ecx))"
proof -
  let ?w = "drop_bit 2 ecx" and ?r = "ecx AND 3"
  have sp: "unat ecx = 4 * unat ?w + unat ?r" by (rule unat_split4)
  have le: "4 * unat ?w + unat ?r \<le> 2 ^ 32" using unat32_less [of ecx] unfolding sp by simp
  have off: "4 * ?w = (of_nat (4 * unat ?w) :: u32)" by simp
  have d: "disjoint_regions esi (4 * unat ?w + unat ?r) edi (4 * unat ?w + unat ?r)"
    using assms unfolding sp .
  have "disjoint_regions esi (4 * unat ?w) edi (4 * unat ?w)"
    using d by (rule disjoint_regions_mono) auto
  then have movs: "rep_movsl m edi esi ?w = (store_bytes m edi (load_bytes m esi (4 * unat ?w)),
      edi + of_nat (4 * unat ?w), esi + of_nat (4 * unat ?w))"
    using rep_movsl_eq [of esi ?w edi m] le unfolding off by simp
  have "disjoint_regions (esi + of_nat (4 * unat ?w)) (unat ?r) (edi + of_nat (4 * unat ?w)) (unat ?r)"
    using d le by (rule disjoint_step)
  note bottom = memcpy_bottom_eq [OF this]
  have "memcpy_aligned m edi esi ecx =
      memcpy_bottom (store_bytes m edi (load_bytes m esi (4 * unat ?w)))
        (edi + of_nat (4 * unat ?w)) (esi + of_nat (4 * unat ?w)) ?r"
    by (simp only: memcpy_aligned_def Let_def movs prod.case)
  also have "\<dots> = store_bytes m edi (load_bytes m esi (4 * unat ?w + unat ?r))"
    unfolding bottom using d le by (rule copy_split)
  finally show ?thesis by (simp only: sp)
qed

lemma memcpy_top_eq:
  "disjoint_regions esi (unat ecx) edi (unat ecx) \<Longrightarrow>
   memcpy_top m edi esi ecx = store_bytes m edi (load_bytes m esi (unat ecx))"
proof (induction "unat ecx" arbitrary: m edi esi ecx)
  case 0
  then show ?case by (simp add: memcpy_top.simps unat_eq_zero)
next
  case (Suc n)
  then have nz: "ecx \<noteq> 0" by auto
  have n: "n = unat (ecx - 1)" using unat_Suc_pred32 [OF nz] Suc.hyps(2) by simp
  have len: "Suc n \<le> 2 ^ 32" using Suc.hyps(2) unat32_less [of ecx] by simp
  have "disjoint_regions (esi + of_nat 1) n (edi + of_nat 1) n"
    using Suc.prems Suc.hyps(2) len by (intro disjoint_step) auto
  then have "memcpy_top (m(edi := m esi)) (edi + 1) (esi + 1) (ecx - 1) =
      store_bytes (m(edi := m esi)) (edi + 1) (load_bytes (m(edi := m esi)) (esi + 1) n)"
    using Suc.hyps(1) [OF n, of "esi + 1" "edi + 1"] n by (simp only: of_nat_1)
  also have "\<dots> = store_bytes m edi (load_bytes m esi (unat ecx))"
    using copy_byte [of esi n edi m] Suc.prems Suc.hyps(2) len by (simp only: )
  finally show ?case
    using nz memcpy_aligned_eq [OF Suc.prems] by (subst memcpy_top.simps) simp
qed

lemma memcpy_eq:
  "disjoint_regions src (unat n) dest (unat n) \<Longrightarrow>
   memcpy m dest src n = store_bytes m dest (load_bytes m src (unat n))"
  unfolding memcpy_def by (rule memcpy_top_eq)

text \<open>
  \<open>memmove\<close> copies upwards when the destination is not above the source and downwards
  otherwise, so that no source byte is overwritten before it is read.
\<close>

lemma rep_movsb_up:
  assumes "dest \<le> src" "unat src + unat n \<le> 2 ^ 32"
  shows "rep_movsb False m dest src n = store_bytes m dest (load_bytes m src (unat n))"
  using assms
proof (induction "unat n" arbitrary: m dest src n)
  case 0
  then show ?case by (simp add: rep_movsb.simps unat_eq_zero)
next
  case (Suc k)
  then have nz: "n \<noteq> 0" by auto
  have k: "k = unat (n - 1)" using unat_Suc_pred32 [OF nz] Suc.hyps(2) by simp
  let ?m = "m(dest := m src)"
  show ?case
  proof (cases "k = 0")
    case True
    then have "n = 1" using Suc.hyps(2) by (metis One_nat_def unat_1 word_unat_eq_iff)
    then show ?thesis by (simp add: rep_movsb.simps load_bytes_def)
  next
    case False
    then have s1: "unat (src + 1) = unat src + 1"
      using Suc.prems(2) Suc.hyps(2) by (intro unat_plus_one32) simp
    have d1: "unat (dest + 1) = unat dest + 1"
      using Suc.prems Suc.hyps(2) False by (intro unat_plus_one32) (auto simp: word_le_nat_alt)
    have "rep_movsb False ?m (dest + 1) (src + 1) (n - 1) =
        store_bytes ?m (dest + 1) (load_bytes ?m (src + 1) (unat (n - 1)))"
      using Suc.prems Suc.hyps(2) k s1 d1
      by (intro Suc.hyps(1)) (auto simp: word_le_nat_alt)
    moreover have "load_bytes ?m (src + 1) (unat (n - 1)) = load_bytes m (src + 1) (unat (n - 1))"
    proof (rule load_bytes_cong)
      fix x assume "in_region (src + 1) (unat (n - 1)) x"
      then have "unat (x - (src + 1)) < k" by (simp add: in_region_def k)
      moreover have "unat ((src + 1) + (x - (src + 1))) = unat (src + 1) + unat (x - (src + 1))"
        using calculation Suc.prems(2) Suc.hyps(2) s1 by (subst unat_word_ariths) simp
      ultimately have "unat dest < unat x" using Suc.prems(1) s1 by (simp add: word_le_nat_alt)
      then show "?m x = m x" by auto
    qed simp
    ultimately show ?thesis
      using nz by (subst rep_movsb.simps) (simp add: unat_Suc_pred32 load_bytes_Suc)
  qed
qed

lemma store_bytes_last:
  assumes "length bs < 2 ^ 32"
  shows "store_bytes (m(a + of_nat (length bs) := b)) a bs = store_bytes m a (bs @ [b])"
proof (rule ext)
  fix x
  have "x = a + of_nat (length bs) \<longleftrightarrow> unat (x - a) = length bs"
    using assms by (metis add_diff_cancel_left' diff_add_cancel of_nat_unat32 unat_of_nat32)
  then show "store_bytes (m(a + of_nat (length bs) := b)) a bs x = store_bytes m a (bs @ [b]) x"
    using assms by (auto simp: store_bytes_apply nth_append)
qed

lemma rep_movsb_down:
  assumes "src \<le> dest" "unat dest + unat n \<le> 2 ^ 32"
  shows "rep_movsb True m (dest + n - 1) (src + n - 1) n =
    store_bytes m dest (load_bytes m src (unat n))"
  using assms
proof (induction "unat n" arbitrary: m n)
  case 0
  then show ?case by (simp add: rep_movsb.simps unat_eq_zero)
next
  case (Suc k)
  then have nz: "n \<noteq> 0" by auto
  have k: "k = unat (n - 1)" using unat_Suc_pred32 [OF nz] Suc.hyps(2) by simp
  have ofk: "n - 1 = of_nat k" unfolding k by simp
  let ?m = "m(dest + of_nat k := m (src + of_nat k))"
  have "rep_movsb True ?m (dest + (n - 1) - 1) (src + (n - 1) - 1) (n - 1) =
      store_bytes ?m dest (load_bytes ?m src (unat (n - 1)))"
    using Suc.prems Suc.hyps(2) k by (intro Suc.hyps(1)) auto
  moreover have "load_bytes ?m src k = load_bytes m src k"
  proof (rule load_bytes_cong)
    fix x assume "in_region src k x"
    then have lt: "unat (x - src) < k" by (simp add: in_region_def)
    have klt: "k < 2 ^ 32" unfolding k by simp
    have "unat (src + (x - src)) = unat src + unat (x - src)"
      using lt Suc.prems Suc.hyps(2) by (subst unat_word_ariths) (simp add: word_le_nat_alt)
    moreover have "unat (dest + of_nat k) = unat dest + k"
      using Suc.prems Suc.hyps(2) klt by (subst unat_word_ariths) simp
    ultimately have "unat x \<noteq> unat (dest + of_nat k)"
      using lt Suc.prems(1) by (simp add: word_le_nat_alt)
    then show "?m x = m x" by auto
  qed (simp add: k)
  moreover have "store_bytes ?m dest (load_bytes m src k) =
      store_bytes m dest (load_bytes m src k @ [m (src + of_nat k)])"
    using store_bytes_last [of "load_bytes m src k" m dest "m (src + of_nat k)"] k by simp
  moreover have "load_bytes m src (unat n) = load_bytes m src k @ [m (src + of_nat k)]"
    using load_bytes_add [of m src k 1] Suc.hyps(2) by (simp add: load_bytes_def)
  moreover have "rep_movsb True m (dest + n - 1) (src + n - 1) n =
      rep_movsb True ?m (dest + (n - 1) - 1) (src + (n - 1) - 1) (n - 1)"
  proof -
    have e: "dest + n - 1 = dest + of_nat k" "src + n - 1 = src + of_nat k"
      unfolding ofk [symmetric] by simp_all
    have e': "dest + n - 1 - 1 = dest + (n - 1) - 1" "src + n - 1 - 1 = src + (n - 1) - 1"
      by simp_all
    have "rep_movsb True m (dest + n - 1) (src + n - 1) n =
        rep_movsb True (m(dest + n - 1 := m (src + n - 1))) (dest + n - 1 - 1) (src + n - 1 - 1) (n - 1)"
      using nz by (subst rep_movsb.simps) (simp only: if_False if_True)
    then show ?thesis unfolding e' unfolding e .
  qed
  ultimately show ?case unfolding k [symmetric] by (simp only:)
qed

lemma memmove_eq:
  assumes "unat dest + unat n \<le> 2 ^ 32" "unat src + unat n \<le> 2 ^ 32"
  shows "fst (memmove m dest src n) = store_bytes m dest (load_bytes m src (unat n))"
  using assms rep_movsb_up [of dest src n m] rep_movsb_down [of src dest n m]
  by (auto simp: memmove_def)

subsection \<open>The contract of a block copy\<close>

locale block_copy =
  fixes copy :: "mem \<Rightarrow> u32 \<Rightarrow> u32 \<Rightarrow> u32 \<Rightarrow> mem"
  assumes copy_eq:
    "disjoint_regions src (unat n) dest (unat n) \<Longrightarrow> unat src + unat n \<le> 2 ^ 32 \<Longrightarrow>
     unat dest + unat n \<le> 2 ^ 32 \<Longrightarrow>
     copy m dest src n = store_bytes m dest (load_bytes m src (unat n))"
begin

lemma copy_target:
  assumes "disjoint_regions src (unat n) dest (unat n)" "unat src + unat n \<le> 2 ^ 32"
    "unat dest + unat n \<le> 2 ^ 32"
  shows "load_bytes (copy m dest src n) dest (unat n) = load_bytes m src (unat n)"
  using assms by (simp add: copy_eq)

lemma copy_frame:
  assumes "disjoint_regions src (unat n) dest (unat n)" "unat src + unat n \<le> 2 ^ 32"
    "unat dest + unat n \<le> 2 ^ 32" "\<not> in_region dest (unat n) x"
  shows "copy m dest src n x = m x"
  using assms by (simp add: copy_eq store_bytes_outside)

lemma copy_source:
  assumes "disjoint_regions src (unat n) dest (unat n)" "unat src + unat n \<le> 2 ^ 32"
    "unat dest + unat n \<le> 2 ^ 32"
  shows "load_bytes (copy m dest src n) src (unat n) = load_bytes m src (unat n)"
  using assms by (simp add: copy_eq load_bytes_store_disjoint)

text \<open>Copying a block back onto its source changes nothing.\<close>

lemma copy_back:
  assumes "disjoint_regions src (unat n) dest (unat n)" "unat src + unat n \<le> 2 ^ 32"
    "unat dest + unat n \<le> 2 ^ 32"
  shows "copy (copy m dest src n) src dest n = copy m dest src n"
proof -
  have "disjoint_regions dest (unat n) src (unat n)"
    using assms(1) by (subst disjoint_regions_sym)
  then have "copy (copy m dest src n) src dest n =
      store_bytes (copy m dest src n) src (load_bytes (copy m dest src n) dest (unat n))"
    using assms(2,3) by (intro copy_eq)
  also have "\<dots> = store_bytes (copy m dest src n) src (load_bytes (copy m dest src n) src (unat n))"
    unfolding copy_target [OF assms] copy_source [OF assms] ..
  finally show ?thesis by simp
qed

end

interpretation memcpy_contract: block_copy memcpy
  by unfold_locales (rule memcpy_eq)

interpretation memmove_contract: block_copy "\<lambda>m dest src n. fst (memmove m dest src n)"
  by unfold_locales (rule memmove_eq)

subsection \<open>Properties\<close>

text \<open>\<open>memcpy\<close> (bytes up to a word boundary of the destination, then words, then
  the rest) has exactly the effect of a byte-for-byte block copy when the two blocks do
  not overlap, whatever their alignment and length.\<close>

theorem memcpy_correct:
  assumes "disjoint_regions src (unat n) dest (unat n)"
  shows "memcpy m dest src n = store_bytes m dest (load_bytes m src (unat n))"
  using assms by (rule memcpy_eq)

theorem memcpy_correct_witness:
  "memcpy (\<lambda>a. ucast a) 4099 8193 11 = store_bytes (\<lambda>a. ucast a) 4099 (load_bytes (\<lambda>a. ucast a) 8193 11) \<and>
   memcpy (\<lambda>a. ucast a) 4099 8193 11 4109 = 11"
proof -
  have "disjoint_regions (4099 :: u32) (unat (11 :: u32)) 8193 (unat (11 :: u32))"
    by (rule disjoint_regionsI) simp_all
  then have "disjoint_regions (8193 :: u32) (unat (11 :: u32)) 4099 (unat (11 :: u32))"
    by (subst disjoint_regions_sym)
  from memcpy_correct [OF this, of "\<lambda>a. ucast a"] show ?thesis
    by (simp add: store_bytes_apply)
qed

text \<open>C40: \<open>memmove\<close> copies a block faithfully even when source and destination overlap,
  in either direction, provided neither block runs past the end of the address space.\<close>

theorem memmove_correct:
  assumes "unat dest + unat n \<le> 2 ^ 32" and "unat src + unat n \<le> 2 ^ 32"
  shows "fst (memmove m dest src n) = store_bytes m dest (load_bytes m src (unat n))"
  using assms by (rule memmove_eq)

theorem memmove_correct_witness:
  "fst (memmove (\<lambda>a. ucast a) 102 100 5) = store_bytes (\<lambda>a. ucast a) 102 (load_bytes (\<lambda>a. ucast a) 100 5) \<and>
   load_bytes (fst (memmove (\<lambda>a. ucast a) 102 100 5)) 102 5 = [100, 101, 102, 103, 104]"
  using memmove_correct [of 102 5 100 "\<lambda>a. ucast a"] by (simp add: load_bytes_def upt_rec)

text \<open>\<open>memmove\<close> returns with the direction flag set exactly when it copied downwards:
  it executes \<^verbatim>\<open>std\<close> and never \<^verbatim>\<open>cld\<close> afterwards, although the
  i386 calling convention expects the flag clear on return.\<close>

theorem memmove_direction_flag: "snd (memmove m dest src n) \<longleftrightarrow> src < dest"
  by (auto simp: memmove_def)

text \<open>\<open>memset\<close>, which also works by words in the middle of the block, writes the low
  byte of its value to each of the \<open>n\<close> bytes and changes nothing else.\<close>

theorem memset_correct: "memset m s c n = store_bytes m s (replicate (unat n) (ucast c))"
  by (rule memset_eq)

end
