(* ===== verification/Lib_String.thy ===== *)
theory Lib_String
  imports Prelude
begin

text \<open>
  The string routines of \<^verbatim>\<open>student-distrib/lib.c\<close>: \<open>strlen\<close>, \<open>strncmp\<close>,
  \<open>strcpy\<close>, \<open>strncpy\<close>, \<open>strrev\<close> and \<open>itoa\<close>, over byte memory and 32-bit pointers.
  A loop that has no bound of its own (\<open>strlen\<close>, \<open>strcpy\<close>, and the digit loop of
  \<open>itoa\<close>, which does not end for radix 1) is a \<^theory_text>\<open>partial_function\<close> into
  \<open>option\<close>: \<open>None\<close> is a call that does not return a result.  The lemmas give the
  result on NUL-terminated strings and show exactly when a call returns.
\<close>

subsection \<open>strlen and strncmp\<close>

partial_function (option) strlen_from :: "mem \<Rightarrow> u32 \<Rightarrow> u32 \<Rightarrow> u32 option" where
  "strlen_from m s len = (if m (s + len) \<noteq> 0 then strlen_from m s (len + 1) else Some len)"

definition strlen :: "mem \<Rightarrow> u32 \<Rightarrow> u32 option" where
  "strlen m s = strlen_from m s 0"

text \<open>Characters are \<^verbatim>\<open>int8_t\<close>, signed on the i386, hence \<open>sint\<close> in the result.\<close>

function strncmp_from :: "mem \<Rightarrow> u32 \<Rightarrow> u32 \<Rightarrow> u32 \<Rightarrow> u32 \<Rightarrow> int" where
  "strncmp_from m s1 s2 n i =
     (if i < n then
        if m (s1 + i) \<noteq> m (s2 + i) \<or> m (s1 + i) = 0
        then sint (m (s1 + i)) - sint (m (s2 + i))
        else strncmp_from m s1 s2 n (i + 1)
      else 0)"
  by pat_completeness auto
termination
  by (relation "measure (\<lambda>(m, s1, s2, n, i). unat (n - i))")
    (auto simp: unat_diff_less)

definition strncmp :: "mem \<Rightarrow> u32 \<Rightarrow> u32 \<Rightarrow> u32 \<Rightarrow> int" where
  "strncmp m s1 s2 n = strncmp_from m s1 s2 n 0"

subsection \<open>strcpy and strncpy\<close>

partial_function (option) strcpy_from :: "mem \<Rightarrow> u32 \<Rightarrow> u32 \<Rightarrow> u32 \<Rightarrow> mem option" where
  "strcpy_from m dest src i =
     (if m (src + i) \<noteq> 0 then strcpy_from (m(dest + i := m (src + i))) dest src (i + 1)
      else Some (m(dest + i := 0)))"

definition strcpy :: "mem \<Rightarrow> u32 \<Rightarrow> u32 \<Rightarrow> mem option" where
  "strcpy m dest src = strcpy_from m dest src 0"

function strncpy_copy :: "mem \<Rightarrow> u32 \<Rightarrow> u32 \<Rightarrow> u32 \<Rightarrow> u32 \<Rightarrow> mem \<times> u32" where
  "strncpy_copy m dest src n i =
     (if m (src + i) \<noteq> 0 \<and> i < n
      then strncpy_copy (m(dest + i := m (src + i))) dest src n (i + 1)
      else (m, i))"
  by pat_completeness auto
termination
  by (relation "measure (\<lambda>(m, dest, src, n, i). unat (n - i))") (auto simp: unat_diff_less)

function strncpy_pad :: "mem \<Rightarrow> u32 \<Rightarrow> u32 \<Rightarrow> u32 \<Rightarrow> mem" where
  "strncpy_pad m dest n i =
     (if i < n then strncpy_pad (m(dest + i := 0)) dest n (i + 1) else m)"
  by pat_completeness auto
termination
  by (relation "measure (\<lambda>(m, dest, n, i). unat (n - i))") (auto simp: unat_diff_less)

definition strncpy :: "mem \<Rightarrow> u32 \<Rightarrow> u32 \<Rightarrow> u32 \<Rightarrow> mem" where
  "strncpy m dest src n = (let (m', i) = strncpy_copy m dest src n 0 in strncpy_pad m' dest n i)"

subsection \<open>strrev and itoa\<close>

text \<open>\<open>beg\<close> and \<open>end\<close> are signed: the string is indexed by \<^verbatim>\<open>int32_t\<close>.\<close>

function strrev_loop :: "mem \<Rightarrow> u32 \<Rightarrow> int \<Rightarrow> int \<Rightarrow> mem" where
  "strrev_loop m s beg endi =
     (if beg < endi then
        let tmp = m (s + of_int endi);
            m1 = m(s + of_int endi := m (s + of_int beg));
            m2 = m1(s + of_int beg := tmp)
        in strrev_loop m2 s (beg + 1) (endi - 1)
      else m)"
  by pat_completeness auto
termination
  by (relation "measure (\<lambda>(m, s, beg, endi). nat (endi - beg))") auto

definition strrev :: "mem \<Rightarrow> u32 \<Rightarrow> mem option" where
  "strrev m s = do { len \<leftarrow> strlen m s; Some (strrev_loop m s 0 (sint (len - 1))) }"

definition itoa_lookup :: "u8 list" where
  "itoa_lookup = map of_char ''0123456789ABCDEFGHIJKLMNOPQRSTUVWXYZ'' @ [0]"

text \<open>\<open>None\<close> also stands for the divide error of radix 0 and for an index outside the table.\<close>

partial_function (option) itoa_digits :: "mem \<Rightarrow> u32 \<Rightarrow> u32 \<Rightarrow> u32 \<Rightarrow> (mem \<times> u32) option" where
  "itoa_digits m newbuf newval radix =
     (if newval > 0 then
        if radix = 0 \<or> length itoa_lookup \<le> unat (newval mod radix) then None
        else itoa_digits (m(newbuf := itoa_lookup ! unat (newval mod radix))) (newbuf + 1)
               (newval div radix) radix
      else Some (m, newbuf))"

definition itoa :: "mem \<Rightarrow> u32 \<Rightarrow> u32 \<Rightarrow> u32 \<Rightarrow> mem option" where
  "itoa m val buf radix =
     (if val = 0 then Some (m(buf := 48, buf + 1 := 0))
      else do { (m', newbuf) \<leftarrow> itoa_digits m buf val radix; strrev (m'(newbuf := 0)) buf })"

declare strncmp_from.simps [simp del] strncpy_copy.simps [simp del] strncpy_pad.simps [simp del]
  strrev_loop.simps [simp del]

text \<open>Reading a numeral back: the digit of a character and the value of a digit string.\<close>

definition digit_char :: "nat \<Rightarrow> u8" where
  "digit_char d = itoa_lookup ! d"

definition digit_value :: "u8 \<Rightarrow> nat" where
  "digit_value c = (if c \<le> 57 then unat c - 48 else unat c - 55)"

fun digits_lsb :: "nat \<Rightarrow> nat \<Rightarrow> nat list" where
  "digits_lsb r n = (if n = 0 \<or> r < 2 then [] else n mod r # digits_lsb r (n div r))"

definition numeral_value :: "nat \<Rightarrow> u8 list \<Rightarrow> nat" where
  "numeral_value r xs = foldl (\<lambda>acc c. acc * r + digit_value c) 0 xs"

declare digits_lsb.simps [simp del]

subsection \<open>Lemmas: strlen\<close>

lemma strlen_from_eq:
  assumes "i \<le> k" "k < 2 ^ 32" "\<And>j. i \<le> j \<Longrightarrow> j < k \<Longrightarrow> m (s + of_nat j) \<noteq> 0"
    "m (s + of_nat k) = 0"
  shows "strlen_from m s (of_nat i) = Some (of_nat k)"
  using assms(1,3)
proof (induction i rule: inc_induct)
  case base
  show ?case using assms(4) by (subst strlen_from.simps) simp
next
  case (step i)
  have "strlen_from m s (of_nat (Suc i)) = Some (of_nat k)"
    using step by auto
  then show ?case using step by (subst strlen_from.simps) (simp add: add.commute)
qed

lemma strlen_cstr: "cstr m s xs \<Longrightarrow> strlen m s = Some (of_nat (length xs))"
  using strlen_from_eq [of 0 "length xs" m s] cstr_nth_nonzero [of m s xs]
  by (auto simp: strlen_def cstr_def)

lemma strlen_from_zero: "strlen_from m s len = Some r \<Longrightarrow> m (s + r) = 0"
proof (rule strlen_from.raw_induct [where P = "\<lambda>m s len r. m (s + r) = 0"])
  fix f :: "mem \<Rightarrow> u32 \<Rightarrow> u32 \<Rightarrow> u32 option" and m s len r
  assume "\<And>m s len r. f m s len = Some r \<Longrightarrow> m (s + r) = 0"
    and "(if m (s + len) \<noteq> 0 then f m s (len + 1) else Some len) = Some r"
  then show "m (s + r) = 0" by (metis option.inject)
qed

lemma first_nul_exists:
  assumes "m (s + i) = (0 :: u8)"
  obtains xs where "cstr m s xs"
proof -
  let ?P = "\<lambda>k. m (s + of_nat k) = 0"
  let ?k = "LEAST k. ?P k"
  have "?P (unat i)" using assms by simp
  then have k: "?P ?k" "?k \<le> unat i" by (rule LeastI [of ?P], rule Least_le [of ?P])
  have nz: "m (s + of_nat j) \<noteq> 0" if "j < ?k" for j
    using that not_less_Least by blast
  have "?k < 2 ^ 32" using k(2) by (rule le_unat32)
  then have "cstr m s (load_bytes m s ?k)"
    using k(1) nz by (auto simp: cstr_def load_bytes_def)
  then show ?thesis by (rule that)
qed

lemma strlen_returns_iff: "(\<exists>n. strlen m s = Some n) \<longleftrightarrow> (\<exists>a. m a = 0)"
proof
  assume "\<exists>n. strlen m s = Some n"
  then show "\<exists>a. m a = 0" by (auto simp: strlen_def dest: strlen_from_zero)
next
  assume "\<exists>a. m a = 0"
  then obtain a where "m (s + (a - s)) = 0" by auto
  then obtain xs where "cstr m s xs" by (rule first_nul_exists)
  then show "\<exists>n. strlen m s = Some n" using strlen_cstr by blast
qed

lemma strlen_Some_cstr:
  assumes "strlen m s = Some n"
  obtains xs where "cstr m s xs" "n = of_nat (length xs)" "unat n = length xs"
proof -
  from assms have "m (s + n) = 0" by (simp add: strlen_def strlen_from_zero)
  then obtain xs where "cstr m s xs" by (rule first_nul_exists)
  moreover from this have "n = of_nat (length xs)" using assms strlen_cstr by fastforce
  ultimately show ?thesis using that by (simp add: cstr_def)
qed

subsection \<open>Lemmas: strncmp\<close>

lemma sint8_diff_zero: "sint (a :: u8) - sint b = 0 \<longleftrightarrow> a = b"
  by (auto intro: signed_word_eqI)

lemma strncmp_from_zero_iff:
  assumes "i \<le> unat n"
  shows "strncmp_from m s1 s2 n (of_nat i) = 0 \<longleftrightarrow>
    (\<forall>j. i \<le> j \<and> j < unat n \<and> (\<forall>k. i \<le> k \<and> k < j \<longrightarrow> m (s1 + of_nat k) \<noteq> 0) \<longrightarrow>
      m (s1 + of_nat j) = m (s2 + of_nat j))"
  using assms
proof (induction i rule: inc_induct)
  case base
  show ?case by (subst strncmp_from.simps) auto
next
  case (step i)
  let ?a = "m (s1 + of_nat i)" and ?b = "m (s2 + of_nat i)"
  have lt: "(of_nat i :: u32) < n"
    using step.hyps by (simp add: of_nat_less32)
  show ?case
  proof (cases "?a = ?b \<and> ?a \<noteq> 0")
    case True
    then have "strncmp_from m s1 s2 n (of_nat i) = strncmp_from m s1 s2 n (of_nat (Suc i))"
      using lt by (subst strncmp_from.simps) (auto simp: add.commute)
    moreover have "(i \<le> j \<and> j < unat n \<and> (\<forall>k. i \<le> k \<and> k < j \<longrightarrow> m (s1 + of_nat k) \<noteq> 0)) \<longleftrightarrow>
        (j = i \<or> Suc i \<le> j \<and> j < unat n \<and> (\<forall>k. Suc i \<le> k \<and> k < j \<longrightarrow> m (s1 + of_nat k) \<noteq> 0))"
      for j
    proof -
      have "m (s1 + of_nat k) \<noteq> 0"
        if "\<forall>k. Suc i \<le> k \<and> k < j \<longrightarrow> m (s1 + of_nat k) \<noteq> 0" "i \<le> k" "k < j" for k
        using that True by (cases "k = i") auto
      moreover have "i \<le> j \<and> j \<noteq> i \<longleftrightarrow> Suc i \<le> j" by auto
      ultimately show ?thesis using step.hyps by (cases "j = i") auto
    qed
    ultimately show ?thesis using step.IH True by auto
  next
    case False
    have "strncmp_from m s1 s2 n (of_nat i) = sint ?a - sint ?b"
      using lt False by (subst strncmp_from.simps) auto
    then have "strncmp_from m s1 s2 n (of_nat i) = 0 \<longleftrightarrow> ?a = ?b"
      by (simp only: sint8_diff_zero)
    moreover have "?a = ?b \<Longrightarrow> i \<le> j \<Longrightarrow>
        (\<forall>k. i \<le> k \<and> k < j \<longrightarrow> m (s1 + of_nat k) \<noteq> 0) \<Longrightarrow> j = i" for j
      using False by (metis le_neq_implies_less order_refl)
    ultimately show ?thesis using step.hyps by auto
  qed
qed

lemma strncmp_zero_iff:
  "strncmp m s1 s2 n = 0 \<longleftrightarrow>
    (\<forall>j < unat n. (\<forall>k < j. m (s1 + of_nat k) \<noteq> 0) \<longrightarrow> m (s1 + of_nat j) = m (s2 + of_nat j))"
  using strncmp_from_zero_iff [of 0 n m s1 s2] by (simp add: strncmp_def imp_conjL)

text \<open>Comparing as many characters as the first string has is comparing that many bytes.\<close>

lemma strncmp_prefix:
  assumes "cstr m s1 xs" "n = of_nat (length xs)"
  shows "strncmp m s1 s2 n = 0 \<longleftrightarrow> load_bytes m s2 (length xs) = xs"
proof -
  have len: "unat n = length xs" using assms by (simp add: cstr_def)
  have "strncmp m s1 s2 n = 0 \<longleftrightarrow> (\<forall>j < length xs. xs ! j = m (s2 + of_nat j))"
    unfolding strncmp_zero_iff len
  proof (intro all_cong1 imp_cong refl)
    fix j assume j: "j < length xs"
    then have "\<forall>k < j. m (s1 + of_nat k) \<noteq> 0"
      using cstr_nth_nonzero [OF assms(1)] by simp
    then show "((\<forall>k < j. m (s1 + of_nat k) \<noteq> 0) \<longrightarrow> m (s1 + of_nat j) = m (s2 + of_nat j)) \<longleftrightarrow>
        xs ! j = m (s2 + of_nat j)"
      using cstr_nth [OF assms(1) j] by simp
  qed
  then show ?thesis by (auto simp: list_eq_iff_nth_eq)
qed

lemma strncmp_cstr:
  assumes "cstr m s1 xs" "cstr m s2 ys"
  shows "strncmp m s1 s2 n = 0 \<longleftrightarrow> take (unat n) xs = take (unat n) ys"
proof
  assume z: "strncmp m s1 s2 n = 0"
  have eq: "m (s1 + of_nat j) = m (s2 + of_nat j)" if "j < unat n" "j \<le> length xs" for j
    using z that assms(1) by (auto simp: strncmp_zero_iff cstr_nth_nonzero)
  have xy: "j < length ys \<and> xs ! j = ys ! j" if "j < unat n" "j < length xs" "j \<le> length ys" for j
    using that eq [of j] cstr_nth_nonzero [OF assms(1), of j] cstr_nth [OF assms(1), of j]
      cstr_nth [OF assms(2), of j] cstr_end [OF assms(2)] by (cases "j = length ys") auto
  have "\<not> length xs < length ys" if "length xs < unat n"
    using that eq [of "length xs"] cstr_end [OF assms(1)] cstr_nth_nonzero [OF assms(2), of "length xs"] by auto
  moreover have "\<not> length ys < length xs" if "length ys < unat n"
    using that xy [of "length ys"] by auto
  ultimately have "min (length xs) (unat n) = min (length ys) (unat n)" by linarith
  then show "take (unat n) xs = take (unat n) ys"
    using xy by (intro nth_equalityI) (auto simp: min_def split: if_splits)
next
  assume t: "take (unat n) xs = take (unat n) ys"
  show "strncmp m s1 s2 n = 0"
    unfolding strncmp_zero_iff
  proof (intro allI impI)
    fix j assume j: "j < unat n" and nz: "\<forall>k<j. m (s1 + of_nat k) \<noteq> 0"
    have jle: "j \<le> length xs" using nz cstr_end [OF assms(1)] by (meson not_le)
    have lens: "min (length xs) (unat n) = min (length ys) (unat n)"
      using t by (metis length_take min.commute)
    show "m (s1 + of_nat j) = m (s2 + of_nat j)"
    proof (cases "j < length xs")
      case True
      then have "j < length ys" using lens j by linarith
      with True j t show ?thesis
        using cstr_nth [OF assms(1), of j] cstr_nth [OF assms(2), of j] by (metis nth_take)
    next
      case False
      then have "j = length xs" "length ys = length xs" using jle lens j by linarith+
      then show ?thesis using cstr_end [OF assms(1)] cstr_end [OF assms(2)] by simp
    qed
  qed
qed

subsection \<open>Lemmas: strcpy and strncpy\<close>

lemma strcpy_cstr:
  assumes "cstr m src xs"
    "disjoint_regions src (Suc (length xs)) dest (Suc (length xs))"
  shows "strcpy m dest src = Some (store_bytes m dest (xs @ [0]))"
proof -
  have len: "Suc (length xs) \<le> 2 ^ 32" using assms(1) by (simp add: cstr_def)
  have rd: "store_bytes m dest (take i xs) (src + of_nat j) = m (src + of_nat j)"
    if "j \<le> length xs" for i j
    using assms(2) that len by (intro store_bytes_read_disjoint [OF assms(2)]) auto
  have "strcpy_from (store_bytes m dest (take i xs)) dest src (of_nat i) =
      Some (store_bytes m dest (xs @ [0]))" if "i \<le> length xs" for i
    using that
  proof (induction i rule: inc_induct)
    case base
    show ?case
      by (subst strcpy_from.simps) (simp add: rd [of "length xs" "length xs", simplified] cstr_end [OF assms(1)] store_bytes_snoc)
  next
    case (step i)
    have "m (src + of_nat i) = xs ! i" "m (src + of_nat i) \<noteq> 0"
      using assms(1) step.hyps by (auto simp: cstr_nth cstr_nth_nz)
    moreover have "take (Suc i) xs = take i xs @ [xs ! i]"
      using step.hyps by (simp add: take_Suc_conv_app_nth)
    ultimately show ?case
      using step.IH step.hyps
      by (subst strcpy_from.simps) (simp add: rd store_bytes_snoc add.commute fun_upd_def)
  qed
  from this [of 0] show ?thesis by (simp add: strcpy_def)
qed

lemma strncpy_pad_eq:
  assumes "length ys \<le> unat n"
  shows "strncpy_pad (store_bytes m dest ys) dest n (of_nat (length ys)) =
    store_bytes m dest (ys @ replicate (unat n - length ys) 0)"
  using assms
proof (induction "unat n - length ys" arbitrary: ys)
  case 0
  then have "\<not> (of_nat (length ys) :: u32) < n" by (simp add: of_nat_less32)
  with 0 show ?case by (subst strncpy_pad.simps) simp
next
  case (Suc k)
  then have lt: "(of_nat (length ys) :: u32) < n" by (simp add: of_nat_less32)
  have "strncpy_pad (store_bytes m dest (ys @ [0])) dest n (of_nat (length (ys @ [0]))) =
      store_bytes m dest ((ys @ [0]) @ replicate (unat n - length (ys @ [0])) 0)"
    using Suc.hyps(2) Suc.prems by (intro Suc.hyps(1)) auto
  moreover have "unat n - length ys = Suc (unat n - Suc (length ys))" using Suc.hyps(2) by simp
  ultimately show ?case
    using lt by (subst strncpy_pad.simps) (simp add: store_bytes_snoc add.commute)
qed

lemma strncpy_copy_eq:
  assumes "cstr m src xs" "disjoint_regions src (Suc (length xs)) dest (unat n)"
    "i \<le> min (unat n) (length xs)"
  shows "strncpy_copy (store_bytes m dest (take i xs)) dest src n (of_nat i) =
    (store_bytes m dest (take (unat n) xs), of_nat (min (unat n) (length xs)))"
  using assms(3)
proof (induction i rule: inc_induct)
  case base
  have len: "Suc (length xs) \<le> 2 ^ 32" using assms(1) by (simp add: cstr_def)
  let ?k = "min (unat n) (length xs)"
  have "store_bytes m dest (take ?k xs) (src + of_nat ?k) = m (src + of_nat ?k)"
    using assms(2) len by (intro store_bytes_read_disjoint [OF assms(2)]) auto
  moreover have "?k = length xs \<or> \<not> of_nat ?k < n"
    by (auto simp: of_nat_less32 min_def)
  moreover have "take ?k xs = take (unat n) xs" by (simp add: min_def)
  ultimately show ?case
    using cstr_end [OF assms(1)] by (subst strncpy_copy.simps) auto
next
  case (step i)
  have len: "Suc (length xs) \<le> 2 ^ 32" using assms(1) by (simp add: cstr_def)
  have "store_bytes m dest (take i xs) (src + of_nat i) = m (src + of_nat i)"
    using assms(2) len step.hyps by (intro store_bytes_read_disjoint [OF assms(2)]) auto
  moreover have "m (src + of_nat i) = xs ! i" "m (src + of_nat i) \<noteq> 0"
    using assms(1) step.hyps by (auto simp: cstr_nth cstr_nth_nz)
  moreover have "take (Suc i) xs = take i xs @ [xs ! i]" "of_nat i < n"
    using step.hyps by (auto simp: take_Suc_conv_app_nth of_nat_less32)
  moreover have "length (take i xs) = i" using step.hyps by simp
  ultimately show ?case
    using step.IH by (subst strncpy_copy.simps) (simp add: store_bytes_snoc add.commute fun_upd_def)
qed

lemma strncpy_cstr:
  assumes "cstr m src xs" "disjoint_regions src (Suc (length xs)) dest (unat n)"
  shows "strncpy m dest src n =
    store_bytes m dest (take (unat n) xs @ replicate (unat n - length xs) 0)"
proof -
  have "strncpy_copy m dest src n 0 =
      (store_bytes m dest (take (unat n) xs), of_nat (length (take (unat n) xs)))"
    using strncpy_copy_eq [OF assms, of 0] by (simp add: min.commute)
  moreover have "unat n - min (length xs) (unat n) = unat n - length xs" by (simp add: min_def)
  ultimately show ?thesis
    unfolding strncpy_def Let_def
    by (simp only: prod.case) (subst strncpy_pad_eq, simp_all)
qed

subsection \<open>Lemmas: strrev\<close>

lemma of_int_int32 [simp]: "(of_int (int n) :: u32) = of_nat n"
  by simp

lemma strrev_loop_eq:
  "length (as @ mid @ cs) < 2 ^ 31 \<Longrightarrow>
   strrev_loop (store_bytes m s (as @ mid @ cs)) s (int (length as))
     (int (length as) + int (length mid) - 1) = store_bytes m s (as @ rev mid @ cs)"
proof (induction "length mid" arbitrary: as mid cs rule: less_induct)
  case less
  show ?case
  proof (cases "length mid < 2")
    case True
    then have "rev mid = mid" by (cases mid) (auto simp: less_Suc_eq)
    then show ?thesis using True by (subst strrev_loop.simps) simp
  next
    case False
    then obtain x mid' y where mid: "mid = x # mid' @ [y]"
      by (metis (no_types, lifting) append_butlast_last_id length_0_conv
          length_Cons less_2_cases_iff list.exhaust)
    let ?b = "length as" and ?e = "length as + Suc (length mid')"
    let ?l = "as @ mid @ cs"
    have l: "?l ! ?b = x" "?l ! ?e = y" "?b < length ?l" "?e < length ?l"
      "?l[?e := x] = as @ (x # mid' @ [x]) @ cs"
      by (auto simp: mid nth_append list_update_append)
    have upd: "?l[?e := x, ?b := y] = (as @ [y]) @ mid' @ (x # cs)"
      unfolding l(5) by (simp add: list_update_append)
    have len: "length ?l \<le> 2 ^ 32" using less.prems by simp
    have rd: "store_bytes m s ?l (s + of_nat k) = ?l ! k" if "k < length ?l" for k
      using that less.prems by (simp add: store_bytes_apply)
    have m2: "((store_bytes m s ?l)(s + of_nat ?e := x))(s + of_nat ?b := y) =
        store_bytes m s ((as @ [y]) @ mid' @ (x # cs))"
      unfolding upd [symmetric]
      using store_bytes_update [OF l(4) len, of m s x] store_bytes_update [of ?b "?l[?e := x]" m s y]
        l(3) len by (simp only: length_list_update)
    have "strrev_loop (store_bytes m s ?l) s (int ?b) (int ?e) =
        strrev_loop (((store_bytes m s ?l)(s + of_nat ?e := x))(s + of_nat ?b := y)) s
          (int ?b + 1) (int ?e - 1)"
      using rd [OF l(3)] rd [OF l(4)] l(1,2)
      by (subst strrev_loop.simps) (simp only: Let_def of_int_int32 of_nat_less_iff, simp)
    also have "\<dots> = strrev_loop (store_bytes m s ((as @ [y]) @ mid' @ (x # cs))) s
        (int (length (as @ [y]))) (int (length (as @ [y])) + int (length mid') - 1)"
      unfolding m2 by (simp add: add.commute)
    also have "\<dots> = store_bytes m s ((as @ [y]) @ rev mid' @ (x # cs))"
      using less.prems by (intro less.hyps) (auto simp: mid)
    finally show ?thesis by (simp add: mid algebra_simps)
  qed
qed

lemma sint_len: "0 < n \<Longrightarrow> n < 2 ^ 31 \<Longrightarrow> sint (of_nat n - 1 :: u32) = int n - 1"
proof -
  assume "0 < n" "n < 2 ^ 31"
  then obtain k where n: "n = Suc k" and k: "k < 2 ^ 31" by (cases n) auto
  have "(of_nat n - 1 :: u32) = of_nat k" by (simp add: n)
  moreover have "sint (of_nat k :: u32) = int k"
    using k by (simp add: signed_of_nat signed_take_bit_int_eq_self)
  ultimately show ?thesis by (simp add: n)
qed

lemma strrev_cstr:
  assumes "cstr m s xs" "length xs < 2 ^ 31"
  shows "strrev m s = Some (store_bytes m s (rev xs))"
proof (cases "xs = []")
  case True
  with strlen_cstr [OF assms(1)] show ?thesis
    by (simp add: strrev_def) (subst strrev_loop.simps, simp)
next
  case False
  have "m = store_bytes m s xs"
    using assms by (metis cstr_def less_imp_le store_load_same)
  then have "strrev_loop m s 0 (int (length xs) - 1) = store_bytes m s (rev xs)"
    using strrev_loop_eq [of "[]" xs "[]" m s] assms(2) by simp
  with False show ?thesis
    using strlen_cstr [OF assms(1)] assms(2) by (simp add: strrev_def sint_len)
qed

subsection \<open>Lemmas: itoa\<close>

lemma digit_char_facts:
  assumes "d < 36"
  shows "digit_value (digit_char d) = d" "digit_char d \<noteq> 0" "digit_char d = itoa_lookup ! d"
proof -
  have "\<forall>d \<in> set [0..<36]. digit_value (digit_char d) = d \<and> digit_char d \<noteq> 0"
    by code_simp
  with assms show "digit_value (digit_char d) = d" "digit_char d \<noteq> 0" by auto
qed (simp add: digit_char_def)

lemma length_itoa_lookup [simp]: "length itoa_lookup = 37"
  by (simp add: itoa_lookup_def)

lemma digits_lsb_less: "2 \<le> r \<Longrightarrow> d \<in> set (digits_lsb r n) \<Longrightarrow> d < r"
proof (induction r n rule: digits_lsb.induct)
  case (1 r n)
  then show ?case by (subst (asm) digits_lsb.simps) (auto split: if_splits)
qed

lemma length_digits_lsb: "2 \<le> r \<Longrightarrow> n < 2 ^ k \<Longrightarrow> length (digits_lsb r n) \<le> k"
proof (induction k arbitrary: n)
  case 0
  then show ?case by (simp add: digits_lsb.simps)
next
  case (Suc k)
  have "n div r \<le> n div 2" using Suc.prems(1) by (simp add: div_le_mono2)
  also have "\<dots> < 2 ^ k" using Suc.prems(2) by auto
  finally have "length (digits_lsb r (n div r)) \<le> k" using Suc by blast
  then show ?case by (subst digits_lsb.simps) simp
qed

lemma digits_lsb_value: "2 \<le> r \<Longrightarrow> foldr (\<lambda>d acc. acc * r + d) (digits_lsb r n) 0 = n"
proof (induction r n rule: digits_lsb.induct)
  case (1 r n)
  then show ?case by (subst digits_lsb.simps) auto
qed

lemma numeral_value_digits:
  assumes "2 \<le> r" "r \<le> 36"
  shows "numeral_value r (map digit_char (rev (digits_lsb r n))) = n"
proof -
  have "foldr (\<lambda>d acc. acc * r + digit_value (digit_char d)) ds 0 =
      foldr (\<lambda>d acc. acc * r + d) ds 0" if "\<forall>d \<in> set ds. d < 36" for ds :: "nat list"
    using that by (induction ds) (auto simp: digit_char_facts(1))
  moreover have "\<forall>d \<in> set (digits_lsb r n). d < 36"
    using assms digits_lsb_less by fastforce
  ultimately show ?thesis
    using digits_lsb_value [OF assms(1), of n]
    by (simp add: numeral_value_def foldl_conv_foldr rev_map foldr_map comp_def)
qed

lemma digits_lsb_last: "2 \<le> r \<Longrightarrow> 0 < n \<Longrightarrow> digits_lsb r n \<noteq> [] \<and> last (digits_lsb r n) \<noteq> 0"
proof (induction r n rule: digits_lsb.induct)
  case (1 r n)
  show ?case
  proof (cases "n div r = 0")
    case True
    then have "n < r" using 1 by (auto simp: div_eq_0_iff)
    then show ?thesis using 1(2,3) True digits_lsb.simps [of r 0]
      by (subst digits_lsb.simps [of r n]; subst digits_lsb.simps [of r n]) simp
  next
    case False
    then show ?thesis using 1
      by (subst digits_lsb.simps [of r n]; subst digits_lsb.simps [of r n]) simp
  qed
qed

lemma itoa_digits_eq:
  assumes "2 \<le> unat radix" "unat radix \<le> 36"
  shows "itoa_digits m p v radix =
    Some (store_bytes m p (map digit_char (digits_lsb (unat radix) (unat v))),
      p + of_nat (length (digits_lsb (unat radix) (unat v))))"
proof (induction "unat v" arbitrary: m p v rule: less_induct)
  case less
  show ?case
  proof (cases "v = 0")
    case True
    then show ?thesis by (subst itoa_digits.simps) (simp add: digits_lsb.simps)
  next
    case False
    let ?r = "unat radix" and ?n = "unat v"
    have n: "?n \<noteq> 0" using False by (simp add: unat_eq_zero)
    have d: "unat (v mod radix) = ?n mod ?r" "unat (v div radix) = ?n div ?r"
      by (simp_all add: unat_mod_distrib unat_div_distrib)
    have "?n mod ?r < ?r" using assms(1) by (intro mod_less_divisor) simp
    then have lt: "?n mod ?r < 36" using assms(2) by simp
    have "itoa_digits (m(p := digit_char (?n mod ?r))) (p + 1) (v div radix) radix =
      Some (store_bytes (m(p := digit_char (?n mod ?r))) (p + 1) (map digit_char (digits_lsb ?r (unat (v div radix)))),
        p + 1 + of_nat (length (digits_lsb ?r (unat (v div radix)))))"
      using n assms(1) by (intro less) (simp add: d)
    moreover have "radix \<noteq> 0" using assms(1) by auto
    ultimately show ?thesis
      using False lt n assms(1)
      by (subst itoa_digits.simps, subst (1 2) digits_lsb.simps)
        (simp add: word_gt_0 d digit_char_def add.assoc)
  qed
qed

lemma itoa_eq:
  assumes "2 \<le> unat radix" "unat radix \<le> 36" "v \<noteq> 0"
  defines "ds \<equiv> map digit_char (rev (digits_lsb (unat radix) (unat v)))"
  shows "itoa m v buf radix = Some (store_bytes m buf (ds @ [0]))"
    and "0 \<notin> set ds" and "length ds \<le> 32"
proof -
  let ?ls = "map digit_char (digits_lsb (unat radix) (unat v))"
  have lt: "\<forall>d \<in> set (digits_lsb (unat radix) (unat v)). d < 36"
    using assms(1,2) digits_lsb_less by fastforce
  then show z: "0 \<notin> set ds" using digit_char_facts(2) by (auto simp: ds_def)
  have "unat v < 2 ^ 32" by simp
  then show len: "length ds \<le> 32"
    using length_digits_lsb [OF assms(1)] by (simp add: ds_def)
  have ds: "ds = rev ?ls" by (simp add: ds_def rev_map)
  then have ls: "0 \<notin> set ?ls" "length ?ls \<le> 32" "length ?ls < 2 ^ 31" using z len by auto
  then have "cstr (store_bytes m buf (?ls @ [0])) buf ?ls" by (intro cstr_store) auto
  then have "strrev (store_bytes m buf (?ls @ [0])) buf =
      Some (store_bytes (store_bytes m buf (?ls @ [0])) buf ds)"
    unfolding ds using ls(3) by (rule strrev_cstr)
  moreover have "store_bytes (store_bytes m buf (?ls @ [0])) buf ds = store_bytes m buf (ds @ [0])"
    using ls(2) len by (intro ext) (auto simp: store_bytes_apply ds nth_append)
  ultimately show "itoa m v buf radix = Some (store_bytes m buf (ds @ [0]))"
    using assms(3) by (simp add: itoa_def itoa_digits_eq [OF assms(1,2)] store_bytes_snoc)
qed

lemma itoa_numeral:
  assumes "2 \<le> unat radix" "unat radix \<le> 36" "v \<noteq> 0"
  defines "ds \<equiv> map digit_char (rev (digits_lsb (unat radix) (unat v)))"
  shows "0 < length ds" "\<forall>c \<in> set ds. digit_value c < unat radix" "hd ds \<noteq> 48"
proof -
  have v: "0 < unat v" using assms(3) by (simp add: unat_gt_0)
  have last: "digits_lsb (unat radix) (unat v) \<noteq> []" "last (digits_lsb (unat radix) (unat v)) \<noteq> 0"
    using digits_lsb_last [OF assms(1) v] by auto
  have lt: "d < unat radix" "d < 36" if "d \<in> set (digits_lsb (unat radix) (unat v))" for d
    using digits_lsb_less [OF assms(1) that] assms(2) by auto
  show "0 < length ds" "\<forall>c \<in> set ds. digit_value c < unat radix"
    using last lt by (auto simp: ds_def digit_char_facts(1))
  have "digit_value (hd ds) = last (digits_lsb (unat radix) (unat v))"
    using last lt(2) [OF last_in_set] by (simp add: ds_def hd_map hd_rev digit_char_facts(1))
  then show "hd ds \<noteq> 48" using last by (auto simp: digit_value_def)
qed

subsection \<open>Properties\<close>

text \<open>\<open>strlen\<close> returns a number exactly when a NUL byte exists for it to find, and the
  number is the length of the NUL-terminated string at the pointer.\<close>

theorem strlen_spec:
  "(strlen m s = Some n \<longleftrightarrow> (\<exists>xs. cstr m s xs \<and> n = of_nat (length xs))) \<and>
   ((\<exists>k. strlen m s = Some k) \<longleftrightarrow> (\<exists>a. m a = 0))"
proof (intro conjI iffI)
  assume "strlen m s = Some n"
  then show "\<exists>xs. cstr m s xs \<and> n = of_nat (length xs)" by (blast elim: strlen_Some_cstr)
next
  assume "\<exists>xs. cstr m s xs \<and> n = of_nat (length xs)"
  then show "strlen m s = Some n" using strlen_cstr by blast
qed (use strlen_returns_iff in auto)

text \<open>On NUL-terminated strings \<open>strncmp\<close> returns 0 exactly when the two strings agree on
  their first \<open>n\<close> characters.\<close>

theorem strncmp_correct:
  assumes "cstr m s1 xs" and "cstr m s2 ys"
  shows "strncmp m s1 s2 n = 0 \<longleftrightarrow> take (unat n) xs = take (unat n) ys"
  using assms by (rule strncmp_cstr)

definition two_names :: mem where
  "two_names = store_bytes (store_bytes (\<lambda>_. 0) 16 [108, 115]) 32 [108, 111]"

theorem strncmp_correct_witness:
  "(strncmp two_names 16 32 1 = 0 \<longleftrightarrow> take 1 [108, 115 :: u8] = take 1 [108, 111]) \<and>
   strncmp two_names 16 32 2 \<noteq> 0"
proof -
  have "cstr two_names 16 [108, 115]" "cstr two_names 32 [108, 111]"
    by (simp_all add: cstr_def two_names_def load_bytes_def)
  from strncmp_correct [OF this, of 1] strncmp_correct [OF this, of 2] show ?thesis by simp
qed

text \<open>C39: for every radix from 2 to 36, \<open>itoa\<close> returns, having written at \<open>buf\<close> (and nowhere
  else) a NUL-terminated numeral of at most 32 characters: its characters are digits of
  that radix, it has no leading zero, and reading it back in that radix gives the value.\<close>

theorem itoa_roundtrip:
  assumes "2 \<le> unat radix" and "unat radix \<le> 36"
  shows "\<exists>ds. itoa m v buf radix = Some (store_bytes m buf (ds @ [0])) \<and>
    cstr (store_bytes m buf (ds @ [0])) buf ds \<and> numeral_value (unat radix) ds = unat v \<and>
    0 < length ds \<and> length ds \<le> 32 \<and> (\<forall>c \<in> set ds. digit_value c < unat radix) \<and>
    (v \<noteq> 0 \<longrightarrow> hd ds \<noteq> 48)"
proof (cases "v = 0")
  case True
  have "itoa m v buf radix = Some (store_bytes m buf ([48] @ [0]))"
    by (simp add: itoa_def True)
  moreover have "cstr (store_bytes m buf ([48] @ [0])) buf [48]" by (rule cstr_store) simp_all
  moreover have "numeral_value (unat radix) [48] = 0" "digit_value 48 = 0"
    by (simp_all add: numeral_value_def digit_value_def)
  ultimately show ?thesis using True assms(1) by (intro exI [of _ "[48]"]) simp
next
  case False
  let ?ds = "map digit_char (rev (digits_lsb (unat radix) (unat v)))"
  note eq = itoa_eq [OF assms False]
  have "cstr (store_bytes m buf (?ds @ [0])) buf ?ds"
    using eq(2,3) by (intro cstr_store) auto
  then show ?thesis
    using eq itoa_numeral [OF assms False] numeral_value_digits [OF assms] by blast
qed

theorem itoa_roundtrip_witness:
  "(\<exists>ds. itoa (\<lambda>_. 0) 391 64 10 = Some (store_bytes (\<lambda>_. 0) 64 (ds @ [0])) \<and>
    numeral_value 10 ds = 391) \<and>
   itoa (\<lambda>_. 0) 391 64 10 = Some (store_bytes (\<lambda>_. 0) 64 [51, 57, 49, 0])"
proof -
  have "digits_lsb 10 391 = [1, 9, 3]" by (simp add: digits_lsb.simps)
  then have "itoa (\<lambda>_. 0) 391 64 10 = Some (store_bytes (\<lambda>_. 0) 64 [51, 57, 49, 0])"
    using itoa_eq(1) [of 10 391 "\<lambda>_. 0" 64] by (simp add: digit_char_def itoa_lookup_def)
  moreover have "2 \<le> unat (10 :: u32)" "unat (10 :: u32) \<le> 36" by simp_all
  from itoa_roundtrip [OF this, of "\<lambda>_. 0" 391 64]
  have "\<exists>ds. itoa (\<lambda>_. 0) 391 64 10 = Some (store_bytes (\<lambda>_. 0) 64 (ds @ [0])) \<and>
    numeral_value 10 ds = 391" by auto
  ultimately show ?thesis by blast
qed

end
