(* ===== verification/File_System.thy ===== *)
theory File_System
  imports Lib_Memory Lib_String "HOL-Library.Monad_Syntax"
begin

text \<open>
  The read-only file system, \<^verbatim>\<open>src/student-distrib/file_system_driver.c\<close>, over the byte memory
  that holds the boot module.  Structures are at the offsets the i386 compiler gives them:
  a directory entry takes 44 bytes (name at 0, type at 32, inode number at 36), a boot
  block starts with its three counts, and an inode is its length followed by the numbers
  of its data blocks.  The driver's statics are a record; \<open>dentries\<close> is the address of the
  static array of that name, chosen by the linker.  The local array of \<open>read_data\<close> is a list.
\<close>

subsection \<open>Statics and initialisation\<close>

record fs_state =
  fs_name :: u32
  fs_addr :: u32
  dentry_addr :: u32
  inode_addr :: u32
  data_addr :: u32
  num_inode :: u32
  dentries :: u32

abbreviation (input) BLOCK_SIZE :: u32 where "BLOCK_SIZE \<equiv> 4096"

definition num_dentry :: "mem \<Rightarrow> u32 \<Rightarrow> u32" where
  "num_dentry m boot = load32 m boot"

partial_function (option) copy_dentries :: "u32 \<Rightarrow> u32 \<Rightarrow> u32 \<Rightarrow> mem \<Rightarrow> mem option" where
  "copy_dentries dest fs i m =
    (if i < num_dentry m fs
     then copy_dentries dest fs (i + 1) (store_bytes m (dest + 44 * i) (load_bytes m (fs + 64 + i * 64) 44))
     else Some m)"

text \<open>The message printed for a null module is left out; the return value is kept.\<close>

definition fs_init :: "u32 \<Rightarrow> mem \<Rightarrow> fs_state \<Rightarrow> (u32 \<times> mem \<times> fs_state) option" where
  "fs_init fs m st = do {
     m \<leftarrow> copy_dentries (dentries st) fs 0 m;
     let n = load32 m (fs + 4);
     let st = st\<lparr>fs_name := fs, fs_addr := fs, num_inode := n, inode_addr := fs + BLOCK_SIZE,
       data_addr := fs + BLOCK_SIZE + BLOCK_SIZE * n\<rparr>;
     Some (if fs = 0 then -1 else 0, m, st)
   }"

subsection \<open>Directory entries\<close>

text \<open>The search loop, with \<open>k\<close> entries left from entry \<open>i\<close> on.\<close>

primrec find_dentry :: "nat \<Rightarrow> u32 \<Rightarrow> u32 \<Rightarrow> u32 \<Rightarrow> u32 \<Rightarrow> mem \<Rightarrow> fs_state \<Rightarrow> (int \<times> mem \<times> fs_state) option" where
  "find_dentry 0 i fname n dentry m st = Some (-1, m, st)"
| "find_dentry (Suc k) i fname n dentry m st = do {
     let st = st\<lparr>dentry_addr := dentries st + 44 * i\<rparr>;
     let fname_orig = dentry_addr st;
     orig_length \<leftarrow> strlen m fname_orig;
     if n = 0 then Some (-1, m, st)
     else if orig_length \<le> 32 \<and> n \<noteq> orig_length then find_dentry k (i + 1) fname n dentry m st
     else if strncmp m fname fname_orig n = 0 then
       (if n < 32 \<and> orig_length > 32 then Some (-1, m, st)
        else
          let m = fold (\<lambda>j m. m(fname_orig + of_nat j := m (fname + of_nat j))) [0..<unat n] m;
              m = store32 m (dentry + 36) (load32 m (dentry_addr st + 36));
              m = store32 m (dentry + 32) (load32 m (dentry_addr st + 32))
          in Some (0, m, st))
     else find_dentry k (i + 1) fname n dentry m st
   }"

definition read_dentry_by_name :: "u32 \<Rightarrow> u32 \<Rightarrow> mem \<Rightarrow> fs_state \<Rightarrow> (int \<times> mem \<times> fs_state) option" where
  "read_dentry_by_name fname dentry m st = do {
     n \<leftarrow> strlen m fname;
     find_dentry (unat (num_dentry m (fs_addr st))) 0 fname n dentry m st
   }"

definition read_dentry_by_index :: "u32 \<Rightarrow> u32 \<Rightarrow> mem \<Rightarrow> fs_state \<Rightarrow> (int \<times> mem \<times> fs_state) option" where
  "read_dentry_by_index index dentry m st =
    (if index < num_dentry m (fs_addr st) then do {
       let st = st\<lparr>dentry_addr := dentries st + 44 * index\<rparr>;
       let src = dentry_addr st;
       n \<leftarrow> strlen m src;
       let m = fold (\<lambda>j m. m(dentry + of_nat j := m (src + of_nat j))) [0..<unat n] m;
       let m = m(dentry + n := 0);
       let m = store32 m (dentry + 32) (load32 m (src + 32));
       let m = store32 m (dentry + 36) (load32 m (src + 36));
       Some (0, m, st)
     } else Some (-1, m, st))"

subsection \<open>File contents\<close>

text \<open>The first loop of \<open>read_data\<close> stores every block number where it was read from.\<close>

definition refresh_inode :: "u32 \<Rightarrow> nat \<Rightarrow> mem \<Rightarrow> mem" where
  "refresh_inode ia n m =
    fold (\<lambda>j m. store32 m (ia + 4 + 4 * of_nat j) (load32 m (ia + (of_nat j + 1) * 4))) [0..<n] m"

definition block_number :: "mem \<Rightarrow> u32 \<Rightarrow> u32 \<Rightarrow> u32" where
  "block_number m ia idx = load32 m (ia + 4 + 4 * idx)"

definition block_base :: "fs_state \<Rightarrow> u32 \<Rightarrow> u32" where
  "block_base st data_idx = (fs_name st + BLOCK_SIZE + BLOCK_SIZE * num_inode st) + data_idx * BLOCK_SIZE"

text \<open>The second loop, with \<open>n\<close> bytes left; the bytes it puts into the local array, or \<open>None\<close> for its
  return of -1.\<close>

primrec fill_buffer :: "nat \<Rightarrow> mem \<Rightarrow> fs_state \<Rightarrow> u32 \<Rightarrow> u32 \<Rightarrow> u32 \<Rightarrow> u32 \<Rightarrow> u32 \<Rightarrow> u32 \<Rightarrow> u8 list option" where
  "fill_buffer 0 m st ia data_number start_idx count k data_offset = Some []"
| "fill_buffer (Suc n) m st ia data_number start_idx count k data_offset =
    (let hold = m (data_offset + k); k = k + 1; count = count + 1 in
     if count = BLOCK_SIZE then
       let start_idx = start_idx + 1;
           data_idx = block_number m ia start_idx;
           data_offset = block_base st data_idx
       in if data_offset = 0 \<or> data_idx \<ge> data_number then None
          else map_option (Cons hold) (fill_buffer n m st ia data_number start_idx 0 0 data_offset)
     else map_option (Cons hold) (fill_buffer n m st ia data_number start_idx count k data_offset))"

definition read_data :: "u32 \<Rightarrow> u32 \<Rightarrow> u32 \<Rightarrow> u32 \<Rightarrow> mem \<Rightarrow> fs_state \<Rightarrow> int \<times> mem" where
  "read_data inode offset buf len m st =
    (let data_number = load32 m (fs_name st + 8);
         ia = inode_addr st + inode * BLOCK_SIZE;
         m = refresh_inode ia (unat data_number) m;
         size = load32 m ia;
         start_idx = offset div BLOCK_SIZE;
         init_offset = offset mod BLOCK_SIZE;
         data_idx = block_number m ia start_idx;
         data_offset = block_base st data_idx + init_offset
     in if inode \<ge> load32 m (fs_addr st + 4) then (-1, m)
        else if data_offset \<noteq> 0 \<and> data_idx < data_number then
          (case fill_buffer (unat size) m st ia data_number start_idx init_offset 0 data_offset of
             None \<Rightarrow> (-1, m)
           | Some true_buffer \<Rightarrow>
               if size < len then (sint size, store_bytes m buf (take (unat size) true_buffer))
               else (sint len, store_bytes m buf (take (unat len) true_buffer)))
        else (-1, m))"

definition return_size :: "mem \<Rightarrow> fs_state \<Rightarrow> u32" where
  "return_size m st = num_dentry m (fs_addr st)"

definition get_length :: "u32 \<Rightarrow> mem \<Rightarrow> fs_state \<Rightarrow> u32" where
  "get_length inode_num m st = load32 m (inode_addr st + inode_num * BLOCK_SIZE)"

definition min_int :: "int \<Rightarrow> int \<Rightarrow> int" where
  "min_int val1 val2 = (if val1 \<le> val2 then val1 else val2)"

subsection \<open>What a file holds\<close>

text \<open>The byte at position \<open>p\<close> of the file whose inode is at \<open>ia\<close>, and whether the inode's entry
  number \<open>q\<close> is a block of the file system.\<close>

definition file_byte :: "mem \<Rightarrow> fs_state \<Rightarrow> u32 \<Rightarrow> nat \<Rightarrow> u8" where
  "file_byte m st ia p = m (block_base st (block_number m ia (of_nat (p div 4096))) + of_nat (p mod 4096))"

definition block_ok :: "mem \<Rightarrow> fs_state \<Rightarrow> u32 \<Rightarrow> u32 \<Rightarrow> nat \<Rightarrow> bool" where
  "block_ok m st ia data_number q \<longleftrightarrow>
    block_base st (block_number m ia (of_nat q)) \<noteq> 0 \<and> block_number m ia (of_nat q) < data_number"

definition blocks_ok :: "mem \<Rightarrow> fs_state \<Rightarrow> u32 \<Rightarrow> u32 \<Rightarrow> nat \<Rightarrow> nat \<Rightarrow> bool" where
  "blocks_ok m st ia data_number p n \<longleftrightarrow>
    (\<forall>q \<in> {p div 4096<..(p + n) div 4096}. block_ok m st ia data_number q)"

lemma refresh_inode_id [simp]: "refresh_inode ia n m = m"
proof -
  have "store32 m (ia + 4 + 4 * of_nat j) (load32 m (ia + (of_nat j + 1) * 4)) = m" for j m
  proof -
    have "ia + (of_nat j + 1) * 4 = ia + 4 + 4 * of_nat j" by (simp add: algebra_simps)
    then show ?thesis by (simp only: store32_load32_same)
  qed
  then show ?thesis by (induction n) (simp_all add: refresh_inode_def)
qed

lemma fill_buffer_eq:
  assumes "c < 4096" "data_offset + k = block_base st (block_number m ia (of_nat q)) + of_nat c"
  shows "fill_buffer n m st ia dn (of_nat q) (of_nat c) k data_offset =
    (if \<forall>r. q < r \<and> 4096 * r \<le> 4096 * q + c + n \<longrightarrow> block_ok m st ia dn r
     then Some (map (\<lambda>i. file_byte m st ia (4096 * q + c + i)) [0..<n]) else None)"
  using assms
proof (induction n arbitrary: q c k data_offset)
  case (Suc n)
  have hold: "m (data_offset + k) = file_byte m st ia (4096 * q + c + 0)"
    using Suc.prems by (simp add: file_byte_def)
  have shift: "map (\<lambda>i. file_byte m st ia (4096 * q + c + i)) [0..<Suc n] =
      m (data_offset + k) # map (\<lambda>i. file_byte m st ia (4096 * q + c + 1 + i)) [0..<n]"
    unfolding hold by (simp add: upt_conv_Cons map_Suc_upt [symmetric] del: upt_Suc)
  have wrap: "(of_nat c + 1 :: u32) = 4096 \<longleftrightarrow> c + 1 = 4096"
    using Suc.prems(1) of_nat32_inj [of "c + 1" 4096] by simp
  show ?case
  proof (cases "c + 1 = 4096")
    case True
    have blocks: "(\<forall>r. q < r \<and> 4096 * r \<le> 4096 * q + c + Suc n \<longrightarrow> block_ok m st ia dn r) \<longleftrightarrow>
      block_ok m st ia dn (q + 1) \<and> (\<forall>r. q + 1 < r \<and> 4096 * r \<le> 4096 * (q + 1) + 0 + n \<longrightarrow> block_ok m st ia dn r)"
    proof (intro iffI conjI allI impI)
      fix r
      assume h: "block_ok m st ia dn (q + 1) \<and> (\<forall>r. q + 1 < r \<and> 4096 * r \<le> 4096 * (q + 1) + 0 + n \<longrightarrow> block_ok m st ia dn r)"
        and r: "q < r \<and> 4096 * r \<le> 4096 * q + c + Suc n"
      show "block_ok m st ia dn r"
        using h r True by (cases "r = q + 1") (auto dest: spec [of _ r])
    qed (use True in auto)
    have IH: "fill_buffer n m st ia dn (of_nat (q + 1)) (of_nat 0) 0 (block_base st (block_number m ia (of_nat (q + 1)))) =
      (if \<forall>r. q + 1 < r \<and> 4096 * r \<le> 4096 * (q + 1) + 0 + n \<longrightarrow> block_ok m st ia dn r
       then Some (map (\<lambda>i. file_byte m st ia (4096 * (q + 1) + 0 + i)) [0..<n]) else None)"
      by (rule Suc.IH) simp_all
    have pos: "4096 * (q + 1) + 0 = 4096 * q + c + 1" using True by simp
    have "of_nat c + 1 = (4096 :: u32)" using wrap True by blast
    then have "fill_buffer (Suc n) m st ia dn (of_nat q) (of_nat c) k data_offset =
      (if block_ok m st ia dn (q + 1) then map_option (Cons (m (data_offset + k)))
        (fill_buffer n m st ia dn (of_nat (q + 1)) (of_nat 0) 0 (block_base st (block_number m ia (of_nat (q + 1))))) else None)"
      by (simp add: Let_def block_ok_def add.commute linorder_not_le [symmetric])
    then show ?thesis unfolding blocks shift IH pos by simp
  next
    case False
    have lt: "c + 1 < 4096" using Suc.prems(1) False by simp
    have "data_offset + (k + 1) = block_base st (block_number m ia (of_nat q)) + of_nat (c + 1)"
      using Suc.prems(2) by (simp add: add.assoc [symmetric])
    note IH = Suc.IH [OF lt this]
    have "of_nat c + 1 \<noteq> (4096 :: u32)" using wrap False by blast
    then have "fill_buffer (Suc n) m st ia dn (of_nat q) (of_nat c) k data_offset =
        map_option (Cons (m (data_offset + k))) (fill_buffer n m st ia dn (of_nat q) (of_nat (c + 1)) (k + 1) data_offset)"
      by (simp add: Let_def add.commute)
    then show ?thesis unfolding shift IH by simp
  qed
qed simp

lemma take_map_upt: "take k (map f [0..<n]) = map f [0..<min k n]"
proof (cases "k \<le> n")
  case True
  then show ?thesis using take_upt [of 0 k n] by (simp add: take_map min_absorb1)
qed (simp add: min_absorb2)

text \<open>A file can be read from an offset on when its inode exists and the blocks it goes through do.\<close>

definition file_readable :: "mem \<Rightarrow> fs_state \<Rightarrow> u32 \<Rightarrow> u32 \<Rightarrow> bool" where
  "file_readable m st inode offset \<longleftrightarrow>
    (let dn = load32 m (fs_name st + 8);
         ia = inode_addr st + inode * 4096;
         first = block_number m ia (offset div 4096)
     in inode < load32 m (fs_addr st + 4) \<and> first < dn \<and> block_base st first + offset mod 4096 \<noteq> 0 \<and>
       blocks_ok m st ia dn (unat offset) (unat (load32 m ia)))"

definition file_bytes :: "mem \<Rightarrow> fs_state \<Rightarrow> u32 \<Rightarrow> u32 \<Rightarrow> nat \<Rightarrow> u8 list" where
  "file_bytes m st inode offset n =
    map (\<lambda>i. file_byte m st (inode_addr st + inode * 4096) (unat offset + i)) [0..<n]"

text \<open>The outcome of \<open>read_data\<close> in every case.\<close>

lemma read_data_eq:
  fixes inode offset :: u32
  assumes "dn = load32 m (fs_name st + 8)" "ia = inode_addr st + inode * BLOCK_SIZE" "sz = load32 m ia"
    "p = unat offset"
  shows "read_data inode offset buf len m st =
    (if inode \<ge> load32 m (fs_addr st + 4) then (-1, m)
     else if block_base st (block_number m ia (of_nat (p div 4096))) + of_nat (p mod 4096) \<noteq> 0 \<and>
        block_number m ia (of_nat (p div 4096)) < dn \<and>
        (\<forall>r. p div 4096 < r \<and> 4096 * r \<le> p + unat sz \<longrightarrow> block_ok m st ia dn r)
     then (sint (min sz len), store_bytes m buf (map (\<lambda>i. file_byte m st ia (p + i)) [0..<unat (min sz len)]))
     else (-1, m))"
proof -
  have "unat (offset div BLOCK_SIZE) = p div 4096" "unat (offset mod BLOCK_SIZE) = p mod 4096"
    by (simp_all add: assms(4) unat_div_distrib unat_mod_distrib)
  then have div_eq: "offset div BLOCK_SIZE = of_nat (p div 4096)" "offset mod BLOCK_SIZE = of_nat (p mod 4096)"
    by (metis of_nat_unat32)+
  have p: "4096 * (p div 4096) + p mod 4096 = p" by simp
  note fill = fill_buffer_eq [of "p mod 4096" _ 0 st m ia "p div 4096" "unat sz" dn, unfolded p]
  have ends: "min sz len = (if sz < len then sz else len)"
    unfolding min_def by (metis less_le)
  have cut: "map f (take (unat len) [0..<unat sz]) = map f [0..<unat len]" if "\<not> sz < len" for f :: "nat \<Rightarrow> u8"
    using that take_map_upt [of "unat len" f "unat sz"] by (simp add: word_less_nat_alt not_less take_map min_absorb1)
  show ?thesis
    using fill [of "block_base st (block_number m ia (of_nat (p div 4096))) + of_nat (p mod 4096)"]
    unfolding read_data_def Let_def refresh_inode_id assms(1) [symmetric] assms(2) [symmetric] assms(3) [symmetric] div_eq
    by (cases "sz < len") (auto simp: ends take_map cut)
qed

lemma read_data_outcome:
  fixes inode offset buf len :: u32
  shows "read_data inode offset buf len m st =
    (let n = min (get_length inode m st) len
     in if file_readable m st inode offset then (sint n, store_bytes m buf (file_bytes m st inode offset (unat n)))
        else (-1, m))"
proof -
  have "unat (offset div 4096) = unat offset div 4096" "unat (offset mod 4096) = unat offset mod 4096"
    by (simp_all add: unat_div_distrib unat_mod_distrib)
  then have div_eq: "of_nat (unat offset div 4096) = offset div 4096" "of_nat (unat offset mod 4096) = offset mod 4096"
    by (metis of_nat_unat32)+
  have blocks: "blocks_ok m st ia dn p n \<longleftrightarrow> (\<forall>r. p div 4096 < r \<and> 4096 * r \<le> p + n \<longrightarrow> block_ok m st ia dn r)" for ia dn p n
    by (simp add: blocks_ok_def Ball_def less_eq_div_iff_mult_less_eq mult.commute)
  show ?thesis unfolding Let_def file_readable_def file_bytes_def get_length_def read_data_eq [OF refl refl refl refl] div_eq blocks [symmetric]
    by (cases "inode < load32 m (fs_addr st + 4)") (simp_all add: not_le [symmetric] conj_commute conj_left_commute)
qed

subsection \<open>Names\<close>

text \<open>The name in a directory entry: up to 32 characters, with a NUL behind it when shorter.  Behind
  a name of 32 characters comes the file type, whose second byte is zero; \<open>strlen\<close> of such a name
  runs into it.\<close>

definition entry_name :: "mem \<Rightarrow> u32 \<Rightarrow> u8 list" where
  "entry_name m a = takeWhile (\<lambda>c. c \<noteq> 0) (load_bytes m a 32)"

definition dentry_ok :: "mem \<Rightarrow> u32 \<Rightarrow> bool" where
  "dentry_ok m a \<longleftrightarrow> length (entry_name m a) < 32 \<or> m (a + 33) = 0"

definition long_entry :: "mem \<Rightarrow> u32 \<Rightarrow> bool" where
  "long_entry m a \<longleftrightarrow> length (entry_name m a) = 32 \<and> m (a + 32) \<noteq> 0"

lemma entry_name_length: "length (entry_name m a) \<le> 32"
  unfolding entry_name_def by (metis length_load_bytes length_takeWhile_le)

lemma entry_name_nonzero: "0 \<notin> set (entry_name m a)"
  unfolding entry_name_def using set_takeWhileD by fastforce

lemma entry_name_nth: "i < length (entry_name m a) \<Longrightarrow> entry_name m a ! i = m (a + of_nat i)"
  using entry_name_length [of m a] unfolding entry_name_def by (simp add: takeWhile_nth)

lemma load_entry_name: "n \<le> length (entry_name m a) \<Longrightarrow> load_bytes m a n = take n (entry_name m a)"
  by (intro nth_equalityI) (simp_all add: entry_name_nth)

lemma entry_name_end:
  assumes "length (entry_name m a) < 32"
  shows "m (a + of_nat (length (entry_name m a))) = 0"
proof -
  have "load_bytes m a 32 ! length (entry_name m a) = 0"
    using nth_length_takeWhile [of "\<lambda>c. c \<noteq> 0" "load_bytes m a 32"] assms by (simp add: entry_name_def)
  then show ?thesis using assms by simp
qed

lemma entry_cstr: "length (entry_name m a) < 32 \<Longrightarrow> cstr m a (entry_name m a)"
  using entry_name_end entry_name_nonzero load_entry_name [of "length (entry_name m a)" m a] by (simp add: cstr_def)

lemma strlen_entry:
  assumes "dentry_ok m a"
  shows "strlen m a = Some (if long_entry m a then 33 else of_nat (length (entry_name m a)))"
proof (cases "length (entry_name m a) < 32")
  case True
  then have "cstr m a (entry_name m a)" by (rule entry_cstr)
  then show ?thesis using True by (simp add: strlen_cstr long_entry_def)
next
  case False
  then have len: "length (entry_name m a) = 32" "m (a + 33) = 0"
    using entry_name_length [of m a] assms by (simp_all add: dentry_ok_def)
  note name = load_entry_name [of 32 m a] entry_name_nonzero [of m a]
  show ?thesis
  proof (cases "m (a + 32) = 0")
    case True
    then have "cstr m a (entry_name m a)" using len name by (simp add: cstr_def)
    then show ?thesis using True by (simp add: strlen_cstr long_entry_def)
  next
    case False
    have "load_bytes m a 33 = entry_name m a @ [m (a + 32)]"
      using len name(1) load_bytes_add [of m a 32 1] by (simp add: load_bytes_def)
    then have "cstr m a (entry_name m a @ [m (a + 32)])" using False len name(2) by (simp add: cstr_def)
    from strlen_cstr [OF this] show ?thesis using False len by (simp add: long_entry_def)
  qed
qed

lemma prefix_entry_name:
  assumes "0 \<notin> set xs" "length xs \<le> 32"
  shows "load_bytes m a (length xs) = xs \<longleftrightarrow> take (length xs) (entry_name m a) = xs"
proof
  assume eq: "load_bytes m a (length xs) = xs"
  have "length xs \<le> length (entry_name m a)"
  proof (rule ccontr)
    assume "\<not> length xs \<le> length (entry_name m a)"
    then have lt: "length (entry_name m a) < length xs" by simp
    then have "xs ! length (entry_name m a) = 0"
      using eq entry_name_end [of m a] assms(2) nth_load_bytes [OF lt, of m a] by simp
    then show False using lt assms(1) nth_mem by metis
  qed
  then show "take (length xs) (entry_name m a) = xs" using eq load_entry_name by simp
next
  assume eq: "take (length xs) (entry_name m a) = xs"
  then have "length xs \<le> length (entry_name m a)" by (metis length_take min.cobounded1)
  then show "load_bytes m a (length xs) = xs" using eq load_entry_name by simp
qed

subsection \<open>Searching by name\<close>

definition entry_at :: "fs_state \<Rightarrow> nat \<Rightarrow> u32" where
  "entry_at st i = dentries st + 44 * of_nat i"

text \<open>The type and the inode number are the eight bytes behind the name.\<close>

definition fill_dentry :: "u32 \<Rightarrow> u32 \<Rightarrow> mem \<Rightarrow> mem" where
  "fill_dentry dentry a m = store_bytes m (dentry + 32) (load_bytes m (a + 32) 8)"

lemma fold_same: "\<forall>j \<in> set js. f j m = m \<Longrightarrow> fold f js m = m"
  by (induction js) simp_all

lemma copy_same_bytes:
  fixes m :: mem
  shows "\<forall>j < n. m (a + of_nat j) = m (b + of_nat j) \<Longrightarrow>
   fold (\<lambda>j m. m(a + of_nat j := m (b + of_nat j))) [0..<n] m = m"
  by (rule fold_same) (auto simp: fun_upd_idem_iff)

lemma load_bytes_8: "load_bytes m a 8 = bytes_of32 (load32 m a) @ bytes_of32 (load32 m (a + 4))"
  using load_bytes_add [of m a 4 4] by (simp add: bytes_of32_load32)

lemma fill_dentry_stores:
  assumes "disjoint_regions (dentry + 32) 8 (a + 32) 8"
  shows "(let m1 = store32 m (dentry + 36) (load32 m (a + 36)) in store32 m1 (dentry + 32) (load32 m1 (a + 32))) =
    fill_dentry dentry a m"
proof -
  let ?m1 = "store32 m (dentry + 36) (load32 m (a + 36))"
  have "disjoint_regions (a + 32 + of_nat 0) 4 (dentry + 32 + of_nat 4) 4"
    using assms by (intro disjoint_regions_offset [of _ 8 _ 8]) (simp_all add: disjoint_regions_sym)
  then have "load32 ?m1 (a + 32) = load32 m (a + 32)"
    by (simp add: store32_store_bytes load32_store_disjoint add.assoc)
  moreover have two: "store32 (store32 m (d + 4) v) d w = store_bytes m d (bytes_of32 w @ bytes_of32 v)" for d v w
  proof
    fix x :: u32
    have "x \<noteq> d + of_nat k" if "unat (x - d) \<noteq> k" "k < 8" for k
      using that by auto
    then show "store32 (store32 m (d + 4) v) d w x = store_bytes m d (bytes_of32 w @ bytes_of32 v) x"
      by (simp add: store32_def bytes_of32_def add.assoc)
  qed
  moreover have "a + 32 + 4 = a + 36" "dentry + 32 + 4 = dentry + 36" by simp_all
  ultimately show ?thesis
    unfolding Let_def fill_dentry_def load_bytes_8 by metis
qed

text \<open>A name that is no match is passed over, unless it is a proper prefix of a long one.\<close>

definition hides :: "mem \<Rightarrow> u32 \<Rightarrow> u8 list \<Rightarrow> bool" where
  "hides m a xs \<longleftrightarrow> long_entry m a \<and> length xs < 32 \<and> take (length xs) (entry_name m a) = xs"

lemma find_dentry_skip:
  assumes "cstr m fname xs" "xs \<noteq> []" "length xs \<le> 32" "dentry_ok m (entry_at st i)"
    "entry_name m (entry_at st i) \<noteq> xs" "\<not> hides m (entry_at st i) xs"
  shows "find_dentry (Suc k) (of_nat i) fname (of_nat (length xs)) dentry m st =
    find_dentry k (of_nat (i + 1)) fname (of_nat (length xs)) dentry m (st\<lparr>dentry_addr := entry_at st i\<rparr>)"
proof -
  let ?a = "entry_at st i" and ?n = "of_nat (length xs) :: u32"
  let ?nm = "entry_name m ?a" and ?o = "if long_entry m ?a then 33 else of_nat (length (entry_name m ?a)) :: u32"
  have len: "strlen m ?a = Some ?o" by (rule strlen_entry [OF assms(4)])
  have n0: "?n \<noteq> 0" using assms(2,3) of_nat32_inj [of "length xs" 0] by simp
  have cmp: "strncmp m fname ?a ?n = 0 \<longleftrightarrow> take (length xs) ?nm = xs"
    using strncmp_prefix [OF assms(1) refl, of ?a] prefix_entry_name [of xs m ?a] assms(1,3) by (simp add: cstr_def)
  have o: "?o \<le> 32 \<and> ?n \<noteq> ?o \<or> strncmp m fname ?a ?n \<noteq> 0"
  proof (cases "long_entry m ?a")
    case True
    then have "length ?nm = 32" by (simp add: long_entry_def)
    moreover have "\<not> (length xs < 32 \<and> take (length xs) ?nm = xs)" using assms(6) True by (simp add: hides_def)
    ultimately have "take (length xs) ?nm \<noteq> xs" using assms(3,5) by (cases "length xs = 32") auto
    then show ?thesis using cmp by simp
  next
    case False
    have le: "length ?nm \<le> 32" by (rule entry_name_length)
    then have "(of_nat (length ?nm) :: u32) \<le> 32" by (simp add: word_le_nat_alt)
    moreover have "?n = of_nat (length ?nm) \<longleftrightarrow> length xs = length ?nm"
      using assms(3) le by (intro of_nat32_inj) simp_all
    moreover have "take (length xs) ?nm \<noteq> xs" if "length xs = length ?nm" using that assms(5) by simp
    ultimately show ?thesis using False cmp by auto
  qed
  have "find_dentry (Suc k) (of_nat i) fname ?n dentry m st = find_dentry k (of_nat i + 1) fname ?n dentry m (st\<lparr>dentry_addr := ?a\<rparr>)"
    using o n0 len unfolding find_dentry.simps Let_def entry_at_def by (simp split: if_splits) auto
  then show ?thesis by (simp add: add.commute)
qed

lemma find_dentry_hit:
  assumes "cstr m fname xs" "xs \<noteq> []" "dentry_ok m (entry_at st i)" "entry_name m (entry_at st i) = xs"
    "disjoint_regions (dentry + 32) 8 (entry_at st i + 32) 8"
  shows "find_dentry (Suc k) (of_nat i) fname (of_nat (length xs)) dentry m st =
    Some (0, fill_dentry dentry (entry_at st i) m, st\<lparr>dentry_addr := entry_at st i\<rparr>)"
proof -
  let ?a = "entry_at st i" and ?n = "of_nat (length xs) :: u32"
  have le: "length xs \<le> 32" using entry_name_length [of m ?a] assms(4) by simp
  have un: "unat ?n = length xs" using le by simp
  have len: "strlen m ?a = Some (if long_entry m ?a then 33 else ?n)" using strlen_entry [OF assms(3)] assms(4) by simp
  have n0: "?n \<noteq> 0" using assms(2) le of_nat32_inj [of "length xs" 0] by simp
  have cmp: "strncmp m fname ?a ?n = 0"
    using strncmp_prefix [OF assms(1) refl, of ?a] prefix_entry_name [of xs m ?a] assms(1,4) le by (simp add: cstr_def)
  have long: "\<not> ?n < 32" if "long_entry m ?a" using that assms(4) by (auto simp: long_entry_def)
  have same: "fold (\<lambda>j m. m(?a + of_nat j := m (fname + of_nat j))) [0..<unat ?n] m = m"
    unfolding un using entry_name_nth [of _ m ?a] cstr_nth [OF assms(1)] assms(4) by (intro copy_same_bytes) auto
  have small: "\<not> 32 < ?n" using le by (simp add: word_less_nat_alt)
  show ?thesis
    using len n0 cmp long small same fill_dentry_stores [OF assms(5), of m]
    unfolding find_dentry.simps Let_def entry_at_def [symmetric] by (auto simp: Let_def entry_at_def)
qed

lemma entry_at_upd [simp]: "entry_at (st\<lparr>dentry_addr := a\<rparr>) = entry_at st"
  by (simp add: entry_at_def fun_eq_iff)

lemma find_dentry_none:
  assumes "cstr m fname xs" "xs \<noteq> []" "length xs \<le> 32"
    "\<forall>j. i \<le> j \<and> j < i + k \<longrightarrow> dentry_ok m (entry_at st j) \<and> entry_name m (entry_at st j) \<noteq> xs \<and> \<not> hides m (entry_at st j) xs"
  shows "\<exists>a. find_dentry k (of_nat i) fname (of_nat (length xs)) dentry m st = Some (-1, m, st\<lparr>dentry_addr := a\<rparr>)"
  using assms(4)
proof (induction k arbitrary: i st)
  case 0
  then show ?case by (intro exI [of _ "dentry_addr st"]) simp
next
  case (Suc k)
  have "find_dentry (Suc k) (of_nat i) fname (of_nat (length xs)) dentry m st =
    find_dentry k (of_nat (i + 1)) fname (of_nat (length xs)) dentry m (st\<lparr>dentry_addr := entry_at st i\<rparr>)"
    using Suc.prems by (intro find_dentry_skip [OF assms(1-3)]) auto
  moreover have "\<exists>a. find_dentry k (of_nat (i + 1)) fname (of_nat (length xs)) dentry m (st\<lparr>dentry_addr := entry_at st i\<rparr>) =
      Some (-1, m, st\<lparr>dentry_addr := entry_at st i\<rparr>\<lparr>dentry_addr := a\<rparr>)"
    using Suc.prems by (intro Suc.IH) simp
  ultimately show ?case by auto
qed

lemma find_dentry_first:
  assumes "cstr m fname xs" "xs \<noteq> []" "length xs \<le> 32"
    "j < k" "dentry_ok m (entry_at st (i + j))" "entry_name m (entry_at st (i + j)) = xs"
    "disjoint_regions (dentry + 32) 8 (entry_at st (i + j) + 32) 8"
    "\<forall>r < j. dentry_ok m (entry_at st (i + r)) \<and> entry_name m (entry_at st (i + r)) \<noteq> xs \<and> \<not> hides m (entry_at st (i + r)) xs"
  shows "find_dentry k (of_nat i) fname (of_nat (length xs)) dentry m st =
    Some (0, fill_dentry dentry (entry_at st (i + j)) m, st\<lparr>dentry_addr := entry_at st (i + j)\<rparr>)"
  using assms(4-8)
proof (induction k arbitrary: i j st)
  case (Suc k)
  show ?case
  proof (cases j)
    case 0
    then show ?thesis using find_dentry_hit [OF assms(1,2), of st i dentry k] Suc.prems by simp
  next
    case (Suc j')
    have "find_dentry (Suc k) (of_nat i) fname (of_nat (length xs)) dentry m st =
      find_dentry k (of_nat (i + 1)) fname (of_nat (length xs)) dentry m (st\<lparr>dentry_addr := entry_at st i\<rparr>)"
      using Suc.prems(5) \<open>j = Suc j'\<close> by (intro find_dentry_skip [OF assms(1-3)]) (auto dest: spec [of _ 0])
    also have "\<dots> = Some (0, fill_dentry dentry (entry_at (st\<lparr>dentry_addr := entry_at st i\<rparr>) (i + 1 + j')) m,
        st\<lparr>dentry_addr := entry_at st i\<rparr>\<lparr>dentry_addr := entry_at (st\<lparr>dentry_addr := entry_at st i\<rparr>) (i + 1 + j')\<rparr>)"
    proof (rule Suc.IH)
      show "\<forall>r < j'. dentry_ok m (entry_at (st\<lparr>dentry_addr := entry_at st i\<rparr>) (i + 1 + r)) \<and>
          entry_name m (entry_at (st\<lparr>dentry_addr := entry_at st i\<rparr>) (i + 1 + r)) \<noteq> xs \<and>
          \<not> hides m (entry_at (st\<lparr>dentry_addr := entry_at st i\<rparr>) (i + 1 + r)) xs"
      proof (intro allI impI)
        fix r assume "r < j'"
        then show "dentry_ok m (entry_at (st\<lparr>dentry_addr := entry_at st i\<rparr>) (i + 1 + r)) \<and>
          entry_name m (entry_at (st\<lparr>dentry_addr := entry_at st i\<rparr>) (i + 1 + r)) \<noteq> xs \<and>
          \<not> hides m (entry_at (st\<lparr>dentry_addr := entry_at st i\<rparr>) (i + 1 + r)) xs"
          using Suc.prems(5) [rule_format, of "Suc r"] \<open>j = Suc j'\<close> by simp
      qed
    qed (use Suc.prems \<open>j = Suc j'\<close> in simp_all)
    finally show ?thesis using \<open>j = Suc j'\<close> by simp
  qed
qed simp

text \<open>Every entry ends, and none hides the name looked for behind one of 32 characters.\<close>

definition directory_clear :: "mem \<Rightarrow> fs_state \<Rightarrow> u8 list \<Rightarrow> bool" where
  "directory_clear m st xs \<longleftrightarrow> (\<forall>i < unat (num_dentry m (fs_addr st)).
     dentry_ok m (entry_at st i) \<and> \<not> hides m (entry_at st i) xs)"

lemma search_outcome:
  assumes "cstr m fname xs" "xs \<noteq> []" "length xs \<le> 32" "directory_clear m st xs"
    "\<forall>i < unat (num_dentry m (fs_addr st)). disjoint_regions (dentry + 32) 8 (entry_at st i + 32) 8"
  shows "\<exists>a. read_dentry_by_name fname dentry m st =
    (case find (\<lambda>i. entry_name m (entry_at st i) = xs) [0..<unat (num_dentry m (fs_addr st))] of
       None \<Rightarrow> Some (-1, m, st\<lparr>dentry_addr := a\<rparr>)
     | Some i \<Rightarrow> Some (0, fill_dentry dentry (entry_at st i) m, st\<lparr>dentry_addr := entry_at st i\<rparr>))"
proof -
  let ?n = "unat (num_dentry m (fs_addr st))"
  have run: "read_dentry_by_name fname dentry m st = find_dentry ?n (of_nat 0) fname (of_nat (length xs)) dentry m st"
    using assms(1) by (simp add: read_dentry_by_name_def strlen_cstr)
  show ?thesis
  proof (cases "find (\<lambda>i. entry_name m (entry_at st i) = xs) [0..<?n]")
    case None
    then have "\<forall>j < ?n. entry_name m (entry_at st j) \<noteq> xs" by (auto simp: find_None_iff)
    then show ?thesis using find_dentry_none [OF assms(1-3), of 0 ?n st dentry] assms(4) None
      unfolding run directory_clear_def by auto
  next
    case (Some i)
    then have i: "i < ?n" "entry_name m (entry_at st i) = xs" "\<forall>j < i. entry_name m (entry_at st j) \<noteq> xs"
      by (auto simp: find_Some_iff)
    then show ?thesis using find_dentry_first [OF assms(1-3), of i ?n st 0 dentry] assms(4,5) Some
      unfolding run directory_clear_def by auto
  qed
qed

subsection \<open>Reading an entry by its index\<close>

lemma fold_copy_disjoint:
  assumes "disjoint_regions b n a n" "n \<le> 2 ^ 32"
  shows "fold (\<lambda>j m. m(a + of_nat j := m (b + of_nat j))) [0..<n] m = store_bytes m a (load_bytes m b n)"
proof -
  have "fold (\<lambda>j m. m(a + of_nat j := m (b + of_nat j))) [0..<k] m = store_bytes m a (load_bytes m b k)" if "k \<le> n" for k
    using that
  proof (induction k)
    case (Suc k)
    have "store_bytes m a (load_bytes m b k) (b + of_nat k) = m (b + of_nat k)"
      using Suc.prems assms by (intro store_bytes_read_disjoint [OF assms(1)]) simp_all
    moreover have "load_bytes m b (Suc k) = load_bytes m b k @ [m (b + of_nat k)]"
      using load_bytes_add [of m b k 1] by (simp add: load_bytes_def)
    moreover have "fold (\<lambda>j m. m(a + of_nat j := m (b + of_nat j))) [0..<Suc k] m =
        (\<lambda>m. m(a + of_nat k := m (b + of_nat k))) (fold (\<lambda>j m. m(a + of_nat j := m (b + of_nat j))) [0..<k] m)"
      by (simp add: fun_upd_def)
    moreover have "fold (\<lambda>j m. m(a + of_nat j := m (b + of_nat j))) [0..<k] m = store_bytes m a (load_bytes m b k)"
      by (rule Suc.IH) (use Suc.prems in simp)
    ultimately show ?case by (simp only: store_bytes_snoc length_load_bytes)
  qed simp
  then show ?thesis by simp
qed

lemma entry_nameI:
  assumes "length xs \<le> 32" "0 \<notin> set xs" "load_bytes m a (length xs) = xs"
    "length xs < 32 \<Longrightarrow> m (a + of_nat (length xs)) = 0"
  shows "entry_name m a = xs"
proof (cases "length xs < 32")
  case True
  then have "32 - length xs = Suc (31 - length xs)" by simp
  then have "load_bytes m a 32 = xs @ 0 # load_bytes m (a + of_nat (length xs) + 1) (31 - length xs)"
    using load_bytes_add [of m a "length xs" "32 - length xs"] True assms(3,4)
      load_bytes_Suc [of m "a + of_nat (length xs)" "31 - length xs"] by simp
  then show ?thesis using assms(2) unfolding entry_name_def
    by (subst \<open>load_bytes m a 32 = _\<close>) (subst takeWhile_append2, auto)
next
  case False
  then have "load_bytes m a 32 = xs" using assms(1,3) by simp
  moreover have "takeWhile (\<lambda>c. c \<noteq> 0) xs = xs" using assms(2) by (subst takeWhile_eq_all_conv) auto
  ultimately show ?thesis by (simp add: entry_name_def)
qed

lemma read_dentry_by_index_eq:
  fixes index :: u32
  assumes "index < num_dentry m (fs_addr st)" "a = entry_at st (unat index)" "dentry_ok m a"
    "disjoint_regions dentry 44 a 44"
  shows "\<exists>m'. read_dentry_by_index index dentry m st = Some (0, m', st\<lparr>dentry_addr := a\<rparr>) \<and>
    entry_name m' dentry = entry_name m a \<and> load32 m' (dentry + 32) = load32 m (a + 32) \<and>
    load32 m' (dentry + 36) = load32 m (a + 36) \<and> changes_only dentry 44 m m'"
proof -
  define n :: u32 where "n = (if long_entry m a then 33 else of_nat (length (entry_name m a)))"
  have len: "strlen m a = Some n" unfolding n_def by (rule strlen_entry [OF assms(3)])
  have n: "unat n \<le> 33" "length (entry_name m a) \<le> unat n" "unat n < 32 \<Longrightarrow> length (entry_name m a) = unat n"
    "length (entry_name m a) < 32 \<Longrightarrow> unat n < 32"
    using entry_name_length [of m a] by (auto simp: n_def long_entry_def split: if_splits)
  define m1 where "m1 = store_bytes m dentry (load_bytes m a (unat n) @ [0])"
  define m2 where "m2 = store32 m1 (dentry + 32) (load32 m1 (a + 32))"
  define m3 where "m3 = store32 m2 (dentry + 36) (load32 m2 (a + 36))"
  have c1: "changes_only dentry 44 m m1"
    using changes_only_store [of 0 "load_bytes m a (unat n) @ [0]" 44 dentry m] n(1) by (simp add: m1_def)
  have c2: "changes_only dentry 44 m1 m2"
    using changes_only_store [of 32 "bytes_of32 (load32 m1 (a + 32))" 44 dentry m1] by (simp add: m2_def store32_store_bytes)
  have c3: "changes_only dentry 44 m2 m3"
    using changes_only_store [of 36 "bytes_of32 (load32 m2 (a + 36))" 44 dentry m2] by (simp add: m3_def store32_store_bytes)
  have l1: "load32 m1 (a + 32) = load32 m (a + 32)"
    using changes_only_load32 [OF c1 assms(4), of 32] by simp
  have l2: "load32 m2 (a + 36) = load32 m (a + 36)"
    using changes_only_load32 [OF changes_only_trans [OF c1 c2] assms(4), of 36] by simp
  have "disjoint_regions (dentry + 32) 4 (dentry + 36) 4"
    using disjoint_same_base [of 32 4 36 4 dentry] by simp
  then have "load32 m3 (dentry + 32) = load32 m2 (dentry + 32)"
    by (simp add: m3_def store32_store_bytes load32_store_disjoint)
  then have ft: "load32 m3 (dentry + 32) = load32 m (a + 32)" "load32 m3 (dentry + 36) = load32 m (a + 36)"
    unfolding m3_def l2 by (simp_all add: m2_def load32_store32 l1)
  have sep: "disjoint_regions dentry 32 (dentry + 32) 4" "disjoint_regions dentry 32 (dentry + 36) 4"
    using disjoint_same_base [of 0 32 32 4 dentry] disjoint_same_base [of 0 32 36 4 dentry] by simp_all
  have m3: "m3 (dentry + of_nat i) = (load_bytes m a (unat n) @ [0]) ! i" if "i < 32" "i \<le> unat n" for i
  proof -
    have "m3 (dentry + of_nat i) = m1 (dentry + of_nat i)"
      using that(1) store_bytes_read_disjoint [OF sep(1), of i] store_bytes_read_disjoint [OF sep(2), of i]
      by (simp add: m3_def m2_def store32_store_bytes)
    then show ?thesis using that n(1) by (simp add: m1_def store_bytes_apply)
  qed
  have nm: "entry_name m3 dentry = entry_name m a"
  proof (rule entry_nameI)
    show "load_bytes m3 dentry (length (entry_name m a)) = entry_name m a"
      using n(2) entry_name_length [of m a]
      by (intro nth_equalityI) (auto simp: m3 nth_append entry_name_nth)
    show "m3 (dentry + of_nat (length (entry_name m a))) = 0" if "length (entry_name m a) < 32"
    proof -
      have "unat n < 32" by (rule n(4) [OF that])
      then show ?thesis unfolding n(3) [OF \<open>unat n < 32\<close>] by (subst m3) (simp_all add: nth_append)
    qed
  qed (simp_all add: entry_name_length entry_name_nonzero)
  have copy: "(fold (\<lambda>j m. m(dentry + of_nat j := m (a + of_nat j))) [0..<unat n] m)(dentry + n := 0) = m1"
  proof -
    have "disjoint_regions a (unat n) dentry (unat n)"
      using n(1) disjoint_regions_sym [THEN iffD1, OF assms(4)] by (auto elim: disjoint_regions_mono)
    then have "fold (\<lambda>j m. m(dentry + of_nat j := m (a + of_nat j))) [0..<unat n] m = store_bytes m dentry (load_bytes m a (unat n))"
      by (rule fold_copy_disjoint) simp
    then show ?thesis by (simp only: m1_def store_bytes_snoc length_load_bytes of_nat_unat32)
  qed
  have run: "read_dentry_by_index index dentry m st = Some (0, m3, st\<lparr>dentry_addr := a\<rparr>)"
  proof -
    have "dentries st + 44 * index = a" by (simp add: assms(2) entry_at_def)
    moreover have "dentry_addr (st\<lparr>dentry_addr := a\<rparr>) = a" by simp
    ultimately show ?thesis using assms(1) len copy
      unfolding read_dentry_by_index_def Let_def m3_def m2_def by (simp only: if_True bind.bind_lunit)
  qed
  show ?thesis
    using run nm ft changes_only_trans [OF changes_only_trans [OF c1 c2] c3] by blast
qed

subsection \<open>Copying the directory\<close>

lemma copy_dentries_from:
  fixes dest fs :: u32
  assumes "n = unat (num_dentry m fs)" "n \<le> 64" "disjoint_regions dest (44 * n) fs (64 + 64 * n)"
    "i \<le> n" "changes_only dest (44 * n) m m1"
    "\<forall>j < i. load_bytes m1 (dest + of_nat (44 * j)) 44 = load_bytes m (fs + of_nat (64 + 64 * j)) 44"
  shows "\<exists>m'. copy_dentries dest fs (of_nat i) m1 = Some m' \<and> changes_only dest (44 * n) m m' \<and>
    (\<forall>j < n. load_bytes m' (dest + of_nat (44 * j)) 44 = load_bytes m (fs + of_nat (64 + 64 * j)) 44)"
  using assms(4-6)
proof (induction "n - i" arbitrary: i m1)
  case 0
  have "num_dentry m1 fs = num_dentry m fs"
    using changes_only_load32 [OF 0(3) assms(3), of 0] assms(2) by (simp add: num_dentry_def)
  then have "copy_dentries dest fs (of_nat i) m1 = Some m1"
    using 0 assms(1) by (subst copy_dentries.simps) (simp add: of_nat_less32)
  then show ?case using 0 by auto
next
  case (Suc k)
  let ?e = "load_bytes m (fs + of_nat (64 + 64 * i)) 44"
  let ?m2 = "store_bytes m1 (dest + of_nat (44 * i)) ?e"
  have i: "i < n" using Suc.hyps(2) by simp
  have "num_dentry m1 fs = num_dentry m fs"
    using changes_only_load32 [OF Suc.prems(2) assms(3), of 0] assms(2) by (simp add: num_dentry_def)
  moreover have "load_bytes m1 (fs + of_nat (64 + 64 * i)) 44 = ?e"
  proof (rule changes_only_load_bytes [OF Suc.prems(2)])
    show "disjoint_regions dest (44 * n) (fs + of_nat (64 + 64 * i)) 44"
      using disjoint_regions_offset [OF assms(3), of 0 "44 * n" "64 + 64 * i" 44] i assms(2) by simp
  qed simp
  moreover have "fs + 64 + of_nat i * 64 = fs + of_nat (64 + 64 * i)" "dest + 44 * of_nat i = dest + of_nat (44 * i)"
    by (simp_all add: algebra_simps)
  ultimately have step: "copy_dentries dest fs (of_nat i) m1 = copy_dentries dest fs (of_nat (Suc i)) ?m2"
    using i assms(1) by (subst copy_dentries.simps) (simp only: of_nat_less32 less_imp_le if_True of_nat_Suc add.commute)
  have "changes_only dest (44 * n) m1 ?m2"
    using i assms(2) by (intro changes_only_store) simp_all
  then have frame: "changes_only dest (44 * n) m ?m2" using Suc.prems(2) changes_only_trans by blast
  have "load_bytes ?m2 (dest + of_nat (44 * j)) 44 = load_bytes m (fs + of_nat (64 + 64 * j)) 44" if "j < Suc i" for j
  proof (cases "j = i")
    case False
    then have "disjoint_regions (dest + of_nat (44 * j)) 44 (dest + of_nat (44 * i)) 44"
      using that i assms(2) by (intro disjoint_same_base) simp_all
    then have "load_bytes ?m2 (dest + of_nat (44 * j)) 44 = load_bytes m1 (dest + of_nat (44 * j)) 44"
      by (intro load_bytes_store_disjoint) simp_all
    then show ?thesis using Suc.prems(3) False that less_SucE by metis
  qed simp
  then show ?case unfolding step using i Suc.hyps(2) frame by (intro Suc.hyps(1)) simp_all
qed

lemma copy_dentries_eq:
  fixes dest fs :: u32
  assumes "n = unat (num_dentry m fs)" "n \<le> 64" "disjoint_regions dest (44 * n) fs (64 + 64 * n)"
  shows "\<exists>m'. copy_dentries dest fs 0 m = Some m' \<and> changes_only dest (44 * n) m m' \<and>
    (\<forall>j < n. load_bytes m' (dest + of_nat (44 * j)) 44 = load_bytes m (fs + of_nat (64 + 64 * j)) 44)"
  using copy_dentries_from [OF assms, of 0 m] changes_only_refl by simp

lemma fs_init_mounts:
  fixes fs :: u32
  assumes "n = unat (num_dentry m fs)" "n \<le> 64" "fs \<noteq> 0"
    "disjoint_regions (dentries st) (44 * n) fs (64 + 64 * n)"
  shows "\<exists>m' st'. fs_init fs m st = Some (0, m', st') \<and> changes_only (dentries st) (44 * n) m m' \<and>
    (\<forall>j. j < n \<longrightarrow> load_bytes m' (entry_at st' j) 44 = load_bytes m (fs + of_nat (64 + 64 * j)) 44) \<and>
    st' = st\<lparr>fs_name := fs, fs_addr := fs, num_inode := load32 m (fs + 4), inode_addr := fs + 4096,
      data_addr := fs + 4096 + 4096 * load32 m (fs + 4)\<rparr>"
proof -
  obtain m' where m': "copy_dentries (dentries st) fs 0 m = Some m'" "changes_only (dentries st) (44 * n) m m'"
    "\<forall>j < n. load_bytes m' (dentries st + of_nat (44 * j)) 44 = load_bytes m (fs + of_nat (64 + 64 * j)) 44"
    using copy_dentries_eq [OF assms(1,2,4)] by blast
  have "load32 m' (fs + 4) = load32 m (fs + 4)"
    using changes_only_load32 [OF m'(2) assms(4), of 4] assms(2) by simp
  then show ?thesis using m' assms(3) by (simp add: fs_init_def entry_at_def Let_def)
qed

subsection \<open>Properties\<close>

text \<open>A file system with one file \<open>a\<close> of three bytes, at address 4194304 (0x400000), for the witnesses.\<close>

definition sample_disk :: mem where
  "sample_disk = store_bytes (store_bytes (store_bytes (store_bytes (\<lambda>_. 0)
     0x400000 [1, 0, 0, 0, 1, 0, 0, 0, 1, 0, 0, 0])
     0x400040 [97]) 0x401000 [3]) 0x402000 [104, 105, 33]"

definition unmounted :: fs_state where
  "unmounted = \<lparr>fs_name = 0, fs_addr = 0, dentry_addr = 0, inode_addr = 0, data_addr = 0, num_inode = 0, dentries = 0x10000\<rparr>"

text \<open>The same with the directory copied to 65536 (0x10000), and the string \<open>a\<close> at 131072 (0x20000).\<close>

definition mounted_disk :: mem where
  "mounted_disk = store_bytes (store_bytes sample_disk 0x10000 [97]) 0x20000 [97]"

definition mounted :: fs_state where
  "mounted = \<lparr>fs_name = 0x400000, fs_addr = 0x400000, dentry_addr = 0, inode_addr = 0x401000, data_addr = 0x402000,
     num_inode = 1, dentries = 0x10000\<rparr>"

text \<open>C35: \<open>fs_init\<close> returns, copies every directory entry of the boot block into the driver's array and
  changes nothing else in memory, and sets the addresses of the inodes and of the data blocks
  from the counts of the boot block, provided the directory fits the array and the array lies
  outside the image.\<close>

theorem fs_init_correct:
  fixes fs :: u32
  assumes "n = unat (num_dentry m fs)" "n \<le> 64" "fs \<noteq> 0"
    "disjoint_regions (dentries st) (44 * n) fs (64 + 64 * n)"
  shows "\<exists>m' st'. fs_init fs m st = Some (0, m', st') \<and> changes_only (dentries st) (44 * n) m m' \<and>
    (\<forall>j. j < n \<longrightarrow> load_bytes m' (entry_at st' j) 44 = load_bytes m (fs + of_nat (64 + 64 * j)) 44) \<and>
    st' = st\<lparr>fs_name := fs, fs_addr := fs, num_inode := load32 m (fs + 4), inode_addr := fs + 4096,
      data_addr := fs + 4096 + 4096 * load32 m (fs + 4)\<rparr>"
  by (rule fs_init_mounts [OF assms])

theorem fs_init_correct_witness:
  "\<exists>m' st'. fs_init 0x400000 sample_disk unmounted = Some (0, m', st') \<and>
    load_bytes m' (entry_at st' 0) 44 = load_bytes sample_disk 0x400040 44 \<and> inode_addr st' = 0x401000"
proof -
  have "unat (num_dentry sample_disk 0x400000) = 1" by code_simp
  moreover have "disjoint_regions (dentries unmounted) 44 0x400000 128"
    by (rule disjoint_regionsI) (simp_all add: unmounted_def)
  ultimately show ?thesis using fs_init_correct [where n = 1 and m = sample_disk and fs = "0x400000" and st = unmounted] by auto
qed



text \<open>\<open>read_dentry_by_index\<close> returns a directory entry's name, type and inode number for every
  index below the number of entries, writing only the structure it is given, and returns -1
  with nothing written for every other index.\<close>

theorem read_dentry_by_index_correct:
  fixes index :: u32
  assumes "a = entry_at st (unat index)" "dentry_ok m a" "disjoint_regions dentry 44 a 44"
  shows "if index < num_dentry m (fs_addr st)
    then \<exists>m'. read_dentry_by_index index dentry m st = Some (0, m', st\<lparr>dentry_addr := a\<rparr>) \<and>
      entry_name m' dentry = entry_name m a \<and> load32 m' (dentry + 32) = load32 m (a + 32) \<and>
      load32 m' (dentry + 36) = load32 m (a + 36) \<and> changes_only dentry 44 m m'
    else read_dentry_by_index index dentry m st = Some (-1, m, st)"
  using read_dentry_by_index_eq [OF _ assms] by (simp add: read_dentry_by_index_def)

theorem read_dentry_by_index_correct_witness:
  "\<exists>m'. read_dentry_by_index 0 0x30000 mounted_disk mounted = Some (0, m', mounted\<lparr>dentry_addr := 0x10000\<rparr>) \<and>
     entry_name m' 0x30000 = [97]"
proof -
  have entry: "entry_name mounted_disk 0x10000 = [97]" "entry_at mounted 0 = 0x10000"
    "0 < num_dentry mounted_disk (fs_addr mounted)" by code_simp+
  have "disjoint_regions 0x30000 44 (0x10000 :: u32) 44"
    by (subst disjoint_regions_sym, rule disjoint_regionsI) simp_all
  then show ?thesis
    using read_dentry_by_index_correct [where a = "0x10000" and st = mounted and index = 0 and m = mounted_disk and dentry = "0x30000"] entry by (auto simp: dentry_ok_def)
qed

text \<open>C25: the outcome of \<open>read_data\<close> in every case.  For an inode of the file system whose blocks, from
  the one that holds the offset on, are valid up to the offset plus the file's length, it
  stores the bytes of the file from the offset on, in the order of the inode's block list, as
  many as the smaller of the file's length and the length asked for, and returns that number;
  in every other case it returns -1 and leaves memory as it was.\<close>

theorem read_data_correct:
  fixes inode offset buf len :: u32
  shows "read_data inode offset buf len m st =
    (let n = min (get_length inode m st) len
     in if file_readable m st inode offset then (sint n, store_bytes m buf (file_bytes m st inode offset (unat n)))
        else (-1, m))"
  by (rule read_data_outcome)

end
