(* ===== verification/Paging.thy ===== *)
theory Paging
  imports Prelude
begin

text \<open>
  Paging, \<^verbatim>\<open>src/student-distrib/paging.c\<close>: the page directory and the two page tables as the
  arrays of the source, and the five routines that fill them.  The linker places the
  arrays, so their (page-aligned) addresses are parameters.  The hardware's two-level page
  walk is written out as \<open>walk\<close>, from the processor manual; every reload of CR3 flushes the
  translation cache, so that \<open>walk\<close> over the arrays is what the processor uses afterwards.
\<close>

subsection \<open>The arrays and the routines\<close>

record paging =
  directory :: "nat \<Rightarrow> u32"
  tables :: "nat \<Rightarrow> u32"
  tables2 :: "nat \<Rightarrow> u32"
  cr0 :: u32
  cr3 :: u32
  cr4 :: u32

abbreviation (input) VIDEO :: u32 where "VIDEO \<equiv> 0xB8000"
abbreviation (input) FIRST_TERM_VID :: u32 where "FIRST_TERM_VID \<equiv> 0xB9000"
abbreviation (input) SECOND_TERM_VID :: u32 where "SECOND_TERM_VID \<equiv> 0xBA000"
abbreviation (input) THIRD_TERM_VID :: u32 where "THIRD_TERM_VID \<equiv> 0xBB000"
abbreviation (input) MB_128 :: u32 where "MB_128 \<equiv> 0x08000000"
abbreviation (input) MB_132 :: u32 where "MB_132 \<equiv> 0x08400000"

definition reload_cr3 :: "paging \<Rightarrow> paging" where
  "reload_cr3 p = p\<lparr>cr3 := cr3 p\<rparr>"

definition init_paging :: "u32 \<Rightarrow> u32 \<Rightarrow> paging \<Rightarrow> paging" where
  "init_paging directory_addr tables_addr p =
    (let dir = fold (\<lambda>i d. d(i := 0x2)) [0..<1024] (directory p);
         dir = dir(1 := 0x400000 OR 0x83);
         tab = fold (\<lambda>i t. t(i := push_bit 12 (of_nat i) OR 0x2)) [0..<1024] (tables p);
         tab = tab(unat (drop_bit 12 VIDEO) := VIDEO OR 0x3);
         dir = dir(0 := tables_addr OR 0x3);
         tab = tab(unat (drop_bit 12 FIRST_TERM_VID) := VIDEO OR 0x3);
         tab = tab(unat (drop_bit 12 SECOND_TERM_VID) := SECOND_TERM_VID OR 0x3);
         tab = tab(unat (drop_bit 12 THIRD_TERM_VID) := THIRD_TERM_VID OR 0x3)
     in p\<lparr>directory := dir, tables := tab, cr3 := directory_addr,
          cr4 := cr4 p OR 0x10, cr0 := cr0 p OR 0x80000000\<rparr>)"

definition remap_paging :: "u32 \<Rightarrow> paging \<Rightarrow> paging" where
  "remap_paging physical_address p =
    (let idx = unat (drop_bit 22 MB_128)
     in reload_cr3 (p\<lparr>directory := (directory p)(idx := physical_address OR 0x87)\<rparr>))"

text \<open>\<open>map_video\<close> asks the keyboard driver for the displayed terminal (\<open>current\<close>) and the one
  whose process runs (\<open>active\<close>).  When the active terminal is none of the three, the C variable
  \<open>entry\<close> is read uninitialised: its value is the parameter \<open>uninit\<close>.\<close>

definition map_video :: "u32 \<Rightarrow> u32 \<Rightarrow> int \<Rightarrow> int \<Rightarrow> u32 \<Rightarrow> paging \<Rightarrow> paging" where
  "map_video tables_addr uninit current active address p =
    (let entry = (if current = active then VIDEO OR 0x7
                  else if active = 0 then FIRST_TERM_VID OR 0x7
                  else if active = 1 then SECOND_TERM_VID OR 0x7
                  else if active = 2 then THIRD_TERM_VID OR 0x7
                  else uninit);
         table2idx = unat (drop_bit 12 address AND 0x3FF);
         tab = (tables p)(table2idx := entry);
         idx = unat (drop_bit 22 address);
         dir = (directory p)(idx := tables_addr OR 0x7)
     in reload_cr3 (p\<lparr>directory := dir, tables := tab\<rparr>))"

definition remap_term :: "int \<Rightarrow> paging \<Rightarrow> paging" where
  "remap_term active_terminal p =
    reload_cr3 (if active_terminal = 0 then p\<lparr>tables := (tables p)(unat (drop_bit 12 FIRST_TERM_VID) := VIDEO OR 0x3)\<rparr>
     else if active_terminal = 1 then p\<lparr>tables := (tables p)(unat (drop_bit 12 SECOND_TERM_VID) := VIDEO OR 0x3)\<rparr>
     else if active_terminal = 2 then p\<lparr>tables := (tables p)(unat (drop_bit 12 THIRD_TERM_VID) := VIDEO OR 0x3)\<rparr>
     else p)"

definition remap_term_before :: "int \<Rightarrow> paging \<Rightarrow> paging" where
  "remap_term_before active_terminal p =
    reload_cr3 (if active_terminal = 0 then p\<lparr>tables := (tables p)(unat (drop_bit 12 FIRST_TERM_VID) := FIRST_TERM_VID OR 0x3)\<rparr>
     else if active_terminal = 1 then p\<lparr>tables := (tables p)(unat (drop_bit 12 SECOND_TERM_VID) := SECOND_TERM_VID OR 0x3)\<rparr>
     else if active_terminal = 2 then p\<lparr>tables := (tables p)(unat (drop_bit 12 THIRD_TERM_VID) := THIRD_TERM_VID OR 0x3)\<rparr>
     else p)"

subsection \<open>The processor's page walk\<close>

text \<open>An entry is present when bit 0 is set and open to user mode when bit 2 is; a directory
  entry with bit 7 set maps four megabytes directly.  A page table is found by its address:
  the two the kernel owns are \<open>tables\<close> and \<open>tables2\<close>.  The result is the physical address and
  whether user mode may use it.\<close>

definition table_at :: "u32 \<Rightarrow> u32 \<Rightarrow> paging \<Rightarrow> u32 \<Rightarrow> (nat \<Rightarrow> u32) option" where
  "table_at t1 t2 p f = (if f = t1 then Some (tables p) else if f = t2 then Some (tables2 p) else None)"

definition walk :: "u32 \<Rightarrow> u32 \<Rightarrow> paging \<Rightarrow> u32 \<Rightarrow> (u32 \<times> bool) option" where
  "walk t1 t2 p a =
    (let pde = directory p (unat (drop_bit 22 a)) in
     if \<not> bit pde 0 then None
     else if bit pde 7 then Some (push_bit 22 (drop_bit 22 pde) OR take_bit 22 a, bit pde 2)
     else case table_at t1 t2 p (push_bit 12 (drop_bit 12 pde)) of
       None \<Rightarrow> None
     | Some tab \<Rightarrow>
         let pte = tab (unat (take_bit 10 (drop_bit 12 a))) in
         if \<not> bit pte 0 then None
         else Some (push_bit 12 (drop_bit 12 pte) OR take_bit 12 a, bit pde 2 \<and> bit pte 2))"

definition page_aligned :: "u32 \<Rightarrow> bool" where
  "page_aligned a \<longleftrightarrow> take_bit 12 a = 0"

text \<open>The physical page which the kernel gives to process number \<open>k\<close>, as the system calls and
  the scheduler compute it.\<close>

definition process_page :: "u32 \<Rightarrow> u32" where
  "process_page k = 0x400000 + k * 0x400000"

subsection \<open>Entries and indices\<close>

lemma reload_cr3_id [simp]: "reload_cr3 p = p"
  by (simp add: reload_cr3_def)

lemma directory_index: "unat (drop_bit 22 (a :: u32)) < 1024"
  by (simp add: unat_drop32 less_mult_imp_div_less)

lemma table_index_low: "drop_bit 22 (a :: u32) = 0 \<Longrightarrow> take_bit 10 (drop_bit 12 a) = drop_bit 12 a"
  by (simp add: take_bit_eq_self_iff_drop_bit_eq_0)

lemma table_index_bound: "unat (take_bit 10 (x :: u32)) < 1024"
  by (simp add: unsigned_take_bit_eq take_bit_nat_less_exp [of 10, simplified])

lemma low_page: "drop_bit 12 (a :: u32) = n \<Longrightarrow> unat n < 1024 \<Longrightarrow> drop_bit 22 a = 0"
proof -
  assume "drop_bit 12 a = n" "unat n < 1024"
  then have "unat (drop_bit 10 (drop_bit 12 a)) = 0" by (simp only: unat_drop32) simp
  then show ?thesis by (simp add: unat_eq_0)
qed

lemma table_entry:
  assumes "page_aligned t" "unat f < 8"
  shows "push_bit 12 (drop_bit 12 t) OR push_bit 12 (drop_bit 12 f) = t" "bit (t OR f) k = (if k < 12 then bit f k else bit t k)"
proof -
  have "drop_bit 12 f = 0" using assms(2) by (simp add: word_unat_eq_iff unat_drop32)
  then show "push_bit 12 (drop_bit 12 t) OR push_bit 12 (drop_bit 12 f) = t"
    using assms(1) by (simp add: aligned_ident page_aligned_def)
  have "\<not> bit f k" if "12 \<le> k"
    using \<open>drop_bit 12 f = 0\<close> that by (rule drop_zero_bit)
  then show "bit (t OR f) k = (if k < 12 then bit f k else bit t k)"
    using assms(1) aligned_bit [of 12 t k] by (auto simp: bit_simps page_aligned_def)
qed

lemma walk_large:
  assumes "directory p (unat (drop_bit 22 a)) = f OR e" "take_bit 22 f = 0" "drop_bit 22 e = 0" "bit e 0" "bit e 7"
  shows "walk t1 t2 p a = Some (f OR take_bit 22 a, bit e 2)"
proof -
  have "push_bit 22 (drop_bit 22 (f OR e)) = f" using assms(2,3) by (simp add: aligned_ident)
  moreover have "bit (f OR e) k = bit e k" if "k < 22" for k
    using assms(2) that by (simp add: bit_or_iff aligned_bit)
  ultimately show ?thesis using assms(1,4,5) by (simp add: walk_def Let_def)
qed

lemma walk_small:
  assumes "directory p (unat (drop_bit 22 a)) = t1 OR e" "page_aligned t1" "unat e < 8" "bit e 0"
  shows "walk t1 t2 p a =
    (let pte = tables p (unat (take_bit 10 (drop_bit 12 a))) in
     if bit pte 0 then Some (push_bit 12 (drop_bit 12 pte) OR take_bit 12 a, bit e 2 \<and> bit pte 2) else None)"
proof -
  have "\<not> bit e 7"
  proof
    assume "bit e 7"
    then have "bit (unat e) 7" by (simp add: bit_unsigned_iff)
    then show False using assms(3) by (simp add: bit_iff_odd)
  qed
  then show ?thesis
    using assms by (simp add: walk_def table_at_def Let_def table_entry)
qed

lemma walk_absent: "\<not> bit (directory p (unat (drop_bit 22 a))) 0 \<Longrightarrow> walk t1 t2 p a = None"
  by (simp add: walk_def)

subsection \<open>The kernel's address space\<close>

lemma init_directory:
  "directory (init_paging d t p) i =
    (if i = 0 then t OR 3 else if i = 1 then 0x400083 else if i < 1024 then 2 else directory p i)"
  by (simp add: init_paging_def Let_def fold_upd)

lemma init_tables:
  "tables (init_paging d t p) i =
    (if i = 0xB8 \<or> i = 0xB9 then 0xB8003 else if i = 0xBA then 0xBA003 else if i = 0xBB then 0xBB003
     else if i < 1024 then push_bit 12 (of_nat i) OR 2 else tables p i)"
  by (simp add: init_paging_def Let_def fold_upd)

lemma page_frame:
  "drop_bit 12 a = n \<Longrightarrow> push_bit 12 n OR take_bit 12 (a :: u32) = a"
  using recombine [of 12 a] by simp

lemma init_walk_low:
  assumes "page_aligned t1" "drop_bit 22 a = 0"
  shows "walk t1 t2 (init_paging d t1 p) a =
    (if drop_bit 12 a \<in> {0xB8, 0xBA, 0xBB} then Some (a, False)
     else if drop_bit 12 a = 0xB9 then Some (push_bit 12 0xB8 OR take_bit 12 a, False) else None)"
proof -
  have u: "unat (drop_bit 12 a) = k \<longleftrightarrow> drop_bit 12 a = of_nat k" if "k < 1024" for k
    using that by (auto simp: word_unat_eq_iff)
  have lt: "unat (drop_bit 12 a) < 1024" using table_index_bound [of "drop_bit 12 a"] assms(2)
    by (simp only: table_index_low)
  have walk: "walk t1 t2 (init_paging d t1 p) a =
    (let pte = tables (init_paging d t1 p) (unat (drop_bit 12 a)) in
     if bit pte 0 then Some (push_bit 12 (drop_bit 12 pte) OR take_bit 12 a, False) else None)"
    using walk_small [of "init_paging d t1 p" a t1 3 t2] assms
    by (simp add: init_directory table_index_low Let_def)
  consider "drop_bit 12 a \<in> {0xB8, 0xB9, 0xBA, 0xBB}" | "drop_bit 12 a \<notin> {0xB8, 0xB9, 0xBA, 0xBB}" by blast
  then show ?thesis
  proof cases
    case 1
    then show ?thesis
      using page_frame [of a "0xB8"] page_frame [of a "0xBA"] page_frame [of a "0xBB"]
      by (elim insertE) (simp_all add: walk init_tables)
  next
    case 2
    then show ?thesis using lt by (simp add: walk init_tables u bit_simps)
  qed
qed

text \<open>After \<open>init_paging\<close>: the kernel's four megabytes and the video pages, with the first
  terminal's page on the screen.\<close>

lemma init_walk:
  assumes "page_aligned t1"
  shows "walk t1 t2 (init_paging d t1 p) a =
    (if drop_bit 22 a = 1 \<or> drop_bit 12 a \<in> {0xB8, 0xBA, 0xBB} then Some (a, False)
     else if drop_bit 12 a = 0xB9 then Some (push_bit 12 0xB8 OR take_bit 12 a, False) else None)"
proof -
  have low: "drop_bit 22 a = 0" if "drop_bit 12 a \<in> {0xB8, 0xB9, 0xBA, 0xBB}"
    using that by (intro low_page [OF refl]) auto
  consider "drop_bit 22 a = 0" | "drop_bit 22 a = 1" | "drop_bit 22 a \<noteq> 0" "drop_bit 22 a \<noteq> 1" by blast
  then show ?thesis
  proof cases
    case 1 then show ?thesis using init_walk_low [OF assms] by simp
  next
    case 2
    then have "walk t1 t2 (init_paging d t1 p) a = Some (0x400000 OR take_bit 22 a, False)"
      using walk_large [of "init_paging d t1 p" a "0x400000" "0x83"] by (simp add: init_directory)
    moreover have "0x400000 OR take_bit 22 a = a" using recombine [of 22 a] 2 by simp
    ultimately show ?thesis using 2 low by auto
  next
    case 3
    then have "unat (drop_bit 22 a) \<noteq> 0" "unat (drop_bit 22 a) \<noteq> 1" by (auto simp: word_unat_eq_iff)
    then have "walk t1 t2 (init_paging d t1 p) a = None"
      using directory_index [of a] by (intro walk_absent) (simp add: init_directory)
    then show ?thesis using 3 low by auto
  qed
qed

lemma remap_walk:
  assumes "take_bit 22 f = 0"
  shows "walk t1 t2 (remap_paging f p) a =
    (if drop_bit 22 a = 32 then Some (f OR take_bit 22 a, True) else walk t1 t2 p a)"
proof (cases "drop_bit 22 a = 32")
  case True
  then show ?thesis
    using walk_large [of "remap_paging f p" a f "0x87"] assms by (simp add: remap_paging_def)
next
  case False
  then have "unat (drop_bit 22 a) \<noteq> 32" by (auto simp: word_unat_eq_iff)
  then show ?thesis using False by (simp add: walk_def remap_paging_def table_at_def Let_def)
qed

lemma remap_paging_twice: "remap_paging g (remap_paging f p) = remap_paging g p"
  by (simp add: remap_paging_def)

subsection \<open>An invariant of the kernel's page tables\<close>

text \<open>What the arrays look like whenever the kernel runs: the entries the routines use hold the
  values they write, and every other entry is absent.\<close>

definition term_page :: "int \<Rightarrow> u32" where
  "term_page t = (if t = 0 then FIRST_TERM_VID else if t = 1 then SECOND_TERM_VID else THIRD_TERM_VID)"

definition term_index :: "int \<Rightarrow> nat" where
  "term_index t = (if t = 0 then 0xB9 else if t = 1 then 0xBA else 0xBB)"

definition directory_ok :: "u32 \<Rightarrow> paging \<Rightarrow> bool" where
  "directory_ok t1 p \<longleftrightarrow> directory p 0 = t1 OR 3 \<and> directory p 1 = 0x400000 OR 0x83 \<and>
    (directory p 32 = 2 \<or> (\<exists>f. take_bit 22 f = 0 \<and> directory p 32 = f OR 0x87)) \<and>
    (directory p 33 = 2 \<or> directory p 33 = t1 OR 7) \<and>
    (\<forall>i < 1024. i \<notin> {0, 1, 32, 33} \<longrightarrow> directory p i = 2)"

definition tables_ok :: "paging \<Rightarrow> bool" where
  "tables_ok p \<longleftrightarrow> tables p 0xB8 = 0xB8003 \<and>
    (\<forall>t \<in> {0, 1, 2}. tables p (term_index t) = VIDEO OR 3 \<or> tables p (term_index t) = term_page t OR 3) \<and>
    (\<not> bit (tables p 0) 0 \<or> tables p 0 \<in> {0xB8007, 0xB9007, 0xBA007, 0xBB007}) \<and>
    (\<forall>i < 1024. i \<notin> {0, 0xB8, 0xB9, 0xBA, 0xBB} \<longrightarrow> \<not> bit (tables p i) 0)"

definition paging_ok :: "u32 \<Rightarrow> paging \<Rightarrow> bool" where
  "paging_ok t1 p \<longleftrightarrow> bit (cr0 p) 31 \<and> directory_ok t1 p \<and> tables_ok p"

lemmas paging_ok_simps = paging_ok_def directory_ok_def tables_ok_def term_index_def term_page_def

lemma init_paging_on: "bit (cr0 (init_paging d t1 p)) 31"
  by (simp add: init_paging_def Let_def bit_simps)

lemma init_paging_ok: "paging_ok t1 (init_paging d t1 p)"
  by (simp add: paging_ok_simps init_paging_on init_directory init_tables bit_simps)

lemma remap_paging_ok: "paging_ok t1 p \<Longrightarrow> take_bit 22 f = 0 \<Longrightarrow> paging_ok t1 (remap_paging f p)"
  by (simp add: paging_ok_simps remap_paging_def) blast

lemma map_video_ok:
  "paging_ok t1 p \<Longrightarrow> act \<in> {0, 1, 2} \<Longrightarrow> paging_ok t1 (map_video t1 u cur act MB_132 p)"
  by (simp add: paging_ok_simps map_video_def) auto

lemma remap_term_ok: "paging_ok t1 p \<Longrightarrow> paging_ok t1 (remap_term t p)"
  by (simp add: paging_ok_simps remap_term_def)

lemma remap_term_before_ok: "paging_ok t1 p \<Longrightarrow> paging_ok t1 (remap_term_before t p)"
  by (simp add: paging_ok_simps remap_term_before_def)

lemma drop_take_page [simp]: "drop_bit 12 (take_bit 12 (a :: u32)) = 0" "drop_bit 22 (take_bit 22 a) = 0"
  by (simp_all add: drop_bit_take_bit)

lemma vidmap_address:
  assumes "unat (drop_bit 22 a) = 33" "unat (take_bit 10 (drop_bit 12 (a :: u32))) = 0"
  shows "drop_bit 12 a = 0x8400"
proof -
  have "drop_bit 22 a = 33" "take_bit 10 (drop_bit 12 a) = 0" using assms by (simp_all add: word_unat_eq_iff)
  moreover have "drop_bit 10 (drop_bit 12 a) = drop_bit 22 a" by simp
  ultimately show ?thesis using recombine [of 10 "drop_bit 12 a"] by simp
qed

lemma user_table_entry:
  assumes "tables_ok p" "i < 1024" "bit (tables p i) 0" "bit (tables p i) 2"
  shows "i = 0 \<and> drop_bit 12 (tables p i) \<in> {0xB8, 0xB9, 0xBA, 0xBB}"
proof -
  have "tables p i \<in> {0xB8003, 0xB9003, 0xBA003, 0xBB003}" if "i \<in> {0xB8, 0xB9, 0xBA, 0xBB}"
    using that assms(1) unfolding tables_ok_def term_index_def term_page_def by auto
  then have "i \<notin> {0xB8, 0xB9, 0xBA, 0xBB}" using assms(4) by auto
  then have "i = 0" using assms by (auto simp: tables_ok_def)
  then show ?thesis using assms by (auto simp: tables_ok_def)
qed

lemma user_walk:
  assumes "page_aligned t1" "paging_ok t1 p" "walk t1 t2 p a = Some (f, True)"
  shows "drop_bit 22 a = 32 \<and> f = push_bit 22 (drop_bit 22 (directory p 32)) OR take_bit 22 a \<or>
    drop_bit 12 a = 0x8400 \<and> drop_bit 12 f \<in> {0xB8, 0xB9, 0xBA, 0xBB}"
proof -
  let ?i = "unat (drop_bit 22 a)" and ?j = "unat (take_bit 10 (drop_bit 12 a))"
  have dir: "directory_ok t1 p" and tab: "tables_ok p" using assms(2) by (simp_all add: paging_ok_def)
  have "\<not> (\<not> bit (directory p ?i) 0)" using assms(3) walk_absent by fastforce
  then have "directory p ?i \<noteq> 2" by auto
  then consider "?i = 0" | "?i = 1" | f where "?i = 32" "take_bit 22 f = 0" "directory p 32 = f OR 0x87"
    | "?i = 33" "directory p 33 = t1 OR 7"
    using dir directory_index [of a] unfolding directory_ok_def by fastforce
  then show ?thesis
  proof cases
    case 1
    then show ?thesis using dir assms walk_small [of p a t1 3 t2]
      by (auto simp: directory_ok_def Let_def split: if_splits)
  next
    case 2
    then show ?thesis using dir assms(3) walk_large [of p a "0x400000" "0x83" t1 t2]
      by (simp add: directory_ok_def)
  next
    case (3 g)
    then have "walk t1 t2 p a = Some (g OR take_bit 22 a, True)"
      using walk_large [of p a g "0x87" t1 t2] by simp
    moreover have "push_bit 22 (drop_bit 22 (directory p 32)) = g" using 3 by (simp add: aligned_ident)
    moreover have "drop_bit 22 a = 32" using 3(1) by (simp add: word_unat_eq_iff)
    ultimately show ?thesis using assms(3) by simp
  next
    case 4
    then have "bit (tables p ?j) 0" "bit (tables p ?j) 2"
      "f = push_bit 12 (drop_bit 12 (tables p ?j)) OR take_bit 12 a"
      using assms walk_small [of p a t1 7 t2] by (auto simp: Let_def split: if_splits)
    moreover from this have "?j = 0 \<and> drop_bit 12 (tables p ?j) \<in> {0xB8, 0xB9, 0xBA, 0xBB}"
      by (intro user_table_entry [OF tab table_index_bound])
    moreover have "drop_bit 12 f = drop_bit 12 (tables p ?j)"
      using calculation(3) by (simp only: drop_bit_or drop_push_drop drop_take_page or.right_neutral)
    ultimately have "?j = 0" "drop_bit 12 f \<in> {0xB8, 0xB9, 0xBA, 0xBB}"
      by (metis, metis)
    then show ?thesis using vidmap_address [OF 4(1)] by simp
  qed
qed

subsection \<open>Process pages\<close>

lemma process_page_frame:
  "take_bit 22 (process_page k) = 0" "k < 1023 \<Longrightarrow> drop_bit 22 (process_page k) = k + 1"
proof -
  have eq: "process_page k = push_bit 22 (k + 1)"
    by (simp add: process_page_def push_bit_eq_mult algebra_simps)
  then show "take_bit 22 (process_page k) = 0" by (simp add: take_bit_push_bit)
  assume "k < 1023"
  then have "unat (k + 1) < 1024" by (simp add: unat_plus_one32 word_less_nat_alt)
  then have "unat (drop_bit 10 (k + 1)) = 0" by (simp add: unat_drop32)
  then have "drop_bit (32 - 22) (k + 1) = 0" by (simp add: unat_eq_0)
  then show "drop_bit 22 (process_page k) = k + 1" unfolding eq by (intro drop_push) simp_all
qed

lemma process_walk:
  "walk t1 t2 (remap_paging (process_page k) p) a =
    (if drop_bit 22 a = 32 then Some (process_page k OR take_bit 22 a, True) else walk t1 t2 p a)"
  by (rule remap_walk) (rule process_page_frame)

text \<open>The states of the arrays that arise in the kernel: set up once, then changed by the
  routines with the arguments that the callers pass.\<close>

inductive reachable_paging :: "u32 \<Rightarrow> paging \<Rightarrow> bool" for t1 :: u32 where
  reach_init: "reachable_paging t1 (init_paging d t1 p)"
| reach_remap: "reachable_paging t1 p \<Longrightarrow> reachable_paging t1 (remap_paging (process_page k) p)"
| reach_video: "reachable_paging t1 p \<Longrightarrow> act \<in> {0, 1, 2} \<Longrightarrow> reachable_paging t1 (map_video t1 u cur act MB_132 p)"
| reach_term: "reachable_paging t1 p \<Longrightarrow> reachable_paging t1 (remap_term t p)"
| reach_term_before: "reachable_paging t1 p \<Longrightarrow> reachable_paging t1 (remap_term_before t p)"

lemma reachable_paging_ok: "reachable_paging t1 p \<Longrightarrow> paging_ok t1 p"
  by (induction rule: reachable_paging.induct)
    (simp_all add: init_paging_ok remap_paging_ok map_video_ok remap_term_ok remap_term_before_ok
      process_page_frame)

subsection \<open>Properties\<close>

text \<open>C2: in every state of the page tables that the kernel reaches, user mode can use only the
  four megabytes at 128 MB, which lie in the page last given to \<open>remap_paging\<close>, and the one
  page at 132 MB, which lies in video memory or in a terminal's backing page.  The
  kernel's own pages are never open to it.\<close>

theorem user_isolation:
  assumes "page_aligned t1" and "reachable_paging t1 p" and "walk t1 t2 p a = Some (f, True)"
  shows "drop_bit 22 a = 32 \<and> f = push_bit 22 (drop_bit 22 (directory p 32)) OR take_bit 22 a \<or>
    drop_bit 12 a = 0x8400 \<and> drop_bit 12 f \<in> {0xB8, 0xB9, 0xBA, 0xBB}"
  using assms(1) reachable_paging_ok [OF assms(2)] assms(3) by (rule user_walk)

definition paging_zero :: paging where
  "paging_zero = \<lparr>directory = (\<lambda>_. 0), tables = (\<lambda>_. 0), tables2 = (\<lambda>_. 0), cr0 = 0, cr3 = 0, cr4 = 0\<rparr>"

theorem user_isolation_witness:
  "walk 0x500000 0x501000 (remap_paging (process_page 1) (init_paging 0x4FF000 0x500000 paging_zero)) 0x08048000 =
     Some (0x848000, True) \<and>
   (0x848000 :: u32) = push_bit 22 (drop_bit 22 (directory
     (remap_paging (process_page 1) (init_paging 0x4FF000 0x500000 paging_zero)) 32)) OR take_bit 22 0x08048000"
proof -
  let ?p = "remap_paging (process_page 1) (init_paging 0x4FF000 0x500000 paging_zero)"
  have walk: "walk 0x500000 0x501000 ?p 0x08048000 = Some (0x848000, True)"
    by (subst process_walk) (simp add: process_page_def)
  have "page_aligned 0x500000" by (simp add: page_aligned_def)
  moreover have "reachable_paging 0x500000 ?p" by (intro reach_remap reach_init)
  ultimately show ?thesis using user_isolation [OF _ _ walk] walk by auto
qed

text \<open>\<open>remap_paging\<close> gives process number \<open>k\<close> the whole window at 128 MB, backed by its own
  physical page, and leaves every other translation alone; the windows of two different
  processes never share a physical byte, and none overlaps the first eight megabytes
  (video memory and the kernel).\<close>

theorem process_windows_disjoint:
  assumes "0 < k" "k < 1023" "0 < j" "j < 1023" "j \<noteq> k" "drop_bit 22 a = 32" "drop_bit 22 b = 32"
  shows "\<exists>f g. walk t1 t2 (remap_paging (process_page k) p) a = Some (f, True) \<and>
    walk t1 t2 (remap_paging (process_page j) q) b = Some (g, True) \<and>
    f \<noteq> g \<and> drop_bit 22 f = k + 1 \<and> take_bit 22 f = take_bit 22 a \<and> 0x800000 \<le> f \<and>
    (drop_bit 22 c \<noteq> 32 \<longrightarrow> walk t1 t2 (remap_paging (process_page k) p) c = walk t1 t2 p c)"
proof -
  let ?f = "process_page k OR take_bit 22 a" and ?g = "process_page j OR take_bit 22 b"
  have f: "drop_bit 22 ?f = k + 1" "drop_bit 22 ?g = j + 1"
    using assms by (simp_all add: process_page_frame)
  moreover have "take_bit 22 ?f = take_bit 22 a" by (simp add: process_page_frame)
  moreover have "?f \<noteq> ?g" using f assms(5) by (metis add_right_cancel)
  moreover have "0x800000 \<le> ?f"
  proof -
    have "2 \<le> unat (k + 1)" using assms(1,2) by (simp add: unat_plus_one32 word_less_nat_alt)
    then have "2 \<le> unat ?f div 2 ^ 22" using f(1) unat_drop32 [of 22 ?f] by simp
    then show ?thesis by (simp add: word_le_nat_alt)
  qed
  ultimately show ?thesis using assms(6,7) by (intro exI [of _ ?f] exI [of _ ?g]) (simp add: process_walk)
qed

theorem process_windows_disjoint_witness:
  "\<exists>f g. walk 0 4096 (remap_paging (process_page 1) paging_zero) 0x08000000 = Some (f, True) \<and>
    walk 0 4096 (remap_paging (process_page 2) paging_zero) 0x08000000 = Some (g, True) \<and> f \<noteq> g"
proof -
  have "drop_bit 22 (0x08000000 :: u32) = 32" "0 < (1 :: u32)" "(1 :: u32) < 1023" "0 < (2 :: u32)"
    "(2 :: u32) < 1023" "(2 :: u32) \<noteq> 1" by simp_all
  from process_windows_disjoint [OF this(2,3,4,5,6,1,1), of 0 4096 paging_zero paging_zero 0]
  show ?thesis by (elim exE conjE) (intro exI conjI)
qed

text \<open>After \<open>init_paging\<close> paging is on with four-megabyte pages, the kernel's page and the
  video pages are mapped (the first terminal's page on the screen), nothing else is, and
  nothing is open to user mode.\<close>

theorem init_paging_map:
  assumes "page_aligned t1"
  shows "walk t1 t2 (init_paging d t1 p) a =
      (if drop_bit 22 a = 1 \<or> drop_bit 12 a \<in> {0xB8, 0xBA, 0xBB} then Some (a, False)
       else if drop_bit 12 a = 0xB9 then Some (push_bit 12 0xB8 OR take_bit 12 a, False) else None) \<and>
    cr3 (init_paging d t1 p) = d \<and> bit (cr0 (init_paging d t1 p)) 31 \<and> bit (cr4 (init_paging d t1 p)) 4"
proof -
  have "bit (cr0 (init_paging d t1 p)) 31" "bit (cr4 (init_paging d t1 p)) 4" "cr3 (init_paging d t1 p) = d"
    by (simp_all add: init_paging_def Let_def bit_or_iff)
  then show ?thesis using init_walk [OF assms] by simp
qed

theorem init_paging_map_witness:
  "walk 0x500000 0x501000 (init_paging 0x4FF000 0x500000 paging_zero) 0x401234 = Some (0x401234, False) \<and>
   walk 0x500000 0x501000 (init_paging 0x4FF000 0x500000 paging_zero) 0xB9010 = Some (0xB8010, False) \<and>
   walk 0x500000 0x501000 (init_paging 0x4FF000 0x500000 paging_zero) 0 = None"
proof -
  have "page_aligned 0x500000" by (simp add: page_aligned_def)
  from init_paging_map [OF this, of "0x501000" "0x4FF000" paging_zero "0x401234"]
    init_paging_map [OF this, of "0x501000" "0x4FF000" paging_zero "0xB9010"]
    init_paging_map [OF this, of "0x501000" "0x4FF000" paging_zero 0]
  show ?thesis by simp
qed

end
