(* ===== verification/Port_IO.thy ===== *)
theory Port_IO
  imports Prelude
begin

text \<open>
  Port-mapped I/O: the inline assembly of \<^verbatim>\<open>src/student-distrib/lib.h\<close>.  The processor's side of
  the bus is a trace of the accesses made so far, the latest first.  What a device answers
  to a read is not code of the repository, so it is a parameter \<open>dev\<close> of every routine
  that reads a port: a function of the accesses that came before.  The documented
  behaviour of each chip is stated with its driver, as a named hypothesis on \<open>dev\<close>.
\<close>

datatype io_event = Out u16 u8 | In u16 u8

type_synonym trace = "io_event list"
type_synonym device = "trace \<Rightarrow> u16 \<Rightarrow> u8"

definition outb :: "u32 \<Rightarrow> u16 \<Rightarrow> trace \<Rightarrow> trace" where
  "outb data port tr = Out port (ucast data) # tr"

definition inb :: "device \<Rightarrow> u16 \<Rightarrow> trace \<Rightarrow> u32 \<times> trace" where
  "inb dev port tr = (ucast (dev tr port), In port (dev tr port) # tr)"

definition io_wait :: "trace \<Rightarrow> trace" where
  "io_wait tr = outb 0 0x80 tr"

text \<open>The bytes written to a port, the latest first.\<close>

fun written :: "u16 \<Rightarrow> trace \<Rightarrow> u8 list" where
  "written p [] = []"
| "written p (Out q d # tr) = (if q = p then d # written p tr else written p tr)"
| "written p (In q d # tr) = written p tr"

lemma bit_clear8:
  assumes "b < 8" "k < 8"
  shows "bit (ucast ((ucast (v :: u8) :: u32) AND NOT (2 ^ k)) :: u8) b \<longleftrightarrow> bit v b \<and> b \<noteq> k"
  using assms by (auto simp: bit_simps)

lemma bit_set8:
  assumes "b < 8" "k < 8"
  shows "bit (ucast ((ucast (v :: u8) :: u32) OR 2 ^ k) :: u8) b \<longleftrightarrow> bit v b \<or> b = k"
  using assms by (auto simp: bit_simps)

end
