(* ===== verification/Screen.thy ===== *)
theory Screen
  imports Paging Port_IO "HOL-Library.Monad_Syntax"
begin

text \<open>
  The text console, the second half of \<^verbatim>\<open>src/student-distrib/lib.c\<close>: three terminals that
  share one screen.  A terminal prints through its own virtual page; the page table sends
  the page of the displayed terminal to video memory and the pages of the other two to
  backing pages.  Every access goes through the page walk of \<open>Paging\<close>, and \<open>None\<close> stands for
  the page fault of an access to an absent page.  Buffers of the callers and the strings
  of the kernel are in a separate memory, apart from the video pages.
\<close>

subsection \<open>State and memory accesses\<close>

record console =
  phys :: mem
  pages :: paging
  tables_addr :: u32
  tables2_addr :: u32
  screenX :: "int \<Rightarrow> int"
  screenY :: "int \<Rightarrow> int"
  current_terminal :: int
  active_terminal :: int
  ports :: trace

text \<open>Until paging is switched on, with the highest bit of \<open>cr0\<close>, an address is a physical address.\<close>

definition resolve :: "console \<Rightarrow> u32 \<Rightarrow> u32 option" where
  "resolve s a =
    (if bit (cr0 (pages s)) 31 then map_option fst (walk (tables_addr s) (tables2_addr s) (pages s) a) else Some a)"

definition vload :: "u32 \<Rightarrow> console \<Rightarrow> u8 option" where
  "vload a s = map_option (phys s) (resolve s a)"

definition vstore :: "u32 \<Rightarrow> u8 \<Rightarrow> console \<Rightarrow> console option" where
  "vstore a v s = map_option (\<lambda>f. s\<lparr>phys := (phys s)(f := v)\<rparr>) (resolve s a)"

fun fold_opt :: "('a \<Rightarrow> 's \<Rightarrow> 's option) \<Rightarrow> 'a list \<Rightarrow> 's \<Rightarrow> 's option" where
  "fold_opt f [] s = Some s"
| "fold_opt f (x # xs) s = f x s \<bind> fold_opt f xs"

text \<open>The copy of a block through the page table, byte by byte: \<open>memcpy\<close> from a local array, and
  from one page to another (the source is read first; the two pages are distinct or equal,
  so that the order of the accesses does not matter).\<close>

definition vstore_bytes :: "u32 \<Rightarrow> u8 list \<Rightarrow> console \<Rightarrow> console option" where
  "vstore_bytes a bs s = fold_opt (\<lambda>i. vstore (a + of_nat i) (bs ! i)) [0..<length bs] s"

definition vload_bytes :: "u32 \<Rightarrow> nat \<Rightarrow> console \<Rightarrow> u8 list option" where
  "vload_bytes a n s = those (map (\<lambda>i. vload (a + of_nat i) s) [0..<n])"

definition vcopy :: "u32 \<Rightarrow> u32 \<Rightarrow> nat \<Rightarrow> console \<Rightarrow> console option" where
  "vcopy dst src n s = vload_bytes src n s \<bind> (\<lambda>bs. vstore_bytes dst bs s)"

abbreviation (input) ATTRIB :: u8 where "ATTRIB \<equiv> 0x7"

definition set_cursor :: "int \<Rightarrow> int \<Rightarrow> int \<Rightarrow> console \<Rightarrow> console" where
  "set_cursor t x y s = s\<lparr>screenX := (screenX s)(t := x), screenY := (screenY s)(t := y)\<rparr>"

definition page_arr :: "int \<Rightarrow> u32" where
  "page_arr t = (if t = 0 then FIRST_TERM_VID else if t = 1 then SECOND_TERM_VID else THIRD_TERM_VID)"

subsection \<open>Cursor\<close>

definition update_cursor :: "int \<Rightarrow> int \<Rightarrow> console \<Rightarrow> console" where
  "update_cursor row col s =
    (let position = (of_int (row * 80 + col) :: u16);
         tr = outb 0x0F 0x3D4 (ports s);
         tr = outb (ucast (position AND 0xFF)) 0x3D5 tr;
         tr = outb 0x0E 0x3D4 tr;
         tr = outb (ucast (drop_bit 8 position AND 0xFF)) 0x3D5 tr
     in s\<lparr>ports := tr\<rparr>)"

definition cursor_wrapper :: "int \<Rightarrow> console \<Rightarrow> console" where
  "cursor_wrapper val s =
    (if val = 0 then update_cursor (screenY s (active_terminal s)) (screenX s (active_terminal s)) s
     else update_cursor (screenY s (current_terminal s)) (screenX s (current_terminal s)) s)"

definition get_screen_x :: "int \<Rightarrow> console \<Rightarrow> int" where
  "get_screen_x val s = (if val = 0 then screenX s (active_terminal s) else screenX s (current_terminal s))"

definition get_screen_y :: "int \<Rightarrow> console \<Rightarrow> int" where
  "get_screen_y val s = (if val = 0 then screenY s (active_terminal s) else screenY s (current_terminal s))"

definition get_active_screen_x :: "int \<Rightarrow> console \<Rightarrow> int" where
  "get_active_screen_x active_term s = screenX s active_term"

definition get_active_screen_y :: "int \<Rightarrow> console \<Rightarrow> int" where
  "get_active_screen_y active_term s = screenY s active_term"

definition reset_cursor :: "console \<Rightarrow> console" where
  "reset_cursor s =
    (let s = set_cursor (current_terminal s) 0 0 s
     in update_cursor (screenY s (current_terminal s)) (screenX s (current_terminal s)) s)"

definition set_scroll :: "int \<Rightarrow> console \<Rightarrow> console" where
  "set_scroll i s =
    (let y = i div 80 in set_cursor (current_terminal s) (i - y * 80) y s)"

subsection \<open>Drawing\<close>

definition clear :: "console \<Rightarrow> console option" where
  "clear s = do {
     s \<leftarrow> fold_opt (\<lambda>i s. vstore (VIDEO + 2 * of_nat i) 0x20 s \<bind> vstore (VIDEO + 2 * of_nat i + 1) ATTRIB)
           [0..<2000] s;
     let s = set_cursor (current_terminal s) 0 0 s;
     Some (update_cursor (screenY s (current_terminal s)) (screenX s (current_terminal s)) s)
   }"

text \<open>The body which the three branches of \<open>putc\<close> and \<open>putc_number_2\<close> share, for the page \<open>base\<close>
  and the coordinates of terminal \<open>t\<close>.\<close>

definition put_at :: "u32 \<Rightarrow> int \<Rightarrow> u8 \<Rightarrow> console \<Rightarrow> console option" where
  "put_at base t c s =
    (if c = 10 \<or> c = 13 then Some (set_cursor t 0 (screenY s t + 1) s)
     else do {
       let off = of_int ((80 * screenY s t + screenX s t) * 2);
       s \<leftarrow> vstore (base + off) c s;
       s \<leftarrow> vstore (base + off + 1) ATTRIB s;
       let x = (screenX s t + 1) mod 80;
       Some (set_cursor t x ((screenY s t + x div 80) mod 25) s)
     })"

definition putc :: "u8 \<Rightarrow> console \<Rightarrow> console option" where
  "putc c s =
    (if active_terminal s = 0 then put_at FIRST_TERM_VID (active_terminal s) c s
     else if active_terminal s = 1 then put_at SECOND_TERM_VID (active_terminal s) c s
     else put_at THIRD_TERM_VID (active_terminal s) c s)"

definition putc_number_2 :: "u8 \<Rightarrow> console \<Rightarrow> console option" where
  "putc_number_2 c s = put_at VIDEO (current_terminal s) c s"

partial_function (option) puts_from :: "mem \<Rightarrow> u32 \<Rightarrow> u32 \<Rightarrow> console \<Rightarrow> (u32 \<times> console) option" where
  "puts_from m str index s =
    (if m (str + index) \<noteq> 0 then putc (m (str + index)) s \<bind> puts_from m str (index + 1)
     else Some (index, s))"

definition puts :: "mem \<Rightarrow> u32 \<Rightarrow> console \<Rightarrow> (u32 \<times> console) option" where
  "puts m str s = puts_from m str 0 s"

text \<open>The local array which \<open>scroll\<close> and \<open>scroll_2\<close> fill from the page at \<open>base\<close>: rows 1 to 24
  moved up, a blank last row, and the standard attribute everywhere.\<close>

definition scrolled :: "u32 \<Rightarrow> console \<Rightarrow> u8 list option" where
  "scrolled base s =
    map_option concat (those (map (\<lambda>i.
      if i < 1920 then map_option (\<lambda>c. [c, ATTRIB]) (vload (base + 2 * of_nat (i + 80)) s)
      else Some [0x20, ATTRIB]) [0..<2000]))"

definition scroll :: "console \<Rightarrow> console option" where
  "scroll s = do {
     let t = active_terminal s;
     video_temp \<leftarrow> scrolled (page_arr t) s;
     s \<leftarrow> vstore_bytes (page_arr t) video_temp s;
     Some (set_cursor t 0 23 s)
   }"

definition scroll_2 :: "console \<Rightarrow> console option" where
  "scroll_2 s = do {
     video_temp \<leftarrow> scrolled VIDEO s;
     s \<leftarrow> vstore_bytes VIDEO video_temp s;
     Some (set_cursor (current_terminal s) 0 23 s)
   }"

definition check_screen :: "u8 \<Rightarrow> int \<Rightarrow> int \<Rightarrow> console \<Rightarrow> bool" where
  "check_screen scan line_count inc_or_dec s =
    (if screenX s (current_terminal s) = 0 \<and> 0 < line_count \<and> screenY s (current_terminal s) = 24 \<and> inc_or_dec = 1
     then True
     else scan = 0x1C \<and> screenY s (current_terminal s) = 24)"

definition backspace :: "console \<Rightarrow> console option" where
  "backspace s = do {
     let t = current_terminal s;
     let i = 80 * screenY s t + screenX s t - 1;
     s \<leftarrow> vstore (VIDEO + of_int (i * 2)) 0x20 s;
     Some (if screenX s t = 0
           then if screenY s t > 0 then set_cursor t 79 (screenY s t - 1) s else s
           else set_cursor t (screenX s t - 1) (screenY s t) s)
   }"

text \<open>\<open>control_l\<close> copies \<open>i\<close> characters from the row pointer \<open>row\<close> that it loads from its argument;
  \<open>rd\<close> reads kernel memory, \<open>None\<close> where no page is present.\<close>

definition control_l :: "(u32 \<Rightarrow> u8 option) \<Rightarrow> u32 \<Rightarrow> int \<Rightarrow> console \<Rightarrow> console option" where
  "control_l rd row i s =
    fold_opt (\<lambda>j s. rd (row + of_nat j) \<bind> (\<lambda>c. if c \<noteq> 0 then vstore (VIDEO + 2 * of_nat j) c s else Some s))
      [0..<nat i] s"

definition test_interrupts :: "console \<Rightarrow> console option" where
  "test_interrupts s =
    fold_opt (\<lambda>i s. vload (VIDEO + 2 * of_nat i) s \<bind> (\<lambda>c. vstore (VIDEO + 2 * of_nat i) (c + 1) s)) [0..<2000] s"

subsection \<open>Pages\<close>

definition page_at :: "console \<Rightarrow> u32 \<Rightarrow> u32 \<Rightarrow> bool" where
  "page_at s a f \<longleftrightarrow> (\<forall>off < 4096. resolve s (a + of_nat off) = Some (f + of_nat off))"

text \<open>Where the page of a terminal is: on the screen for the displayed one, in its backing page
  for the others.  \<open>mapped\<close> is the invariant that the page table says so.\<close>

definition frame :: "console \<Rightarrow> int \<Rightarrow> u32" where
  "frame s t = (if t = current_terminal s then VIDEO else term_page t)"

definition mapped :: "console \<Rightarrow> bool" where
  "mapped s \<longleftrightarrow> page_aligned (tables_addr s) \<and> paging_ok (tables_addr s) (pages s) \<and>
    current_terminal s \<in> {0, 1, 2} \<and> active_terminal s \<in> {0, 1, 2} \<and>
    (\<forall>t \<in> {0, 1, 2}. tables (pages s) (term_index t) = frame s t OR 3)"

definition cursor_ok :: "console \<Rightarrow> bool" where
  "cursor_ok s \<longleftrightarrow> (\<forall>t \<in> {0, 1, 2}. 0 \<le> screenX s t \<and> screenX s t < 80 \<and> 0 \<le> screenY s t \<and> screenY s t < 25)"

text \<open>What terminal \<open>t\<close> shows or will show: the 4096 bytes of its page.\<close>

definition screen :: "console \<Rightarrow> int \<Rightarrow> u8 list" where
  "screen s t = load_bytes (phys s) (frame s t) 4096"

lemma resolve_upd [simp]:
  "resolve (s\<lparr>phys := m\<rparr>) = resolve s" "resolve (s\<lparr>ports := tr\<rparr>) = resolve s"
  "resolve (set_cursor t x y s) = resolve s"
  by (simp_all add: resolve_def set_cursor_def fun_eq_iff)

lemma page_at_upd [simp]:
  "page_at (s\<lparr>phys := m\<rparr>) = page_at s" "page_at (set_cursor t x y s) = page_at s"
  by (simp_all add: page_at_def fun_eq_iff)

lemma frame_upd [simp]:
  "frame (s\<lparr>phys := m\<rparr>) = frame s" "frame (s\<lparr>ports := tr\<rparr>) = frame s" "frame (set_cursor t x y s) = frame s"
  by (simp_all add: frame_def set_cursor_def fun_eq_iff)

lemma page_address:
  assumes "i < 1024" "off < 4096"
  shows "drop_bit 12 (push_bit 12 (of_nat i) + of_nat off :: u32) = of_nat i"
    "take_bit 12 (push_bit 12 (of_nat i) + of_nat off :: u32) = of_nat off"
    "unat (push_bit 12 (of_nat i) + of_nat off :: u32) = 4096 * i + off"
proof -
  have a: "push_bit 12 (of_nat i) + of_nat off = (of_nat (4096 * i + off) :: u32)"
    by (simp add: push_bit_eq_mult)
  have u: "unat (of_nat (4096 * i + off) :: u32) = 4096 * i + off"
    using assms by (intro unat_of_nat32) simp
  then show "unat (push_bit 12 (of_nat i) + of_nat off :: u32) = 4096 * i + off" by (simp only: a)
  have "unat (drop_bit 12 (of_nat (4096 * i + off) :: u32)) = i" using assms by (simp only: unat_drop32 u) simp
  then show "drop_bit 12 (push_bit 12 (of_nat i) + of_nat off :: u32) = of_nat i"
    unfolding a by (metis of_nat_unat32)
  have "unat (take_bit 12 (of_nat (4096 * i + off) :: u32)) = off"
    using assms by (simp only: unsigned_take_bit_eq u) (simp add: take_bit_eq_mod)
  then show "take_bit 12 (push_bit 12 (of_nat i) + of_nat off :: u32) = of_nat off"
    unfolding a by (metis of_nat_unat32)
qed

lemma page_or:
  assumes "page_aligned f" "off < 4096"
  shows "f OR of_nat off = f + of_nat off"
proof -
  have "drop_bit 12 (of_nat off :: u32) = 0" using assms(2) by (simp add: word_unat_eq_iff unat_drop32)
  then have "\<not> bit f n \<or> \<not> bit (of_nat off :: u32) n" for n
    using assms(1) drop_zero_bit [of 12 "of_nat off" n] aligned_bit [of 12 f n]
    by (cases "n < 12") (auto simp: page_aligned_def)
  then have "f AND of_nat off = 0" by (intro bit_word_eqI) (auto simp: bit_and_iff)
  then show ?thesis by (simp add: disjunctive_add_eq_or)
qed

lemma walk_page:
  assumes "page_aligned t1" "directory p 0 = t1 OR 3" "i < 1024" "tables p i = f OR 3" "page_aligned f" "off < 4096"
  shows "walk t1 t2 p (push_bit 12 (of_nat i) + of_nat off) = Some (f + of_nat off, False)"
proof -
  let ?a = "push_bit 12 (of_nat i) + of_nat off :: u32"
  have d: "drop_bit 12 ?a = of_nat i" "take_bit 12 ?a = of_nat off" using page_address [OF assms(3,6)] by simp_all
  have "unat (of_nat i :: u32) = i" using assms(3) by (intro unat_of_nat32) simp
  then have "drop_bit 22 ?a = 0" using assms(3) by (intro low_page [OF d(1)]) simp
  moreover from this have "take_bit 10 (drop_bit 12 ?a) = of_nat i" using table_index_low d(1) by metis
  moreover have "push_bit 12 (drop_bit 12 (f OR 3)) = f" "bit (f OR 3) 0"
    using assms(5) by (simp_all add: table_entry aligned_ident page_aligned_def)
  ultimately show ?thesis
    using walk_small [of p ?a t1 3 t2] assms d(2) by (simp add: Let_def page_or)
qed

lemma frame_cases:
  assumes "t \<in> {0, 1, 2}"
  shows "frame s t = VIDEO \<or> frame s t = term_page t" "page_aligned (frame s t)"
  using assms by (auto simp: frame_def term_page_def page_aligned_def)

lemma page_arr_index: "t \<in> {0, 1, 2} \<Longrightarrow> page_arr t = push_bit 12 (of_nat (term_index t))"
  by (auto simp: page_arr_def term_index_def)

lemma page_at_table:
  assumes "page_aligned (tables_addr s)" "paging_ok (tables_addr s) (pages s)" "t \<in> {0, 1, 2}"
    "tables (pages s) (term_index t) = f OR 3" "page_aligned f"
  shows "page_at s (page_arr t) f"
proof -
  have "term_index t < 1024" using assms(3) by (auto simp: term_index_def)
  then have "walk (tables_addr s) (tables2_addr s) (pages s) (push_bit 12 (of_nat (term_index t)) + of_nat off) =
    Some (f + of_nat off, False)" if "off < 4096" for off
    using assms that by (intro walk_page) (simp_all add: paging_ok_def directory_ok_def)
  then show ?thesis using assms(3) assms(2) by (simp add: page_at_def resolve_def page_arr_index paging_ok_def)
qed

lemma page_at_video:
  assumes "page_aligned (tables_addr s)" "paging_ok (tables_addr s) (pages s)"
  shows "page_at s VIDEO VIDEO"
proof -
  have "walk (tables_addr s) (tables2_addr s) (pages s) (push_bit 12 (of_nat 0xB8) + of_nat off) =
    Some (VIDEO + of_nat off, False)" if "off < 4096" for off
    using assms that by (intro walk_page)
      (simp_all add: paging_ok_def directory_ok_def tables_ok_def page_aligned_def)
  then show ?thesis using assms(2) by (simp add: page_at_def resolve_def paging_ok_def)
qed

lemma mapped_page: "mapped s \<Longrightarrow> t \<in> {0, 1, 2} \<Longrightarrow> page_at s (page_arr t) (frame s t)"
  using frame_cases(2) by (intro page_at_table) (simp_all add: mapped_def, blast)

lemma mapped_video: "mapped s \<Longrightarrow> page_at s VIDEO VIDEO"
  by (rule page_at_video) (simp_all add: mapped_def)

lemma vstore_page:
  "page_at s a f \<Longrightarrow> off < 4096 \<Longrightarrow>
   vstore (a + of_nat off) v s = Some (s\<lparr>phys := (phys s)(f + of_nat off := v)\<rparr>)"
  by (simp add: page_at_def vstore_def)

lemma vload_page:
  "page_at s a f \<Longrightarrow> off < 4096 \<Longrightarrow> vload (a + of_nat off) s = Some (phys s (f + of_nat off))"
  by (simp add: page_at_def vload_def)

lemma fold_opt_append: "fold_opt f (xs @ ys) s = fold_opt f xs s \<bind> fold_opt f ys"
  by (induction xs arbitrary: s) (simp_all split: Option.bind_split)

lemma those_map_Some: "(\<And>x. x \<in> set xs \<Longrightarrow> f x = Some (g x)) \<Longrightarrow> those (map f xs) = Some (map g xs)"
  by (induction xs) simp_all

lemma vstore_bytes_page:
  assumes "page_at s a f" "length bs \<le> 4096"
  shows "vstore_bytes a bs s = Some (s\<lparr>phys := store_bytes (phys s) f bs\<rparr>)"
proof -
  have "fold_opt (\<lambda>i. vstore (a + of_nat i) (bs ! i)) [0..<n] s =
    Some (s\<lparr>phys := store_bytes (phys s) f (take n bs)\<rparr>)" if "n \<le> length bs" for n
    using that
  proof (induction n)
    case (Suc n)
    then have "take (Suc n) bs = take n bs @ [bs ! n]" by (simp add: take_Suc_conv_app_nth)
    moreover have "vstore (a + of_nat n) (bs ! n) (s\<lparr>phys := store_bytes (phys s) f (take n bs)\<rparr>) =
      Some (s\<lparr>phys := (store_bytes (phys s) f (take n bs))(f + of_nat n := bs ! n)\<rparr>)"
      using Suc.prems assms by (subst vstore_page) simp_all
    ultimately show ?case using Suc assms(2)
      by (simp add: fold_opt_append store_bytes_snoc fun_upd_def)
  qed (simp add: store_bytes_def)
  from this [of "length bs"] show ?thesis by (simp add: vstore_bytes_def)
qed

lemma vload_bytes_page:
  "page_at s a f \<Longrightarrow> n \<le> 4096 \<Longrightarrow> vload_bytes a n s = Some (load_bytes (phys s) f n)"
  unfolding vload_bytes_def load_bytes_def
  by (rule those_map_Some) (simp add: vload_page)

lemma vcopy_page:
  "page_at s a f \<Longrightarrow> page_at s b g \<Longrightarrow>
   vcopy a b 4096 s = Some (s\<lparr>phys := store_bytes (phys s) f (load_bytes (phys s) g 4096)\<rparr>)"
  by (simp add: vcopy_def vload_bytes_page vstore_bytes_page)

lemma video_pages_disjoint:
  assumes "f \<in> {VIDEO, FIRST_TERM_VID, SECOND_TERM_VID, THIRD_TERM_VID}"
    "g \<in> {VIDEO, FIRST_TERM_VID, SECOND_TERM_VID, THIRD_TERM_VID}" "f \<noteq> g"
  shows "disjoint_regions f 4096 g 4096"
proof (cases "unat f < unat g")
  case True then show ?thesis using assms by (intro disjoint_regionsI) auto
next
  case False
  then have "disjoint_regions g 4096 f 4096" using assms by (intro disjoint_regionsI) auto
  then show ?thesis by (simp add: disjoint_regions_sym)
qed

lemma frame_disjoint:
  "t \<in> {0, 1, 2} \<Longrightarrow> u \<in> {0, 1, 2} \<Longrightarrow> t \<noteq> u \<Longrightarrow> disjoint_regions (frame s t) 4096 (frame s u) 4096"
  by (rule video_pages_disjoint) (auto simp: frame_def term_page_def)

lemma screen_length [simp]: "length (screen s t) = 4096"
  by (simp add: screen_def)

lemma screen_store:
  assumes "t \<in> {0, 1, 2}" "u \<in> {0, 1, 2}" "length bs \<le> 4096"
  shows "screen (s\<lparr>phys := store_bytes (phys s) (frame s t) bs\<rparr>) u =
    (if u = t then bs @ drop (length bs) (screen s t) else screen s u)"
proof (cases "u = t")
  case True
  have "load_bytes (store_bytes (phys s) (frame s t) bs) (frame s t) 4096 = bs @ drop (length bs) (screen s t)"
    using assms(3) by (intro nth_equalityI) (auto simp: store_bytes_apply nth_append screen_def)
  then show ?thesis using True by (simp add: screen_def frame_def)
next
  case False
  have "disjoint_regions (frame s u) 4096 (frame s t) (length bs)"
    using assms(3) by (intro disjoint_regions_mono [OF frame_disjoint [OF assms(2,1) False]]) simp_all
  then have "load_bytes (store_bytes (phys s) (frame s t) bs) (frame s u) 4096 = load_bytes (phys s) (frame s u) 4096"
    using assms(3) by (intro load_bytes_store_disjoint) simp_all
  then show ?thesis using False by (simp add: screen_def frame_def)
qed

lemma screen_poke:
  assumes "t \<in> {0, 1, 2}" "u \<in> {0, 1, 2}" "k < 4096"
  shows "screen (s\<lparr>phys := (phys s)(frame s t + of_nat k := v)\<rparr>) u =
    (if u = t then (screen s t)[k := v] else screen s u)"
proof -
  have eq: "(phys s)(frame s t + of_nat k := v) = store_bytes (phys s) (frame s t) ((screen s t)[k := v])"
    using assms(3) store_bytes_update [of k "screen s t" "phys s" "frame s t" v]
    by (simp add: screen_def)
  have "screen (s\<lparr>phys := store_bytes (phys s) (frame s t) ((screen s t)[k := v])\<rparr>) u =
    (if u = t then (screen s t)[k := v] else screen s u)"
    using assms by (subst screen_store) simp_all
  then show ?thesis by (simp only: eq)
qed

subsection \<open>What a terminal shows\<close>

text \<open>A terminal as its user sees it: the cells of its page and the cursor.  \<open>vput\<close> and
  \<open>vscroll\<close> say what printing a character and scrolling mean there.\<close>

type_synonym tview = "u8 list \<times> int \<times> int"

definition view :: "console \<Rightarrow> int \<Rightarrow> tview" where
  "view s t = (screen s t, screenX s t, screenY s t)"

fun in_range :: "tview \<Rightarrow> bool" where
  "in_range (cells, x, y) \<longleftrightarrow> length cells = 4096 \<and> 0 \<le> x \<and> x < 80 \<and> 0 \<le> y \<and> y < 25"

text \<open>The cell of the cursor lies in the terminal's page: this holds a little below the last row.\<close>

fun on_page :: "tview \<Rightarrow> bool" where
  "on_page (cells, x, y) \<longleftrightarrow> length cells = 4096 \<and> 0 \<le> x \<and> x < 80 \<and> 0 \<le> y \<and> 80 * y + x < 2048"

lemma in_range_on_page: "in_range v \<Longrightarrow> on_page v"
  by (cases v) auto

fun vput :: "u8 \<Rightarrow> tview \<Rightarrow> tview" where
  "vput c (cells, x, y) =
    (if c = 10 \<or> c = 13 then (cells, 0, y + 1)
     else (cells[2 * nat (80 * y + x) := c, 2 * nat (80 * y + x) + 1 := ATTRIB], (x + 1) mod 80, y mod 25))"

definition scroll_cells :: "u8 list \<Rightarrow> u8 list" where
  "scroll_cells cells = concat (map (\<lambda>i. if i < 1920 then [cells ! (2 * (i + 80)), ATTRIB] else [0x20, ATTRIB]) [0..<2000])"

fun vscroll :: "tview \<Rightarrow> tview" where
  "vscroll (cells, x, y) = (scroll_cells cells @ drop 4000 cells, 0, 23)"

text \<open>Only the view of terminal \<open>t\<close> changes, to \<open>v\<close>; the mapping of the pages is kept.\<close>

definition redrawn :: "int \<Rightarrow> tview \<Rightarrow> console \<Rightarrow> console \<Rightarrow> bool" where
  "redrawn t v s s' \<longleftrightarrow> mapped s' \<and> view s' t = v \<and> (\<forall>u \<in> {0, 1, 2}. u \<noteq> t \<longrightarrow> view s' u = view s u) \<and>
    current_terminal s' = current_terminal s \<and> active_terminal s' = active_terminal s \<and> ports s' = ports s"

lemma mapped_upd [simp]:
  "mapped (s\<lparr>phys := m\<rparr>) = mapped s" "mapped (set_cursor t x y s) = mapped s" "mapped (s\<lparr>ports := tr\<rparr>) = mapped s"
  by (simp_all add: mapped_def frame_def set_cursor_def)

lemma view_set_cursor:
  "view (set_cursor t x y s) u = (if u = t then (screen s t, x, y) else view s u)"
  by (simp add: view_def set_cursor_def screen_def frame_def)

lemma redrawn_trans: "redrawn t v s s1 \<Longrightarrow> redrawn t w s1 s2 \<Longrightarrow> redrawn t w s s2"
  by (simp add: redrawn_def)

lemma cell_offset:
  assumes "0 \<le> x" "0 \<le> y" "80 * y + x < 2048"
  shows "of_int ((80 * y + x) * 2) = (of_nat (2 * nat (80 * y + x)) :: u32)" "2 * nat (80 * y + x) + 1 < 4096"
proof -
  have "int (2 * nat (80 * y + x)) = (80 * y + x) * 2" using assms by simp
  then show "of_int ((80 * y + x) * 2) = (of_nat (2 * nat (80 * y + x)) :: u32)" by (metis of_int_of_nat_eq)
  show "2 * nat (80 * y + x) + 1 < 4096" using assms by linarith
qed

lemma put_at_view:
  assumes "mapped s" "t \<in> {0, 1, 2}" "page_at s base (frame s t)" "on_page (view s t)"
  shows "\<exists>s'. put_at base t c s = Some s' \<and> redrawn t (vput c (view s t)) s s'"
proof (cases "c = 10 \<or> c = 13")
  case True
  then show ?thesis
    using assms by (auto simp: put_at_def redrawn_def view_set_cursor)
      (simp_all add: view_def set_cursor_def)
next
  case False
  let ?x = "screenX s t" and ?y = "screenY s t"
  define k where "k = 2 * nat (80 * ?y + ?x)"
  have r: "0 \<le> ?x" "0 \<le> ?y" "80 * ?y + ?x < 2048" using assms(4) by (simp_all add: view_def)
  note off = cell_offset [OF r, folded k_def]
  let ?s1 = "s\<lparr>phys := (phys s)(frame s t + of_nat k := c)\<rparr>"
  let ?s2 = "?s1\<lparr>phys := (phys ?s1)(frame ?s1 t + of_nat (k + 1) := ATTRIB)\<rparr>"
  let ?s3 = "set_cursor t ((?x + 1) mod 80) (?y mod 25) ?s2"
  have 1: "vstore (base + of_nat k) c s = Some ?s1"
    using assms(3) off(2) by (intro vstore_page) simp_all
  have step: "base + of_nat k + 1 = base + of_nat (k + 1)" by simp
  have 2: "vstore (base + of_nat k + 1) ATTRIB ?s1 = Some ?s2"
    unfolding step using assms(3) off(2) by (subst vstore_page) simp_all
  have put: "put_at base t c s = Some ?s3"
    using False unfolding put_at_def off(1) by (simp add: Let_def 1 2 del: of_nat_add of_nat_Suc)
  have "screen ?s2 u = (if u = t then (screen s t)[k := c, k + 1 := ATTRIB] else screen s u)"
    if "u \<in> {0, 1, 2}" for u
    using that assms(2) off(2) screen_poke [OF assms(2) that, of "k + 1" ?s1 ATTRIB]
      screen_poke [OF assms(2) that, of k s c] screen_poke [OF assms(2) assms(2), of k s c] by simp
  then have "redrawn t (vput c (view s t)) s ?s3"
    using assms(1,2) False
    by (simp add: redrawn_def view_set_cursor) (simp add: view_def set_cursor_def k_def)
  with put show ?thesis by blast
qed

lemma putc_view:
  assumes "mapped s" "on_page (view s (active_terminal s))"
  shows "\<exists>s'. putc c s = Some s' \<and> redrawn (active_terminal s) (vput c (view s (active_terminal s))) s s'"
proof -
  have t: "active_terminal s \<in> {0, 1, 2}" using assms(1) by (simp add: mapped_def)
  have "putc c s = put_at (page_arr (active_terminal s)) (active_terminal s) c s"
    by (simp add: putc_def page_arr_def)
  then show ?thesis using put_at_view [OF assms(1) t mapped_page [OF assms(1) t] assms(2)] by simp
qed

lemma putc_number_2_view:
  assumes "mapped s" "on_page (view s (current_terminal s))"
  shows "\<exists>s'. putc_number_2 c s = Some s' \<and> redrawn (current_terminal s) (vput c (view s (current_terminal s))) s s'"
proof -
  have t: "current_terminal s \<in> {0, 1, 2}" using assms(1) by (simp add: mapped_def)
  have "page_at s VIDEO (frame s (current_terminal s))"
    using mapped_video [OF assms(1)] by (simp add: frame_def)
  then show ?thesis using put_at_view [OF assms(1) t _ assms(2)] by (simp add: putc_number_2_def)
qed

lemma scrolled_page:
  assumes "page_at s base f"
  shows "scrolled base s = Some (scroll_cells (load_bytes (phys s) f 4096))"
proof -
  have "vload (base + 2 * of_nat (i + 80)) s = Some (load_bytes (phys s) f 4096 ! (2 * (i + 80)))" if "i < 1920" for i
    using vload_page [OF assms, of "2 * (i + 80)"] that by simp
  then show ?thesis
    unfolding scrolled_def scroll_cells_def by (subst those_map_Some) (auto simp del: upt_rec_numeral)
qed

lemma scroll_cells_length [simp]: "length (scroll_cells cells) = 4000"
proof -
  have "length (concat (map (\<lambda>i. if i < 1920 then [cells ! (2 * (i + 80)), ATTRIB] else [0x20, ATTRIB]) [0..<n])) = 2 * n" for n
    by (induction n) simp_all
  from this [of 2000] show ?thesis unfolding scroll_cells_def by linarith
qed

lemma scroll_at_view:
  assumes "mapped s" "t \<in> {0, 1, 2}" "page_at s base (frame s t)"
  shows "\<exists>s'. (scrolled base s \<bind> (\<lambda>bs. vstore_bytes base bs s \<bind> (\<lambda>s. Some (set_cursor t 0 23 s)))) = Some s' \<and>
    redrawn t (vscroll (view s t)) s s'"
proof -
  let ?bs = "scroll_cells (screen s t)"
  let ?s1 = "s\<lparr>phys := store_bytes (phys s) (frame s t) ?bs\<rparr>"
  have "scrolled base s = Some ?bs" using scrolled_page [OF assms(3)] by (simp add: screen_def)
  moreover have "vstore_bytes base ?bs s = Some ?s1" using assms(3) by (simp add: vstore_bytes_page)
  moreover have "redrawn t (vscroll (view s t)) s (set_cursor t 0 23 ?s1)"
    using assms(1,2) screen_store [OF assms(2), of _ ?bs s]
    by (simp add: redrawn_def view_set_cursor) (simp add: view_def set_cursor_def)
  ultimately show ?thesis by simp
qed

lemma scroll_view:
  assumes "mapped s"
  shows "\<exists>s'. scroll s = Some s' \<and> redrawn (active_terminal s) (vscroll (view s (active_terminal s))) s s'"
proof -
  have t: "active_terminal s \<in> {0, 1, 2}" using assms(1) by (simp add: mapped_def)
  show ?thesis using scroll_at_view [OF assms t mapped_page [OF assms t]] by (simp add: scroll_def Let_def)
qed

lemma scroll_2_view:
  assumes "mapped s"
  shows "\<exists>s'. scroll_2 s = Some s' \<and> redrawn (current_terminal s) (vscroll (view s (current_terminal s))) s s'"
proof -
  have t: "current_terminal s \<in> {0, 1, 2}" using assms(1) by (simp add: mapped_def)
  have "page_at s VIDEO (frame s (current_terminal s))"
    using mapped_video [OF assms(1)] by (simp add: frame_def)
  moreover have "current_terminal s1 = current_terminal s" if "vstore_bytes VIDEO bs s = Some s1" "length bs \<le> 4096" for bs s1
    using that vstore_bytes_page [OF mapped_video [OF assms]] by auto
  ultimately show ?thesis using scroll_at_view [OF assms t]
    by (auto simp: scroll_2_def scrolled_page vstore_bytes_page)
qed

lemma update_cursor_frame [simp]:
  "mapped (update_cursor r c s) = mapped s" "view (update_cursor r c s) = view s"
  "current_terminal (update_cursor r c s) = current_terminal s" "active_terminal (update_cursor r c s) = active_terminal s"
  by (simp_all add: update_cursor_def Let_def view_def screen_def fun_eq_iff)

lemma cursor_wrapper_frame [simp]:
  "mapped (cursor_wrapper v s) = mapped s" "view (cursor_wrapper v s) = view s"
  "current_terminal (cursor_wrapper v s) = current_terminal s" "active_terminal (cursor_wrapper v s) = active_terminal s"
  by (simp_all add: cursor_wrapper_def)

lemma cursor_ok_view: "cursor_ok s \<longleftrightarrow> (\<forall>t \<in> {0, 1, 2}. in_range (view s t))"
  by (simp add: cursor_ok_def view_def)

lemma fold_pairs:
  assumes "page_at s a f" "2 * n \<le> 4096"
  shows "fold_opt (\<lambda>i s. vstore (a + 2 * of_nat i) (c i) s \<bind> vstore (a + 2 * of_nat i + 1) (d i)) [0..<n] s =
    Some (s\<lparr>phys := store_bytes (phys s) f (concat (map (\<lambda>i. [c i, d i]) [0..<n]))\<rparr>)"
  using assms(2)
proof (induction n)
  case (Suc n)
  let ?bs = "concat (map (\<lambda>i. [c i, d i]) [0..<n])"
  have len: "length ?bs = 2 * n" by (induction n) simp_all
  define m where "m = store_bytes (phys s) f ?bs"
  have a: "a + 2 * of_nat n = a + of_nat (2 * n)" "a + of_nat (2 * n) + 1 = a + of_nat (2 * n + 1)" by simp_all
  have 1: "vstore (a + 2 * of_nat n) (c n) (s\<lparr>phys := m\<rparr>) = Some (s\<lparr>phys := m(f + of_nat (2 * n) := c n)\<rparr>)"
    unfolding a(1) using assms(1) Suc.prems by (subst vstore_page) simp_all
  have 2: "vstore (a + 2 * of_nat n + 1) (d n) (s\<lparr>phys := m(f + of_nat (2 * n) := c n)\<rparr>) =
    Some (s\<lparr>phys := m(f + of_nat (2 * n) := c n, f + of_nat (2 * n + 1) := d n)\<rparr>)"
    unfolding a using assms(1) Suc.prems by (subst vstore_page) simp_all
  have "store_bytes (phys s) f ((?bs @ [c n]) @ [d n]) = m(f + of_nat (2 * n) := c n, f + of_nat (2 * n + 1) := d n)"
    unfolding store_bytes_snoc length_append len m_def by simp
  then show ?case
    using Suc 1 2 by (simp add: fold_opt_append m_def fun_upd_def del: of_nat_mult of_nat_add of_nat_Suc)
qed simp

definition blank_cells :: "u8 list" where
  "blank_cells = concat (map (\<lambda>i. [0x20, ATTRIB]) [0..<2000])"

lemma blank_cells_length [simp]: "length blank_cells = 4000"
proof -
  have "length (concat (map (\<lambda>i. [0x20, ATTRIB]) [0..<n])) = 2 * n" for n by (induction n) simp_all
  from this [of 2000] show ?thesis unfolding blank_cells_def by linarith
qed

lemma clear_view:
  assumes "mapped s"
  defines "c \<equiv> current_terminal s"
  shows "\<exists>s' s1. clear s = Some s' \<and> s' = update_cursor 0 0 s1 \<and>
    redrawn c (blank_cells @ drop 4000 (screen s c), 0, 0) s s1"
proof -
  let ?s1 = "set_cursor c 0 0 (s\<lparr>phys := store_bytes (phys s) VIDEO blank_cells\<rparr>)"
  have f: "frame s c = VIDEO" by (simp add: c_def frame_def)
  have t: "c \<in> {0, 1, 2}" using assms(1) by (simp add: c_def mapped_def)
  have blank: "fold_opt (\<lambda>i s. vstore (VIDEO + 2 * of_nat i) 0x20 s \<bind> vstore (VIDEO + 2 * of_nat i + 1) ATTRIB) [0..<2000] s =
      Some (s\<lparr>phys := store_bytes (phys s) VIDEO blank_cells\<rparr>)"
    unfolding blank_cells_def by (rule fold_pairs [OF mapped_video [OF assms(1)]]) simp
  have "clear s = Some (update_cursor 0 0 ?s1)"
    unfolding clear_def blank
    by (simp add: c_def set_cursor_def)
  moreover have "redrawn c (blank_cells @ drop 4000 (screen s c), 0, 0) s ?s1"
    using assms(1) t f screen_store [OF t, of _ blank_cells s]
    by (simp add: redrawn_def view_set_cursor) (simp add: view_def set_cursor_def)
  ultimately show ?thesis by blast
qed

fun vback :: "tview \<Rightarrow> tview" where
  "vback (cells, x, y) =
    (cells[2 * nat (80 * y + x - 1) := 0x20], if x = 0 then 79 else x - 1, if x = 0 then y - 1 else y)"

lemma redrawn_refl: "mapped s \<Longrightarrow> redrawn t (view s t) s s"
  by (simp add: redrawn_def)

lemma backspace_view:
  assumes "mapped s" "in_range (view s (current_terminal s))"
    "\<not> (screenX s (current_terminal s) = 0 \<and> screenY s (current_terminal s) = 0)"
  shows "\<exists>s'. backspace s = Some s' \<and> redrawn (current_terminal s) (vback (view s (current_terminal s))) s s'"
proof -
  let ?t = "current_terminal s"
  let ?x = "screenX s ?t" and ?y = "screenY s ?t"
  have t: "?t \<in> {0, 1, 2}" using assms(1) by (simp add: mapped_def)
  have r: "0 \<le> ?x" "?x < 80" "0 \<le> ?y" "?y < 25" using assms(2) by (simp_all add: view_def)
  define k where "k = 2 * nat (80 * ?y + ?x - 1)"
  have i: "0 \<le> 80 * ?y + ?x - 1" using r assms(3) by linarith
  have k: "k < 4096" using r by (simp add: k_def)
  have "int k = (80 * ?y + ?x - 1) * 2" using i by (simp add: k_def)
  then have off: "of_int ((80 * ?y + ?x - 1) * 2) = (of_nat k :: u32)" by (metis of_int_of_nat_eq)
  let ?s1 = "s\<lparr>phys := (phys s)(frame s ?t + of_nat k := 0x20)\<rparr>"
  have "page_at s VIDEO (frame s ?t)" using mapped_video [OF assms(1)] by (simp add: frame_def)
  then have store: "vstore (VIDEO + of_nat k) 0x20 s = Some ?s1" using k by (intro vstore_page)
  have scr: "screen ?s1 u = (if u = ?t then (screen s ?t)[k := 0x20] else screen s u)" if "u \<in> {0, 1, 2}" for u
    by (rule screen_poke [OF t that k])
  show ?thesis
  proof (cases "?x = 0")
    case True
    then have y: "?y > 0" using r assms(3) by simp
    have "backspace s = Some (set_cursor ?t 79 (?y - 1) ?s1)"
      using True y unfolding backspace_def Let_def off store by simp
    moreover have "redrawn ?t (vback (view s ?t)) s (set_cursor ?t 79 (?y - 1) ?s1)"
      using assms(1) t True scr by (simp add: redrawn_def view_set_cursor) (simp add: view_def set_cursor_def k_def)
    ultimately show ?thesis by blast
  next
    case False
    have "backspace s = Some (set_cursor ?t (?x - 1) ?y ?s1)"
      using False unfolding backspace_def Let_def off store by simp
    moreover have "redrawn ?t (vback (view s ?t)) s (set_cursor ?t (?x - 1) ?y ?s1)"
      using assms(1) t False scr by (simp add: redrawn_def view_set_cursor) (simp add: view_def set_cursor_def k_def)
    ultimately show ?thesis by blast
  qed
qed

text \<open>At the top left corner the cell before the cursor is in the page below video memory, which
  is absent.\<close>

lemma backspace_faults:
  assumes "mapped s" "screenX s (current_terminal s) = 0" "screenY s (current_terminal s) = 0"
  shows "backspace s = None"
proof -
  let ?a = "VIDEO + of_int ((80 * 0 + 0 - 1) * 2) :: u32"
  have tab: "tables_ok (pages s)" and dir: "directory_ok (tables_addr s) (pages s)" and al: "page_aligned (tables_addr s)"
    using assms(1) by (simp_all add: mapped_def paging_ok_def)
  have "unat (drop_bit 22 ?a) = 0" "unat (take_bit 10 (drop_bit 12 ?a)) = 0xB7" by simp_all
  moreover have "\<not> bit (tables (pages s) 0xB7) 0" using tab by (simp add: tables_ok_def)
  ultimately have "walk (tables_addr s) (tables2_addr s) (pages s) ?a = None"
    using walk_small [of "pages s" ?a "tables_addr s" 3 "tables2_addr s"] dir al
    by (simp add: directory_ok_def Let_def)
  then have "vstore ?a 0x20 s = None"
    using assms(1) unfolding vstore_def resolve_def mapped_def paging_ok_def by simp
  then show ?thesis using assms(2,3) by (simp add: backspace_def Let_def)
qed

end
