(* ===== verification/Terminal.thy ===== *)
theory Terminal
  imports Screen
begin

text \<open>
  The terminal half of \<^verbatim>\<open>src/student-distrib/keyboard.c\<close>: the driver's variables, reading a line,
  writing text, and switching the displayed terminal.  Writing is shown to refine a
  description of a terminal as its cells and cursor; switching is shown to keep what
  every terminal shows.
\<close>

subsection \<open>The driver's variables\<close>

record kbd =
  con :: console
  caps_flag :: int
  right_shift_flag :: int
  left_shift_flag :: int
  control_flag :: int
  ent_flag :: "int \<Rightarrow> int"
  inc_or_dec :: int
  ctrl_4_flag :: int
  alt_flag :: int
  putc_flag :: int
  buffer :: "int \<Rightarrow> u8 list"
  read_buf :: "u8 list"
  line_count :: "int \<Rightarrow> int"
  term_2_flag :: int
  term_3_flag :: int
  rtc_test :: int
  test_i :: int
  test_k :: int

subsection \<open>Writing\<close>

definition replace_nul :: "mem \<Rightarrow> u32 \<Rightarrow> nat \<Rightarrow> mem" where
  "replace_nul m ptr n =
    fold (\<lambda>i m. if m (ptr + of_nat i) = 0 then m(ptr + of_nat i := 0x20) else m) [0..<n] m"

text \<open>The loop of \<open>terminal_write\<close>: \<open>n\<close> bytes are left and \<open>j\<close> have been written.\<close>

primrec write_loop :: "mem \<Rightarrow> u32 \<Rightarrow> nat \<Rightarrow> nat \<Rightarrow> console \<Rightarrow> (nat \<times> console) option" where
  "write_loop m ptr 0 j s = Some (j, s)"
| "write_loop m ptr (Suc n) j s =
    (let x = get_screen_x 0 s; y = get_screen_y 0 s; c = m (ptr + of_nat j) in
     if x = 79 \<and> y = 24 \<and> c \<noteq> 10 \<and> c \<noteq> 0 then
       do { s \<leftarrow> putc c s; s \<leftarrow> scroll s; s \<leftarrow> putc 10 s; write_loop m ptr n (Suc j) s }
     else if x = 79 \<and> y = 24 \<and> c = 10 then
       do { s \<leftarrow> scroll s; s \<leftarrow> putc c s; write_loop m ptr n (Suc j) s }
     else if y = 24 \<and> c = 10 then
       do { s \<leftarrow> scroll s; s \<leftarrow> putc c s; write_loop m ptr n (Suc j) s }
     else if x = 79 \<and> c = 10 then
       do { s \<leftarrow> putc c s; write_loop m ptr n (Suc j) s }
     else if x = 79 then
       do { s \<leftarrow> putc c s; s \<leftarrow> putc 10 s; write_loop m ptr n (Suc j) s }
     else if c = 10 then
       do { s \<leftarrow> putc 10 s; write_loop m ptr n (Suc j) s }
     else if c = 0 then Some (j, s)
     else
       do { s \<leftarrow> putc c s; write_loop m ptr n (Suc j) s })"

definition terminal_write :: "mem \<Rightarrow> int \<Rightarrow> u32 \<Rightarrow> int \<Rightarrow> console \<Rightarrow> (int \<times> mem \<times> console) option" where
  "terminal_write m fd buf nbytes s =
    (if buf = 0 then Some (-1, m, s)
     else do {
       let m = replace_nul m buf (nat nbytes);
       (j, s) \<leftarrow> write_loop m buf (nat nbytes) 0 s;
       Some (int j, m, cursor_wrapper 0 s)
     })"

subsection \<open>Reading\<close>

text \<open>\<open>terminal_read\<close> polls the enter flag of the running terminal, which the keyboard handler sets.
  \<open>enter i\<close> is the state in which the \<open>i\<close>-th test of the flag finds the driver: the handler
  and the scheduler run in between.\<close>

partial_function (option) wait_enter :: "(nat \<Rightarrow> kbd) \<Rightarrow> nat \<Rightarrow> (nat \<times> kbd) option" where
  "wait_enter enter i =
    (let k = enter i; t = active_terminal (con k) in
     if ent_flag k t = 1 then Some (i, k\<lparr>ent_flag := (ent_flag k)(t := 0)\<rparr>)
     else wait_enter enter (Suc i))"

text \<open>The line copied to the caller: \<open>read[j]\<close> for \<open>j < nbytes\<close>.  The array has 128 bytes; \<open>beyond\<close> is
  what lies behind it.\<close>

definition read_at :: "(nat \<Rightarrow> u8) \<Rightarrow> kbd \<Rightarrow> nat \<Rightarrow> u8" where
  "read_at beyond k j = (if j < 128 then read_buf k ! j else beyond j)"

definition copy_line :: "(nat \<Rightarrow> u8) \<Rightarrow> mem \<Rightarrow> u32 \<Rightarrow> int \<Rightarrow> kbd \<Rightarrow> int \<times> mem \<times> kbd" where
  "copy_line beyond m ptr nbytes k =
    (let m = fold (\<lambda>j m. m(ptr + of_nat j := 0)) [0..<128] m;
         m = fold (\<lambda>j m. m(ptr + of_nat j := read_at beyond k j)) [0..<nat nbytes] m
     in (128, m, k\<lparr>read_buf := replicate 128 0\<rparr>))"

definition terminal_read :: "(nat \<Rightarrow> u8) \<Rightarrow> (nat \<Rightarrow> kbd) \<Rightarrow> mem \<Rightarrow> int \<Rightarrow> u32 \<Rightarrow> int \<Rightarrow> (int \<times> mem \<times> kbd) option" where
  "terminal_read beyond enter m fd buf nbytes =
    (if buf = 0 then Some (-1, m, enter 0)
     else do {
       (_, k) \<leftarrow> wait_enter enter 0;
       Some (copy_line beyond m buf nbytes k)
     })"

definition terminal_open :: "u32 \<Rightarrow> kbd \<Rightarrow> int \<times> kbd" where
  "terminal_open filename k = (0, k)"

definition terminal_close :: "int \<Rightarrow> kbd \<Rightarrow> int \<times> kbd" where
  "terminal_close fd k = (0, k)"

definition stdin_write :: int where "stdin_write = -1"

definition stdout_read :: int where "stdout_read = -1"

text \<open>\<open>remove_exit\<close>, \<open>remove_hello\<close> and \<open>remove_testprint\<close> cut the character that follows a known
  command; they differ in the command only.\<close>

definition remove_after :: "u8 list \<Rightarrow> mem \<Rightarrow> u32 \<Rightarrow> mem" where
  "remove_after compare m buf =
    (if \<forall>i \<in> set [0..<length compare]. compare ! i = m (buf + of_nat i)
     then m(buf + of_nat (length compare) := 0) else m)"

definition remove_exit :: "mem \<Rightarrow> u32 \<Rightarrow> mem" where
  "remove_exit m buf = remove_after [101, 120, 105, 116] m buf"

definition remove_hello :: "mem \<Rightarrow> u32 \<Rightarrow> mem" where
  "remove_hello m buf = remove_after [104, 101, 108, 108, 111] m buf"

definition remove_testprint :: "mem \<Rightarrow> u32 \<Rightarrow> mem" where
  "remove_testprint m buf = remove_after [116, 101, 115, 116, 112, 114, 105, 110, 116] m buf"

subsection \<open>Switching\<close>

text \<open>The part which the three switching routines share: save the screen in the page of the
  displayed terminal, show the page of the new one, and swap the page table entries.\<close>

definition switch_screens :: "int \<Rightarrow> console \<Rightarrow> console option" where
  "switch_screens target s = do {
     let s = s\<lparr>pages := remap_term_before (current_terminal s) (pages s)\<rparr>;
     s \<leftarrow> (if current_terminal s = 0 then vcopy FIRST_TERM_VID VIDEO 4096 s
           else if current_terminal s = 1 then vcopy SECOND_TERM_VID VIDEO 4096 s
           else if current_terminal s = 2 then vcopy THIRD_TERM_VID VIDEO 4096 s
           else Some s);
     let s = s\<lparr>current_terminal := target\<rparr>;
     s \<leftarrow> (if current_terminal s = 0 then vcopy VIDEO FIRST_TERM_VID 4096 s
           else if current_terminal s = 1 then vcopy VIDEO SECOND_TERM_VID 4096 s
           else if current_terminal s = 2 then vcopy VIDEO THIRD_TERM_VID 4096 s
           else Some s);
     Some (s\<lparr>pages := remap_term (current_terminal s) (pages s)\<rparr>)
   }"

definition first_terminal_switch :: "kbd \<Rightarrow> kbd option" where
  "first_terminal_switch k = map_option (\<lambda>s. k\<lparr>con := s\<rparr>) (switch_screens 0 (con k))"

text \<open>The other two refuse the switch when no process is left for a new shell: \<open>uc\<close> is the value of
  \<open>universal_count()\<close> and \<open>message\<close> the string at \<open>msg\<close>, of length \<open>len\<close>.  The flag returned says that the routine
  goes on to execute a shell on the new terminal.\<close>

definition second_terminal_switch :: "int \<Rightarrow> u32 \<Rightarrow> int \<Rightarrow> mem \<Rightarrow> kbd \<Rightarrow> (bool \<times> mem \<times> kbd) option" where
  "second_terminal_switch uc msg len m k =
    (if uc = 0 \<and> term_2_flag k = 0 then do {
       (_, m, s) \<leftarrow> terminal_write m 0 msg len (con k);
       Some (False, m, k\<lparr>con := s\<rparr>)
     } else do {
       s \<leftarrow> switch_screens 1 (con k);
       if term_2_flag k = 0 then
         Some (True, m, k\<lparr>con := (reset_cursor s)\<lparr>active_terminal := current_terminal s\<rparr>, term_2_flag := 1\<rparr>)
       else Some (False, m, k\<lparr>con := s\<rparr>)
     })"

definition third_terminal_switch :: "int \<Rightarrow> u32 \<Rightarrow> int \<Rightarrow> mem \<Rightarrow> kbd \<Rightarrow> (bool \<times> mem \<times> kbd) option" where
  "third_terminal_switch uc msg len m k =
    (if uc = 0 \<and> term_3_flag k = 0 then do {
       (_, m, s) \<leftarrow> terminal_write m 0 msg len (con k);
       Some (False, m, k\<lparr>con := s\<rparr>)
     } else do {
       s \<leftarrow> switch_screens 2 (con k);
       if term_3_flag k = 0 then
         Some (True, m, k\<lparr>con := (reset_cursor s)\<lparr>active_terminal := current_terminal s\<rparr>, term_3_flag := 1\<rparr>)
       else Some (False, m, k\<lparr>con := s\<rparr>)
     })"

definition get_active_term :: "console \<Rightarrow> int" where
  "get_active_term s = active_terminal s"

definition change_active_term :: "int \<Rightarrow> console \<Rightarrow> console" where
  "change_active_term temp_term s = s\<lparr>active_terminal := temp_term\<rparr>"

definition get_current_term :: "console \<Rightarrow> int" where
  "get_current_term s = current_terminal s"

subsection \<open>Writing refines the description of a terminal\<close>

text \<open>What printing one byte of text means for a terminal: a line feed goes to the next line, a
  character in the last column goes on to the next line, and at the bottom the screen
  scrolls first.\<close>

fun vchar :: "u8 \<Rightarrow> tview \<Rightarrow> tview" where
  "vchar c (cells, x, y) =
    (if c = 10 then (if y = 24 then vput 10 (vscroll (cells, x, y)) else vput 10 (cells, x, y))
     else if x = 79 \<and> y = 24 then vput 10 (vscroll (vput c (cells, x, y)))
     else if x = 79 then vput 10 (vput c (cells, x, y))
     else vput c (cells, x, y))"

definition printable :: "u8 \<Rightarrow> u8" where
  "printable c = (if c = 0 then 0x20 else c)"

lemma vscroll_in_range: "in_range v \<Longrightarrow> in_range (vscroll v)"
  by (cases v) auto

lemma vput_in_range: "in_range (cells, x, y) \<Longrightarrow> c \<noteq> 10 \<Longrightarrow> c \<noteq> 13 \<Longrightarrow> in_range (vput c (cells, x, y))"
  by simp

lemma vchar_in_range: "in_range v \<Longrightarrow> c \<noteq> 13 \<Longrightarrow> in_range (vchar c v)"
proof (cases v)
  case (fields cells x y)
  assume "in_range v" "c \<noteq> 13"
  then show ?thesis using fields by auto
qed

lemma redrawn_in:
  "redrawn t v s s' \<Longrightarrow> active_terminal s' = active_terminal s \<and> mapped s' \<and> view s' t = v"
  by (simp add: redrawn_def)

lemma putc_then:
  assumes "mapped s" "in_range (view s (active_terminal s))"
    "\<And>s'. redrawn (active_terminal s) (vput c (view s (active_terminal s))) s s' \<Longrightarrow>
       \<exists>s''. f s' = Some s'' \<and> redrawn (active_terminal s) w s' s''"
  shows "\<exists>s''. (putc c s \<bind> f) = Some s'' \<and> redrawn (active_terminal s) w s s''"
  using putc_view [OF assms(1) in_range_on_page [OF assms(2)], of c] assms(3) redrawn_trans by fastforce

lemma scroll_then:
  assumes "mapped s"
    "\<And>s'. redrawn (active_terminal s) (vscroll (view s (active_terminal s))) s s' \<Longrightarrow>
       \<exists>s''. f s' = Some s'' \<and> redrawn (active_terminal s) w s' s''"
  shows "\<exists>s''. (scroll s \<bind> f) = Some s'' \<and> redrawn (active_terminal s) w s s''"
  using scroll_view [OF assms(1)] assms(2) redrawn_trans by fastforce

text \<open>One round of the loop, without the recursive call.\<close>

definition write_char :: "u8 \<Rightarrow> console \<Rightarrow> console option" where
  "write_char c s =
    (let x = get_screen_x 0 s; y = get_screen_y 0 s in
     if x = 79 \<and> y = 24 \<and> c \<noteq> 10 then putc c s \<bind> (\<lambda>s. scroll s \<bind> putc 10)
     else if y = 24 \<and> c = 10 then scroll s \<bind> putc c
     else if x = 79 \<and> c \<noteq> 10 then putc c s \<bind> putc 10
     else putc c s)"

lemma write_loop_step:
  "m (ptr + of_nat j) \<noteq> 0 \<Longrightarrow>
   write_loop m ptr (Suc n) j s = write_char (m (ptr + of_nat j)) s \<bind> write_loop m ptr n (Suc j)"
  by (simp add: write_char_def Let_def)

lemma write_char_view:
  assumes "mapped s" "in_range (view s (active_terminal s))" "c \<noteq> 13"
  shows "\<exists>s'. write_char c s = Some s' \<and> redrawn (active_terminal s) (vchar c (view s (active_terminal s))) s s'"
proof -
  let ?t = "active_terminal s"
  obtain cells x y where v: "view s ?t = (cells, x, y)" by (cases "view s ?t")
  then have xy: "get_screen_x 0 s = x" "get_screen_y 0 s = y"
    by (simp_all add: view_def get_screen_x_def get_screen_y_def)
  note range = assms(2) [unfolded v]
  have last: "\<exists>s''. putc 10 s' = Some s'' \<and> redrawn ?t (vput 10 w) s' s''"
    if "redrawn ?t w s s'" "in_range w" for s' w
    using putc_view [of s' 10] redrawn_in [OF that(1)] in_range_on_page [OF that(2)] by simp
  have mid: "\<exists>s''. (scroll s' \<bind> putc 10) = Some s'' \<and> redrawn ?t (vput 10 (vscroll w)) s' s''"
    if r: "redrawn ?t w s s'" and w: "in_range w" for s' w
  proof -
    obtain s1 where s1: "scroll s' = Some s1" "redrawn ?t (vscroll w) s' s1"
      using scroll_view [of s'] redrawn_in [OF r] by auto
    obtain s2 where "putc 10 s1 = Some s2" "redrawn ?t (vput 10 (vscroll w)) s1 s2"
      using last [OF redrawn_trans [OF r s1(2)] vscroll_in_range [OF w]] by blast
    then have "(scroll s' \<bind> putc 10) = Some s2" "redrawn ?t (vput 10 (vscroll w)) s' s2"
      using s1 redrawn_trans by (simp, blast)
    then show ?thesis by blast
  qed
  consider "c = 10" "y = 24" | "c = 10" "y \<noteq> 24" | "c \<noteq> 10" "x = 79" "y = 24" | "c \<noteq> 10" "x = 79" "y \<noteq> 24"
    | "c \<noteq> 10" "x \<noteq> 79" by blast
  then show ?thesis
  proof cases
    case 1
    then show ?thesis
      using scroll_then [OF assms(1), of "putc 10" "vput 10 (vscroll (cells, x, y))"] last vscroll_in_range [OF range]
      by (simp add: write_char_def xy v del: vput.simps vscroll.simps)
  next
    case 2
    then show ?thesis using putc_view [OF assms(1) in_range_on_page [OF assms(2)], of 10] by (simp add: write_char_def xy v)
  next
    case 3
    then show ?thesis
      using putc_then [OF assms(1,2), of c "\<lambda>s. scroll s \<bind> putc 10" "vput 10 (vscroll (vput c (cells, x, y)))"]
        mid vput_in_range [OF range 3(1) assms(3)] by (simp add: write_char_def xy v del: vput.simps vscroll.simps)
  next
    case 4
    then show ?thesis
      using putc_then [OF assms(1,2), of c "putc 10" "vput 10 (vput c (cells, x, y))"]
        last vput_in_range [OF range 4(1) assms(3)] by (simp add: write_char_def xy v del: vput.simps)
  next
    case 5
    then show ?thesis using putc_view [OF assms(1) in_range_on_page [OF assms(2)], of c] by (simp add: write_char_def xy v)
  qed
qed

lemma write_loop_view:
  assumes "mapped s" "in_range (view s (active_terminal s))"
    "\<forall>i < n. m (ptr + of_nat (j + i)) \<noteq> 0 \<and> m (ptr + of_nat (j + i)) \<noteq> 13"
  shows "\<exists>s'. write_loop m ptr n j s = Some (j + n, s') \<and>
    redrawn (active_terminal s) (fold vchar (map (\<lambda>i. m (ptr + of_nat (j + i))) [0..<n]) (view s (active_terminal s))) s s'"
  using assms
proof (induction n arbitrary: j s)
  case 0
  then show ?case by (simp add: redrawn_def)
next
  case (Suc n)
  let ?t = "active_terminal s" and ?c = "m (ptr + of_nat j)"
  have c: "?c \<noteq> 0" "?c \<noteq> 13" using Suc.prems(3) by (auto dest: spec [of _ 0])
  obtain s1 where s1: "write_char ?c s = Some s1" "redrawn ?t (vchar ?c (view s ?t)) s s1"
    using write_char_view [OF Suc.prems(1,2) c(2)] by blast
  note in1 = redrawn_in [OF s1(2)]
  have rest: "\<forall>i < n. m (ptr + of_nat (Suc j + i)) \<noteq> 0 \<and> m (ptr + of_nat (Suc j + i)) \<noteq> 13"
  proof (intro allI impI)
    fix i assume "i < n"
    then show "m (ptr + of_nat (Suc j + i)) \<noteq> 0 \<and> m (ptr + of_nat (Suc j + i)) \<noteq> 13"
      using Suc.prems(3) [rule_format, of "Suc i"] by simp
  qed
  have "in_range (view s1 (active_terminal s1))"
    using in1 vchar_in_range [OF Suc.prems(2) c(2)] by simp
  from Suc.IH [OF _ this rest] in1 obtain s2 where s2:
    "write_loop m ptr n (Suc j) s1 = Some (Suc j + n, s2)"
    "redrawn ?t (fold vchar (map (\<lambda>i. m (ptr + of_nat (Suc j + i))) [0..<n]) (vchar ?c (view s ?t))) s1 s2"
    by auto
  have "map (\<lambda>i. m (ptr + of_nat (j + i))) [0..<Suc n] = ?c # map (\<lambda>i. m (ptr + of_nat (Suc j + i))) [0..<n]"
    by (simp add: upt_conv_Cons map_Suc_upt [symmetric] add.left_commute del: upt_Suc)
  then show ?case
    using s1 s2 redrawn_trans [OF s1(2) s2(2)] write_loop_step [of m ptr j, OF c(1), of n s]
    by (intro exI [of _ s2]) (simp del: write_loop.simps)
qed

lemma printable_cases: "printable 0 = 0x20" "c \<noteq> 0 \<Longrightarrow> printable c = c"
  by (simp_all add: printable_def)

lemma replace_nul_eq:
  assumes "n \<le> 2 ^ 32"
  shows "replace_nul m ptr n = store_bytes m ptr (map printable (load_bytes m ptr n))"
  using assms
proof (induction n)
  case (Suc n)
  let ?m = "store_bytes m ptr (map printable (load_bytes m ptr n))"
  have at: "?m (ptr + of_nat n) = m (ptr + of_nat n)"
    using Suc.prems by (simp add: store_bytes_apply)
  have "replace_nul m ptr (Suc n) = (let m' = replace_nul m ptr n in
      if m' (ptr + of_nat n) = 0 then m'(ptr + of_nat n := 0x20) else m')"
    by (simp add: replace_nul_def)
  also have "\<dots> = ?m(ptr + of_nat n := printable (m (ptr + of_nat n)))"
    using Suc at by (cases "m (ptr + of_nat n) = 0") (auto simp: printable_cases Let_def)
  also have "\<dots> = store_bytes m ptr (map printable (load_bytes m ptr n) @ [printable (m (ptr + of_nat n))])"
    by (simp only: store_bytes_snoc length_map length_load_bytes)
  finally show ?case by (simp add: load_bytes_def)
qed (simp add: replace_nul_def)

lemma printable_facts [simp]: "printable c \<noteq> 0" "printable c = 13 \<longleftrightarrow> c = 13"
  by (auto simp: printable_def)

lemma terminal_write_view:
  assumes "mapped s" "in_range (view s (active_terminal s))" "buf \<noteq> 0" "nbytes < 2 ^ 31"
    "13 \<notin> set (load_bytes m buf (nat nbytes))"
  defines "bs \<equiv> map printable (load_bytes m buf (nat nbytes))"
  shows "\<exists>s' s1. terminal_write m fd buf nbytes s = Some (max 0 nbytes, store_bytes m buf bs, s') \<and>
    s' = cursor_wrapper 0 s1 \<and>
    redrawn (active_terminal s) (fold vchar bs (view s (active_terminal s))) s s1"
proof -
  let ?n = "nat nbytes" and ?m = "store_bytes m buf bs"
  have n: "?n \<le> 2 ^ 32" "?n < 2 ^ 32" using assms(4) by simp_all
  have len: "length bs = ?n" by (simp add: bs_def)
  have at: "?m (buf + of_nat i) = bs ! i" if "i < ?n" for i
    using that n len by (simp add: store_bytes_apply)
  have "\<forall>i < ?n. ?m (buf + of_nat (0 + i)) \<noteq> 0 \<and> ?m (buf + of_nat (0 + i)) \<noteq> 13"
  proof (intro allI impI)
    fix i assume i: "i < ?n"
    then have "bs ! i = printable (load_bytes m buf ?n ! i)" by (simp add: bs_def)
    moreover have "load_bytes m buf ?n ! i \<noteq> 13" using i assms(5) nth_mem [of i "load_bytes m buf ?n"] by auto
    ultimately show "?m (buf + of_nat (0 + i)) \<noteq> 0 \<and> ?m (buf + of_nat (0 + i)) \<noteq> 13" using at [OF i] by simp
  qed
  from write_loop_view [OF assms(1,2) this] obtain s1 where s1:
    "write_loop ?m buf ?n 0 s = Some (?n, s1)"
    "redrawn (active_terminal s) (fold vchar (map (\<lambda>i. ?m (buf + of_nat (0 + i))) [0..<?n]) (view s (active_terminal s))) s s1"
    by auto
  moreover have "map (\<lambda>i. ?m (buf + of_nat (0 + i))) [0..<?n] = bs"
    using at len by (intro nth_equalityI) simp_all
  ultimately have "redrawn (active_terminal s) (fold vchar bs (view s (active_terminal s))) s s1" by simp
  moreover have "terminal_write m fd buf nbytes s = Some (max 0 nbytes, ?m, cursor_wrapper 0 s1)"
    using assms(3) s1(1) by (simp add: terminal_write_def replace_nul_eq [OF n(1)] bs_def)
  ultimately show ?thesis by blast
qed

subsection \<open>Switching keeps what every terminal shows\<close>

text \<open>Between the two page table updates every terminal page is its own backing page.\<close>

definition own_pages :: "console \<Rightarrow> bool" where
  "own_pages s \<longleftrightarrow> page_aligned (tables_addr s) \<and> paging_ok (tables_addr s) (pages s) \<and>
    (\<forall>t \<in> {0, 1, 2}. tables (pages s) (term_index t) = term_page t OR 3)"

lemma own_pages_upd [simp]:
  "own_pages (s\<lparr>phys := m\<rparr>) = own_pages s" "own_pages (s\<lparr>current_terminal := t\<rparr>) = own_pages s"
  by (simp_all add: own_pages_def)

lemma own_page_at:
  assumes "own_pages s"
  shows "t \<in> {0, 1, 2} \<Longrightarrow> page_at s (term_page t) (term_page t)" "page_at s VIDEO VIDEO"
proof -
  show "page_at s VIDEO VIDEO" using assms by (intro page_at_video) (simp_all add: own_pages_def)
  assume t: "t \<in> {0, 1, 2}"
  then have "page_at s (page_arr t) (term_page t)"
    using assms by (intro page_at_table) (auto simp: own_pages_def term_page_def page_aligned_def)
  then show "page_at s (term_page t) (term_page t)" by (simp add: page_arr_def term_page_def)
qed

lemma remap_before_own:
  assumes "mapped s"
  shows "own_pages (s\<lparr>pages := remap_term_before (current_terminal s) (pages s)\<rparr>)"
proof -
  have c: "current_terminal s \<in> {0, 1, 2}" using assms by (simp add: mapped_def)
  have "tables (remap_term_before (current_terminal s) (pages s)) (term_index t) = term_page t OR 3"
    if "t \<in> {0, 1, 2}" for t
    using that c assms by (auto simp: mapped_def frame_def remap_term_before_def term_index_def term_page_def)
  then show ?thesis using assms by (simp add: own_pages_def mapped_def remap_term_before_ok)
qed

lemma remap_after_mapped:
  assumes "own_pages s" "current_terminal s \<in> {0, 1, 2}" "active_terminal s \<in> {0, 1, 2}"
  shows "mapped (s\<lparr>pages := remap_term (current_terminal s) (pages s)\<rparr>)"
proof -
  have "tables (remap_term (current_terminal s) (pages s)) (term_index t) = frame s t OR 3"
    if "t \<in> {0, 1, 2}" for t
    using that assms by (auto simp: own_pages_def frame_def remap_term_def term_index_def term_page_def)
  then show ?thesis using assms by (simp add: own_pages_def mapped_def remap_term_ok frame_def)
qed

lemma term_page_disjoint:
  assumes "t \<in> {0, 1, 2}"
  shows "disjoint_regions (term_page t) 4096 VIDEO 4096"
    "u \<in> {0, 1, 2} \<Longrightarrow> u \<noteq> t \<Longrightarrow> disjoint_regions (term_page t) 4096 (term_page u) 4096"
  using assms by (auto intro!: video_pages_disjoint simp: term_page_def)

text \<open>The two copies: the screen into the page of the old terminal, the page of the new one onto
  the screen.\<close>

definition swap_memory :: "int \<Rightarrow> int \<Rightarrow> mem \<Rightarrow> mem" where
  "swap_memory old new m =
    (let m1 = store_bytes m (term_page old) (load_bytes m VIDEO 4096)
     in store_bytes m1 VIDEO (load_bytes m1 (term_page new) 4096))"

lemma swap_memory_page:
  assumes "old \<in> {0, 1, 2}" "new \<in> {0, 1, 2}" "t \<in> {0, 1, 2}"
  shows "load_bytes (swap_memory old new m) (if t = new then VIDEO else term_page t) 4096 =
    load_bytes m (if t = old then VIDEO else term_page t) 4096"
proof -
  let ?m1 = "store_bytes m (term_page old) (load_bytes m VIDEO 4096)"
  have m1: "load_bytes ?m1 (term_page t) 4096 = load_bytes m (if t = old then VIDEO else term_page t) 4096"
  proof (cases "t = old")
    case False
    then have "disjoint_regions (term_page t) 4096 (term_page old) 4096"
      using term_page_disjoint(2) [OF assms(3) assms(1)] by blast
    then show ?thesis using False by (simp add: load_bytes_store_disjoint)
  qed simp
  show ?thesis
  proof (cases "t = new")
    case True then show ?thesis using m1 by (simp add: swap_memory_def)
  next
    case False
    have "load_bytes (swap_memory old new m) (term_page t) 4096 = load_bytes ?m1 (term_page t) 4096"
      using term_page_disjoint(1) [OF assms(3)] by (simp add: swap_memory_def Let_def load_bytes_store_disjoint)
    then show ?thesis using False m1 by simp
  qed
qed

lemma switch_screens_eq:
  assumes "mapped s" "target \<in> {0, 1, 2}"
  defines "old \<equiv> current_terminal s"
  shows "switch_screens target s = Some (s\<lparr>
    pages := remap_term target (remap_term_before old (pages s)), current_terminal := target,
    phys := swap_memory old target (phys s)\<rparr>)"
proof -
  have old: "old \<in> {0, 1, 2}" using assms(1) by (simp add: old_def mapped_def)
  let ?s1 = "s\<lparr>pages := remap_term_before old (pages s)\<rparr>"
  have own: "own_pages ?s1" unfolding old_def by (rule remap_before_own [OF assms(1)])
  let ?s2 = "?s1\<lparr>phys := store_bytes (phys ?s1) (term_page old) (load_bytes (phys ?s1) VIDEO 4096)\<rparr>"
  let ?s3 = "?s2\<lparr>current_terminal := target\<rparr>"
  have save: "vcopy (term_page old) VIDEO 4096 ?s1 = Some ?s2"
    using own_page_at [OF own] old by (intro vcopy_page) auto
  have "own_pages ?s3" using own by simp
  then have load: "vcopy VIDEO (term_page target) 4096 ?s3 =
      Some (?s3\<lparr>phys := store_bytes (phys ?s3) VIDEO (load_bytes (phys ?s3) (term_page target) 4096)\<rparr>)"
    using own_page_at assms(2) by (intro vcopy_page) auto
  have "switch_screens target s = (vcopy (term_page old) VIDEO 4096 ?s1 \<bind> (\<lambda>s.
      vcopy VIDEO (term_page target) 4096 (s\<lparr>current_terminal := target\<rparr>) \<bind> (\<lambda>s.
      Some (s\<lparr>pages := remap_term (current_terminal s) (pages s)\<rparr>))))"
    using old assms(2) unfolding old_def
    by (elim insertE emptyE) (simp_all add: switch_screens_def term_page_def)
  then show ?thesis using save load by (simp add: swap_memory_def Let_def)
qed

lemma switch_screens_views:
  assumes "mapped s" "target \<in> {0, 1, 2}"
  shows "\<exists>s'. switch_screens target s = Some s' \<and> mapped s' \<and> current_terminal s' = target \<and>
    active_terminal s' = active_terminal s \<and> ports s' = ports s \<and> (\<forall>t \<in> {0, 1, 2}. view s' t = view s t)"
proof -
  let ?old = "current_terminal s"
  let ?s4 = "s\<lparr>pages := remap_term_before ?old (pages s), current_terminal := target, phys := swap_memory ?old target (phys s)\<rparr>"
  let ?s5 = "?s4\<lparr>pages := remap_term target (pages ?s4)\<rparr>"
  have old: "?old \<in> {0, 1, 2}" and act: "active_terminal s \<in> {0, 1, 2}" using assms(1) by (simp_all add: mapped_def)
  have "own_pages ?s4" using remap_before_own [OF assms(1)] by simp
  then have "mapped ?s5" using remap_after_mapped [of ?s4] assms(2) act by simp
  moreover have "view ?s5 t = view s t" if "t \<in> {0, 1, 2}" for t
    using swap_memory_page [OF old assms(2) that, of "phys s"]
    by (simp add: view_def screen_def frame_def)
  moreover have "switch_screens target s = Some ?s5" using switch_screens_eq [OF assms] by simp
  moreover have "current_terminal ?s5 = target" "active_terminal ?s5 = active_terminal s" "ports ?s5 = ports s" by simp_all
  ultimately show ?thesis by blast
qed

text \<open>A set of terminals on one screen, for the code that switches between them: a switch always
  succeeds, displays its target and keeps the view of every terminal.\<close>

locale shared_screen =
  fixes valid :: "'t \<Rightarrow> bool"
    and inv :: "'s \<Rightarrow> bool"
    and shown :: "'s \<Rightarrow> 't"
    and sees :: "'s \<Rightarrow> 't \<Rightarrow> 'v"
    and switch :: "'t \<Rightarrow> 's \<Rightarrow> 's option"
  assumes switch_ok: "inv s \<Longrightarrow> valid t \<Longrightarrow>
    \<exists>s'. switch t s = Some s' \<and> inv s' \<and> shown s' = t \<and> (\<forall>u. valid u \<longrightarrow> sees s' u = sees s u)"
begin

lemma switches_keep_views:
  "inv s \<Longrightarrow> \<forall>t \<in> set ts. valid t \<Longrightarrow>
   \<exists>s'. fold_opt switch ts s = Some s' \<and> inv s' \<and> (\<forall>u. valid u \<longrightarrow> sees s' u = sees s u) \<and>
     shown s' = (if ts = [] then shown s else last ts)"
proof (induction ts arbitrary: s)
  case (Cons t ts)
  obtain s1 where s1: "switch t s = Some s1" "inv s1" "shown s1 = t" "\<forall>u. valid u \<longrightarrow> sees s1 u = sees s u"
    using switch_ok [of s t] Cons.prems by auto
  with Cons.IH [of s1] Cons.prems show ?case by fastforce
qed simp

end

interpretation console_screen: shared_screen "\<lambda>t. t \<in> {0, 1, 2}" mapped current_terminal view switch_screens
  by unfold_locales (metis switch_screens_views)

subsection \<open>Reading a line\<close>

lemma wait_enter_skip:
  assumes "\<forall>i. n \<le> i \<and> i < n + d \<longrightarrow> ent_flag (enter i) (active_terminal (con (enter i))) \<noteq> 1"
  shows "wait_enter enter n = wait_enter enter (n + d)"
  using assms
proof (induction d arbitrary: n)
  case (Suc d)
  have "wait_enter enter n = wait_enter enter (Suc n)"
    using Suc.prems by (subst wait_enter.simps) simp
  also have "\<dots> = wait_enter enter (Suc n + d)" using Suc.prems by (intro Suc.IH) auto
  finally show ?case by simp
qed simp

lemma wait_enter_first:
  assumes "ent_flag (enter n) (active_terminal (con (enter n))) = 1"
    "\<forall>i < n. ent_flag (enter i) (active_terminal (con (enter i))) \<noteq> 1"
  shows "wait_enter enter 0 =
    Some (n, (enter n)\<lparr>ent_flag := (ent_flag (enter n))(active_terminal (con (enter n)) := 0)\<rparr>)"
proof -
  have "wait_enter enter 0 = wait_enter enter (0 + n)" using assms(2) by (intro wait_enter_skip) auto
  then show ?thesis using assms(1) by (subst (asm) (2) wait_enter.simps) (simp add: Let_def)
qed

lemma wait_enter_Some:
  assumes "wait_enter enter n = Some r"
  shows "\<exists>i. ent_flag (enter i) (active_terminal (con (enter i))) = 1"
proof (rule wait_enter.raw_induct [where P = "\<lambda>enter n r. \<exists>i. ent_flag (enter i) (active_terminal (con (enter i))) = 1", OF _ assms])
  fix f :: "(nat \<Rightarrow> kbd) \<Rightarrow> nat \<Rightarrow> (nat \<times> kbd) option" and enter n r
  assume IH: "\<And>enter n r. f enter n = Some r \<Longrightarrow> \<exists>i. ent_flag (enter i) (active_terminal (con (enter i))) = 1"
    and eq: "(let k = enter n; t = active_terminal (con k)
      in if ent_flag k t = 1 then Some (n, k\<lparr>ent_flag := (ent_flag k)(t := 0)\<rparr>) else f enter (Suc n)) = Some r"
  show "\<exists>i. ent_flag (enter i) (active_terminal (con (enter i))) = 1"
  proof (cases "ent_flag (enter n) (active_terminal (con (enter n))) = 1")
    case False
    then have "f enter (Suc n) = Some r" using eq by (simp add: Let_def)
    then show ?thesis by (rule IH)
  qed blast
qed

lemma copy_line_eq:
  assumes "0 \<le> nbytes" "nbytes \<le> 128" "length (read_buf k) = 128"
  shows "copy_line beyond m ptr nbytes k =
    (128, store_bytes m ptr (take (nat nbytes) (read_buf k) @ replicate (128 - nat nbytes) 0), k\<lparr>read_buf := replicate 128 0\<rparr>)"
proof -
  let ?n = "nat nbytes"
  have n: "?n \<le> 128" using assms(2) by simp
  have line: "map (read_at beyond k) [0..<?n] = take ?n (read_buf k)"
    using n assms(3) by (intro nth_equalityI) (simp_all add: read_at_def)
  have "store_bytes (store_bytes m ptr (replicate 128 0)) ptr (take ?n (read_buf k)) =
    store_bytes m ptr (take ?n (read_buf k) @ replicate (128 - ?n) 0)"
    using n assms(3) by (intro ext) (auto simp: store_bytes_apply nth_append)
  then show ?thesis
    unfolding copy_line_def fold_store_bytes Let_def line by (simp add: map_replicate_const)
qed

lemma terminal_write_shows:
  assumes "mapped s" and "in_range (view s (active_terminal s))" and "buf \<noteq> 0" and "nbytes < 2 ^ 31"
    and "13 \<notin> set (load_bytes m buf (nat nbytes))"
  shows "\<exists>s'. terminal_write m fd buf nbytes s =
      Some (max 0 nbytes, store_bytes m buf (map printable (load_bytes m buf (nat nbytes))), s') \<and>
    view s' (active_terminal s) =
      fold vchar (map printable (load_bytes m buf (nat nbytes))) (view s (active_terminal s)) \<and>
    in_range (view s' (active_terminal s)) \<and> mapped s' \<and>
    (\<forall>t \<in> {0, 1, 2}. t \<noteq> active_terminal s \<longrightarrow> view s' t = view s t)"
proof -
  let ?bs = "map printable (load_bytes m buf (nat nbytes))"
  have range: "in_range (fold vchar bs v)" if "in_range v" "13 \<notin> set bs" for bs v
    using that by (induction bs arbitrary: v) (simp_all add: vchar_in_range)
  have "13 \<notin> set ?bs" using assms(5) by (auto simp: printable_def)
  then have "in_range (fold vchar ?bs (view s (active_terminal s)))" using range assms(2) by blast
  moreover obtain s1 where "terminal_write m fd buf nbytes s = Some (max 0 nbytes, store_bytes m buf ?bs, cursor_wrapper 0 s1)"
    "redrawn (active_terminal s) (fold vchar ?bs (view s (active_terminal s))) s s1"
    using terminal_write_view [OF assms] by blast
  ultimately show ?thesis by (auto simp: redrawn_def)
qed

subsection \<open>Properties\<close>

text \<open>C3: \<open>terminal_write\<close> refines the description of a terminal.  For a non-null buffer with no
  carriage return it returns the byte count, whatever the cursor position; the terminal of the
  running process shows the text, with NUL bytes as blanks, line breaks and scrolling as
  \<open>vchar\<close> describes, and its cursor stays on the screen; no other terminal changes, no page
  fault occurs, and of the caller's memory only the NUL bytes of the buffer change.\<close>

theorem terminal_write_refines:
  assumes "mapped s" and "in_range (view s (active_terminal s))" and "buf \<noteq> 0" and "nbytes < 2 ^ 31"
    and "13 \<notin> set (load_bytes m buf (nat nbytes))"
  shows "\<exists>s'. terminal_write m fd buf nbytes s =
      Some (max 0 nbytes, store_bytes m buf (map printable (load_bytes m buf (nat nbytes))), s') \<and>
    view s' (active_terminal s) =
      fold vchar (map printable (load_bytes m buf (nat nbytes))) (view s (active_terminal s)) \<and>
    in_range (view s' (active_terminal s)) \<and> mapped s' \<and>
    (\<forall>t \<in> {0, 1, 2}. t \<noteq> active_terminal s \<longrightarrow> view s' t = view s t)"
  by (rule terminal_write_shows [OF assms])

definition boot_console :: console where
  "boot_console = \<lparr>phys = (\<lambda>_. 0), pages = init_paging 0x4FF000 0x500000 paging_zero,
     tables_addr = 0x500000, tables2_addr = 0x501000, screenX = (\<lambda>_. 0), screenY = (\<lambda>_. 0),
     current_terminal = 0, active_terminal = 0, ports = []\<rparr>"

lemma boot_console_mapped: "mapped boot_console" "in_range (view boot_console t)"
  by (simp_all add: mapped_def boot_console_def init_paging_ok frame_def term_index_def term_page_def
      init_tables page_aligned_def view_def)

theorem terminal_write_refines_witness:
  "\<exists>s'. terminal_write ((\<lambda>_. 0)(64 := 72, 65 := 105)) 1 64 3 boot_console =
     Some (3, store_bytes ((\<lambda>_. 0)(64 := 72, 65 := 105)) 64 [72, 105, 32], s') \<and>
   view s' 0 = fold vchar [72, 105, 32] (view boot_console 0) \<and> mapped s'"
proof -
  let ?m = "(\<lambda>_. 0)(64 := 72, 65 := 105) :: mem"
  have bytes: "load_bytes ?m 64 3 = [72, 105, 0]" by (simp add: load_bytes_def upt_rec)
  have "active_terminal boot_console = 0" by (simp add: boot_console_def)
  with terminal_write_refines [OF boot_console_mapped, of 64 3 ?m 1] bytes
  show ?thesis by (auto simp: printable_def)
qed

text \<open>The hypothesis on carriage returns is needed: \<open>putc\<close> treats one as a line feed, but the loop
  does not scroll for it, and at the bottom the cursor leaves the screen.\<close>

theorem terminal_write_carriage_return:
  assumes "mapped s" "in_range (view s (active_terminal s))" "screenX s (active_terminal s) \<noteq> 79"
    "screenY s (active_terminal s) = 24" "buf \<noteq> 0" "m buf = 13"
  shows "\<exists>m' s'. terminal_write m fd buf 1 s = Some (1, m', s') \<and> screenY s' (active_terminal s) = 25"
proof -
  have "replace_nul m buf 1 = m" using assms(6) by (simp add: replace_nul_def)
  moreover have "putc 13 s = Some (set_cursor (active_terminal s) 0 25 s)"
    using assms(4) by (auto simp: putc_def put_at_def)
  ultimately have "terminal_write m fd buf 1 s = Some (1, m, cursor_wrapper 0 (set_cursor (active_terminal s) 0 25 s))"
    using assms(3,5,6) by (simp add: terminal_write_def get_screen_x_def get_screen_y_def)
  moreover have "screenY (cursor_wrapper 0 (set_cursor (active_terminal s) 0 25 s)) (active_terminal s) = 25"
    by (simp add: cursor_wrapper_def update_cursor_def Let_def set_cursor_def)
  ultimately show ?thesis by blast
qed

text \<open>C27: whatever terminals are switched to, and in whatever order, every switch succeeds, the
  last one is displayed, and each of the three terminals keeps its text and its cursor.\<close>

theorem terminal_switches_keep_views:
  assumes "mapped s" and "\<forall>t \<in> set ts. t \<in> {0, 1, 2}"
  shows "\<exists>s'. fold_opt switch_screens ts s = Some s' \<and> mapped s' \<and> (\<forall>u. u \<in> {0, 1, 2} \<longrightarrow> view s' u = view s u) \<and>
    current_terminal s' = (if ts = [] then current_terminal s else last ts)"
  using assms by (rule console_screen.switches_keep_views)

theorem terminal_switches_keep_views_witness:
  "\<exists>s'. fold_opt switch_screens [1, 2, 0, 2] boot_console = Some s' \<and> current_terminal s' = 2 \<and>
     view s' 0 = view boot_console 0"
proof -
  have "\<forall>t \<in> set [1, 2, 0, 2]. t \<in> {0, 1, 2 :: int}" by simp
  from terminal_switches_keep_views [OF boot_console_mapped(1) this] show ?thesis by auto
qed

text \<open>\<open>terminal_read\<close> on a non-null buffer returns exactly when the running terminal has its
  enter flag up at some test.  The first such test lowers the flag, hands over the first
  \<open>nbytes\<close> characters of the line followed by NUL bytes up to 128, and empties the line.\<close>

theorem terminal_read_line:
  assumes "buf \<noteq> 0" and "0 \<le> nbytes" and "nbytes \<le> 128"
  shows "((\<exists>r. terminal_read beyond enter m fd buf nbytes = Some r) \<longleftrightarrow>
      (\<exists>i. ent_flag (enter i) (active_terminal (con (enter i))) = 1)) \<and>
    (\<forall>n k t. k = enter n \<and> t = active_terminal (con k) \<and> ent_flag k t = 1 \<and> length (read_buf k) = 128 \<and>
      (\<forall>i < n. ent_flag (enter i) (active_terminal (con (enter i))) \<noteq> 1) \<longrightarrow>
      terminal_read beyond enter m fd buf nbytes =
        Some (128, store_bytes m buf (take (nat nbytes) (read_buf k) @ replicate (128 - nat nbytes) 0),
          k\<lparr>ent_flag := (ent_flag k)(t := 0), read_buf := replicate 128 0\<rparr>))"
proof (intro conjI allI impI)
  let ?up = "\<lambda>i. ent_flag (enter i) (active_terminal (con (enter i))) = 1"
  show "(\<exists>r. terminal_read beyond enter m fd buf nbytes = Some r) \<longleftrightarrow> (\<exists>i. ?up i)"
  proof
    assume "\<exists>r. terminal_read beyond enter m fd buf nbytes = Some r"
    then obtain r where "wait_enter enter 0 = Some r"
      using assms(1) by (auto simp: terminal_read_def split: Option.bind_splits)
    then show "\<exists>i. ?up i" by (rule wait_enter_Some)
  next
    assume "\<exists>i. ?up i"
    then obtain n where "?up n" "\<forall>i < n. \<not> ?up i" using exists_least_iff [of ?up] by blast
    then show "\<exists>r. terminal_read beyond enter m fd buf nbytes = Some r"
      using assms(1) wait_enter_first [of enter n] by (simp add: terminal_read_def) (metis prod_cases3)
  qed
next
  fix n k t
  assume h: "k = enter n \<and> t = active_terminal (con k) \<and> ent_flag k t = 1 \<and> length (read_buf k) = 128 \<and>
      (\<forall>i < n. ent_flag (enter i) (active_terminal (con (enter i))) \<noteq> 1)"
  from h have len: "length (read_buf k) = 128" by blast
  from h have "wait_enter enter 0 = Some (n, k\<lparr>ent_flag := (ent_flag k)(t := 0)\<rparr>)"
    by (metis wait_enter_first)
  then show "terminal_read beyond enter m fd buf nbytes =
        Some (128, store_bytes m buf (take (nat nbytes) (read_buf k) @ replicate (128 - nat nbytes) 0),
          k\<lparr>ent_flag := (ent_flag k)(t := 0), read_buf := replicate 128 0\<rparr>)"
    using assms len by (simp add: terminal_read_def copy_line_eq)
qed

definition line_ready :: kbd where
  "line_ready = \<lparr>con = boot_console, caps_flag = 0, right_shift_flag = 0, left_shift_flag = 0,
     control_flag = 0, ent_flag = (\<lambda>_. 1), inc_or_dec = 0, ctrl_4_flag = 0, alt_flag = 0, putc_flag = 0,
     buffer = (\<lambda>_. replicate 128 0), read_buf = [108, 115] @ replicate 126 0, line_count = (\<lambda>_. 0),
     term_2_flag = 0, term_3_flag = 0, rtc_test = 2, test_i = 0, test_k = 0\<rparr>"

theorem terminal_read_line_witness:
  "\<exists>k'. terminal_read (\<lambda>_. 0) (\<lambda>_. line_ready) (\<lambda>_. 0) 0 64 2 =
     Some (128, store_bytes (\<lambda>_. 0) 64 ([108, 115] @ replicate 126 0), k')"
proof -
  have ready: "line_ready = line_ready \<and> 0 = active_terminal (con line_ready) \<and> ent_flag line_ready 0 = 1 \<and>
    length (read_buf line_ready) = 128 \<and> (\<forall>i < 0 :: nat. ent_flag line_ready (active_terminal (con line_ready)) \<noteq> 1)"
    by (simp add: line_ready_def boot_console_def)
  have line: "take (nat 2) (read_buf line_ready) @ replicate (128 - nat 2) 0 = [108, 115] @ replicate 126 0"
    by (simp add: line_ready_def)
  have "(64 :: u32) \<noteq> 0" "(0 :: int) \<le> 2" "(2 :: int) \<le> 128" by simp_all
  from terminal_read_line [OF this, THEN conjunct2, rule_format, of line_ready "\<lambda>_. line_ready" 0, OF ready]
  show ?thesis unfolding line by blast
qed

end
