(* ===== verification/I8259.thy ===== *)
theory I8259
  imports Port_IO
begin

text \<open>
  The driver of the two cascaded interrupt controllers,
  \<^verbatim>\<open>src/student-distrib/i8259.c\<close>: initialisation, masking and unmasking of a line, and the
  end-of-interrupt command.  The chips themselves are hardware; what their data sheet
  says of command words, of the mask register and of the in-service register is written
  as a small automaton over the port trace, and enters the theorems as the hypothesis
  \<open>pic_responds dev\<close> that a read of a data port returns the mask register.
\<close>

subsection \<open>The driver\<close>

abbreviation (input) MASTER_8259_PORT :: u16 where "MASTER_8259_PORT \<equiv> 0x20"
abbreviation (input) SLAVE_8259_PORT :: u16 where "SLAVE_8259_PORT \<equiv> 0xA0"
abbreviation (input) MASTER_8259_PORT2 :: u16 where "MASTER_8259_PORT2 \<equiv> 0x21"
abbreviation (input) SLAVE_8259_PORT2 :: u16 where "SLAVE_8259_PORT2 \<equiv> 0xA1"

definition enable_irq :: "device \<Rightarrow> u32 \<Rightarrow> trace \<Rightarrow> trace" where
  "enable_irq dev irq_num tr =
    (if irq_num > 15 then tr
     else
       let (port, irq) = (if irq_num < 8 then (MASTER_8259_PORT2, irq_num)
                          else (SLAVE_8259_PORT2, irq_num - 8));
           (v, tr1) = inb dev port tr;
           value = v AND NOT (push_bit (unat irq) 1)
       in outb value port tr1)"

definition disable_irq :: "device \<Rightarrow> u32 \<Rightarrow> trace \<Rightarrow> trace" where
  "disable_irq dev irq_num tr =
    (if irq_num > 15 then tr
     else
       let (port, irq) = (if irq_num < 8 then (MASTER_8259_PORT2, irq_num)
                          else (SLAVE_8259_PORT2, irq_num - 8));
           (v, tr1) = inb dev port tr;
           value = v OR push_bit (unat irq) 1
       in outb value port tr1)"

definition send_eoi :: "u32 \<Rightarrow> trace \<Rightarrow> trace" where
  "send_eoi irq_num tr =
    (if irq_num \<ge> 8 then
       outb (0x60 OR 0x02) MASTER_8259_PORT (outb (0x60 OR (irq_num - 8)) SLAVE_8259_PORT tr)
     else outb (0x60 OR irq_num) MASTER_8259_PORT tr)"

definition i8259_init :: "device \<Rightarrow> trace \<Rightarrow> trace" where
  "i8259_init dev tr =
    (let tr = io_wait (outb 0x11 MASTER_8259_PORT tr);
         tr = io_wait (outb 0x20 MASTER_8259_PORT2 tr);
         tr = io_wait (outb 0x04 MASTER_8259_PORT2 tr);
         tr = io_wait (outb 0x01 MASTER_8259_PORT2 tr);
         tr = io_wait (outb 0x11 SLAVE_8259_PORT tr);
         tr = io_wait (outb 0x28 SLAVE_8259_PORT2 tr);
         tr = io_wait (outb 0x02 SLAVE_8259_PORT2 tr);
         tr = io_wait (outb 0x01 SLAVE_8259_PORT2 tr);
         tr = outb 0xFF MASTER_8259_PORT2 tr;
         tr = outb 0xFF SLAVE_8259_PORT2 tr
     in enable_irq dev 0x02 tr)"

subsection \<open>The data sheet\<close>

text \<open>
  One 8259A chip as its registers.  \<open>awaiting\<close> is the number of the initialisation
  command word the data port takes next, 0 once the chip is operational; a write to the
  data port is then the interrupt mask.  On the command port a byte with bit 4 set starts
  the initialisation (which clears the mask), and a byte of the form 011-00-LLL is the
  specific end of interrupt for level L, which clears that bit of the in-service register.
\<close>

record pic =
  awaiting :: nat
  imr :: u8
  isr :: u8
  vector_base :: u8
  cascade :: u8

definition pic_command :: "u8 \<Rightarrow> pic \<Rightarrow> pic" where
  "pic_command d c =
    (if bit d 4 then c\<lparr>awaiting := 2, imr := 0\<rparr>
     else if d AND 0xF8 = 0x60 then c\<lparr>isr := isr c AND NOT (push_bit (unat (d AND 7)) 1)\<rparr>
     else c)"

definition pic_data :: "u8 \<Rightarrow> pic \<Rightarrow> pic" where
  "pic_data d c =
    (if awaiting c = 2 then c\<lparr>awaiting := 3, vector_base := d AND 0xF8\<rparr>
     else if awaiting c = 3 then c\<lparr>awaiting := 4, cascade := d\<rparr>
     else if awaiting c = 4 then c\<lparr>awaiting := 0\<rparr>
     else c\<lparr>imr := d\<rparr>)"

fun pic_run :: "u16 \<Rightarrow> u16 \<Rightarrow> pic \<Rightarrow> trace \<Rightarrow> pic" where
  "pic_run cmd dat c [] = c"
| "pic_run cmd dat c (Out p d # tr) =
    (if p = cmd then pic_command d (pic_run cmd dat c tr)
     else if p = dat then pic_data d (pic_run cmd dat c tr)
     else pic_run cmd dat c tr)"
| "pic_run cmd dat c (In p d # tr) = pic_run cmd dat c tr"

definition master :: "pic \<Rightarrow> trace \<Rightarrow> pic" where
  "master c tr = pic_run MASTER_8259_PORT MASTER_8259_PORT2 c tr"

definition slave :: "pic \<Rightarrow> trace \<Rightarrow> pic" where
  "slave c tr = pic_run SLAVE_8259_PORT SLAVE_8259_PORT2 c tr"

text \<open>The chips answer a read of their data port with the mask register, whatever state
  \<open>cm\<close>, \<open>cs\<close> they powered up in.\<close>

definition pic_responds :: "device \<Rightarrow> pic \<Rightarrow> pic \<Rightarrow> bool" where
  "pic_responds dev cm cs \<longleftrightarrow>
    (\<forall>tr. dev tr MASTER_8259_PORT2 = imr (master cm tr) \<and>
          dev tr SLAVE_8259_PORT2 = imr (slave cs tr))"

definition irq_masked :: "pic \<Rightarrow> pic \<Rightarrow> trace \<Rightarrow> nat \<Rightarrow> bool" where
  "irq_masked cm cs tr k = (if k < 8 then bit (imr (master cm tr)) k else bit (imr (slave cs tr)) (k - 8))"

definition irq_in_service :: "pic \<Rightarrow> pic \<Rightarrow> trace \<Rightarrow> nat \<Rightarrow> bool" where
  "irq_in_service cm cs tr k = (if k < 8 then bit (isr (master cm tr)) k else bit (isr (slave cs tr)) (k - 8))"

definition pic_ready :: "pic \<Rightarrow> pic \<Rightarrow> trace \<Rightarrow> bool" where
  "pic_ready cm cs tr \<longleftrightarrow> awaiting (master cm tr) = 0 \<and> awaiting (slave cs tr) = 0"

definition power_on :: pic where
  "power_on = \<lparr>awaiting = 0, imr = 0, isr = 0, vector_base = 0, cascade = 0\<rparr>"

definition pic_dev :: "pic \<Rightarrow> pic \<Rightarrow> device" where
  "pic_dev cm cs tr p = (if p = MASTER_8259_PORT2 then imr (master cm tr)
     else if p = SLAVE_8259_PORT2 then imr (slave cs tr) else 0)"

lemma pic_dev_responds: "pic_responds (pic_dev cm cs) cm cs"
  by (simp add: pic_responds_def pic_dev_def)

lemmas pic_simps = master_def slave_def outb_def inb_def pic_command_def pic_data_def

subsection \<open>Masking\<close>

lemma irq_split:
  assumes "(irq_num :: u32) \<le> 15"
  obtains "irq_num < 8" "unat irq_num < 8"
    | "8 \<le> irq_num" "unat (irq_num - 8) = unat irq_num - 8" "unat irq_num - 8 < 8" "8 \<le> unat irq_num"
proof (cases "irq_num < 8")
  case True then show ?thesis using that(1) by (simp add: word_less_nat_alt)
next
  case False
  then have "8 \<le> irq_num" "8 \<le> unat irq_num" "unat irq_num \<le> 15"
    using assms by (simp_all add: word_le_nat_alt word_less_nat_alt)
  then show ?thesis using that(2) by (simp add: unat_sub)
qed

lemma enable_irq_masked:
  assumes "pic_responds dev cm cs" "pic_ready cm cs tr" "k < 16"
  shows "irq_masked cm cs (enable_irq dev n tr) k \<longleftrightarrow> irq_masked cm cs tr k \<and> k \<noteq> unat n"
proof (cases "n \<le> 15")
  case False
  then have "15 < unat n" by (simp add: word_le_nat_alt)
  then show ?thesis using False assms(3) by (auto simp: enable_irq_def)
next
  case True
  then have "\<not> 15 < n" by simp
  from True show ?thesis
    by (rule irq_split; insert assms \<open>\<not> 15 < n\<close>)
      (auto simp: enable_irq_def irq_masked_def pic_simps pic_ready_def pic_responds_def bit_clear8)
qed

lemma disable_irq_masked:
  assumes "pic_responds dev cm cs" "pic_ready cm cs tr" "k < 16"
  shows "irq_masked cm cs (disable_irq dev n tr) k \<longleftrightarrow> irq_masked cm cs tr k \<or> k = unat n"
proof (cases "n \<le> 15")
  case False
  then have "15 < unat n" by (simp add: word_le_nat_alt)
  then show ?thesis using False assms(3) by (auto simp: disable_irq_def)
next
  case True
  then have "\<not> 15 < n" by simp
  from True show ?thesis
    by (rule irq_split; insert assms \<open>\<not> 15 < n\<close>)
      (auto simp: disable_irq_def irq_masked_def pic_simps pic_ready_def pic_responds_def bit_set8)
qed

lemma enable_irq_ready: "pic_ready cm cs tr \<Longrightarrow> pic_ready cm cs (enable_irq dev n tr)"
  by (auto simp: enable_irq_def pic_ready_def pic_simps Let_def)

lemma disable_irq_ready: "pic_ready cm cs tr \<Longrightarrow> pic_ready cm cs (disable_irq dev n tr)"
  by (auto simp: disable_irq_def pic_ready_def pic_simps Let_def)

text \<open>
  What a device driver may rely on when it masks and unmasks lines: enabling a line
  changes that line and no other, and the controller stays operational.
\<close>

locale irq_controller =
  fixes ready :: "'s \<Rightarrow> bool"
    and masked :: "'s \<Rightarrow> nat \<Rightarrow> bool"
    and enable :: "nat \<Rightarrow> 's \<Rightarrow> 's"
    and disable :: "nat \<Rightarrow> 's \<Rightarrow> 's"
  assumes enable_masked: "ready s \<Longrightarrow> n < 16 \<Longrightarrow> k < 16 \<Longrightarrow> masked (enable n s) k \<longleftrightarrow> masked s k \<and> k \<noteq> n"
    and disable_masked: "ready s \<Longrightarrow> n < 16 \<Longrightarrow> k < 16 \<Longrightarrow> masked (disable n s) k \<longleftrightarrow> masked s k \<or> k = n"
    and enable_ready: "ready s \<Longrightarrow> ready (enable n s)"
    and disable_ready: "ready s \<Longrightarrow> ready (disable n s)"
begin

lemma enable_all_ready: "ready s \<Longrightarrow> ready (fold enable ns s)"
  by (induction ns arbitrary: s) (simp_all add: enable_ready)

lemma enable_all_masked:
  "ready s \<Longrightarrow> \<forall>n \<in> set ns. n < 16 \<Longrightarrow> k < 16 \<Longrightarrow>
   masked (fold enable ns s) k \<longleftrightarrow> masked s k \<and> k \<notin> set ns"
  by (induction ns arbitrary: s) (auto simp: enable_ready enable_masked)

lemma disable_enable:
  "ready s \<Longrightarrow> n < 16 \<Longrightarrow> k < 16 \<Longrightarrow> masked (disable n (enable n s)) k \<longleftrightarrow> masked s k \<or> k = n"
  by (auto simp: enable_ready enable_masked disable_masked)

end

lemma i8259_controller:
  assumes "pic_responds dev cm cs"
  shows "irq_controller (pic_ready cm cs) (irq_masked cm cs)
    (\<lambda>n. enable_irq dev (of_nat n)) (\<lambda>n. disable_irq dev (of_nat n))"
  by unfold_locales
    (simp_all add: assms enable_irq_masked disable_irq_masked enable_irq_ready disable_irq_ready)

interpretation i8259: irq_controller "pic_ready cm cs" "irq_masked cm cs"
    "\<lambda>n. enable_irq (pic_dev cm cs) (of_nat n)" "\<lambda>n. disable_irq (pic_dev cm cs) (of_nat n)"
  for cm cs
  by (rule i8259_controller [OF pic_dev_responds])

subsection \<open>End of interrupt and initialisation\<close>

lemma eoi_byte:
  assumes "unat (i :: u32) < 8"
  shows "\<not> bit (ucast (0x60 OR i) :: u8) 4" "(ucast (0x60 OR i) :: u8) AND 0xF8 = 0x60"
    "unat ((ucast (0x60 OR i) :: u8) AND 7) = unat i"
proof -
  have "unat i \<in> {0, 1, 2, 3, 4, 5, 6, 7}" using assms by auto
  then have "i \<in> {0, 1, 2, 3, 4, 5, 6, 7}"
    by (auto simp: word_unat_eq_iff)
  then show "\<not> bit (ucast (0x60 OR i) :: u8) 4" "(ucast (0x60 OR i) :: u8) AND 0xF8 = 0x60"
    "unat ((ucast (0x60 OR i) :: u8) AND 7) = unat i"
    by auto
qed

lemma bit_clear_isr: "b < 8 \<Longrightarrow> bit ((v :: u8) AND NOT (2 ^ k)) b \<longleftrightarrow> bit v b \<and> b \<noteq> k"
  by (auto simp: bit_simps)

lemma bit_clear_cascade: "b < 8 \<Longrightarrow> bit ((v :: u8) AND - 5) b \<longleftrightarrow> bit v b \<and> b \<noteq> 2"
  using bit_clear_isr [of b v 2] by simp

lemma send_eoi_service:
  assumes "n \<le> 15" "k < 16"
  shows "irq_in_service cm cs (send_eoi n tr) k \<longleftrightarrow>
    irq_in_service cm cs tr k \<and> k \<noteq> unat n \<and> (8 \<le> unat n \<longrightarrow> k \<noteq> 2)"
  using assms(1)
proof (cases rule: irq_split)
  case 1
  then have "\<not> 8 \<le> n" "\<not> 8 \<le> unat n" by (simp_all add: word_le_nat_alt)
  then show ?thesis using 1 assms(2)
    by (auto simp: send_eoi_def irq_in_service_def pic_simps eoi_byte bit_clear_isr)
next
  case 2
  then have "unat (n - 8) < 8" by simp
  then show ?thesis using 2 assms(2)
    by (auto simp: send_eoi_def irq_in_service_def pic_simps eoi_byte bit_clear_isr bit_clear_cascade)
qed

lemma send_eoi_masks:
  assumes "n \<le> 15"
  shows "irq_masked cm cs (send_eoi n tr) k = irq_masked cm cs tr k"
    "pic_ready cm cs (send_eoi n tr) = pic_ready cm cs tr"
proof -
  have "imr (master cm (send_eoi n tr)) = imr (master cm tr) \<and> imr (slave cs (send_eoi n tr)) = imr (slave cs tr) \<and>
    awaiting (master cm (send_eoi n tr)) = awaiting (master cm tr) \<and>
    awaiting (slave cs (send_eoi n tr)) = awaiting (slave cs tr)"
    using assms
  proof (cases rule: irq_split)
    case 1
    then have "\<not> 8 \<le> n" by (simp add: word_le_nat_alt)
    then show ?thesis using 1 by (simp add: send_eoi_def pic_simps eoi_byte)
  next
    case 2
    then have "unat (n - 8) < 8" by simp
    then show ?thesis using 2 by (simp add: send_eoi_def pic_simps eoi_byte)
  qed
  then show "irq_masked cm cs (send_eoi n tr) k = irq_masked cm cs tr k"
    "pic_ready cm cs (send_eoi n tr) = pic_ready cm cs tr"
    by (simp_all add: irq_masked_def pic_ready_def)
qed

lemma i8259_init_ready: "pic_ready cm cs (i8259_init dev tr)"
  unfolding i8259_init_def Let_def
  by (rule enable_irq_ready) (simp add: pic_ready_def pic_simps io_wait_def)

lemma i8259_init_masked:
  assumes "pic_responds dev cm cs" "k < 16"
  shows "irq_masked cm cs (i8259_init dev tr) k \<longleftrightarrow> k \<noteq> 2"
proof -
  have ff: "bit (0xFF :: nat) b" "bit (0xFF :: int) b" "bit (0xFF :: u8) b" if "b < 8" for b
  proof -
    have "b \<in> {0, 1, 2, 3, 4, 5, 6, 7}" using that by auto
    then show "bit (0xFF :: nat) b" "bit (0xFF :: int) b" "bit (0xFF :: u8) b" by (auto simp: bit_0)
  qed
  show ?thesis
    unfolding i8259_init_def Let_def
    by (subst enable_irq_masked)
      (use assms in \<open>auto simp: pic_ready_def irq_masked_def pic_simps io_wait_def ff\<close>)
qed

lemma i8259_init_vectors:
  "vector_base (master cm (i8259_init dev tr)) = 0x20" "vector_base (slave cs (i8259_init dev tr)) = 0x28"
  "cascade (master cm (i8259_init dev tr)) = 0x04" "cascade (slave cs (i8259_init dev tr)) = 0x02"
  by (simp_all add: i8259_init_def enable_irq_def pic_simps io_wait_def Let_def)

subsection \<open>Properties\<close>

text \<open>On operational controllers that answer as documented, \<open>enable_irq\<close> unmasks exactly the
  line it is given and \<open>disable_irq\<close> masks exactly that line, for all sixteen lines of the
  two chips; with a number above 15 they touch no port at all.\<close>

theorem irq_mask_exact:
  assumes "pic_responds dev cm cs" and "pic_ready cm cs tr" and "k < 16"
  shows "(irq_masked cm cs (enable_irq dev n tr) k \<longleftrightarrow> irq_masked cm cs tr k \<and> k \<noteq> unat n) \<and>
    (irq_masked cm cs (disable_irq dev n tr) k \<longleftrightarrow> irq_masked cm cs tr k \<or> k = unat n) \<and>
    (15 < n \<longrightarrow> enable_irq dev n tr = tr \<and> disable_irq dev n tr = tr)"
  using assms by (simp add: enable_irq_masked disable_irq_masked)
    (simp add: enable_irq_def disable_irq_def)

theorem irq_mask_exact_witness:
  "\<not> irq_masked power_on power_on (enable_irq (pic_dev power_on power_on) 12 [Out 0xA1 0xFF]) 12 \<and>
   irq_masked power_on power_on (enable_irq (pic_dev power_on power_on) 12 [Out 0xA1 0xFF]) 13"
proof -
  have ready: "pic_ready power_on power_on [Out 0xA1 0xFF]"
    by (simp add: pic_ready_def pic_simps power_on_def)
  have "irq_masked power_on power_on [Out 0xA1 0xFF] 13"
    by (simp add: irq_masked_def pic_simps power_on_def)
  then show ?thesis
    using irq_mask_exact [OF pic_dev_responds ready, of 12 12] irq_mask_exact [OF pic_dev_responds ready, of 13 12]
    by simp
qed

text \<open>The end-of-interrupt sequence of \<open>send_eoi\<close> takes exactly the given line out of
  service, together with the cascade line 2 of the master when the line is on the slave,
  and leaves every mask bit as it was.\<close>

theorem send_eoi_exact:
  assumes "n \<le> 15" and "k < 16"
  shows "(irq_in_service cm cs (send_eoi n tr) k \<longleftrightarrow>
      irq_in_service cm cs tr k \<and> k \<noteq> unat n \<and> (8 \<le> unat n \<longrightarrow> k \<noteq> 2)) \<and>
    irq_masked cm cs (send_eoi n tr) k = irq_masked cm cs tr k"
  using send_eoi_service [OF assms] send_eoi_masks(1) [OF assms(1)] by simp

definition in_service_all :: pic where
  "in_service_all = power_on\<lparr>isr := 0xFF\<rparr>"

theorem send_eoi_exact_witness:
  "\<not> irq_in_service in_service_all in_service_all (send_eoi 8 []) 8 \<and>
   \<not> irq_in_service in_service_all in_service_all (send_eoi 8 []) 2 \<and>
   irq_in_service in_service_all in_service_all (send_eoi 8 []) 1"
proof -
  have "irq_in_service in_service_all in_service_all [] 1"
    by (simp add: irq_in_service_def in_service_all_def power_on_def master_def)
  then show ?thesis
    using send_eoi_exact [of 8 8 in_service_all in_service_all "[]"]
      send_eoi_exact [of 8 2 in_service_all in_service_all "[]"]
      send_eoi_exact [of 8 1 in_service_all in_service_all "[]"] by simp
qed

text \<open>C37: whatever state the two controllers are in, \<open>i8259_init\<close> leaves them operational, with
  vectors 0x20 and 0x28, the slave cascaded on line 2, and every line masked but line 2.\<close>

theorem i8259_init_correct:
  assumes "pic_responds dev cm cs" and "k < 16"
  shows "pic_ready cm cs (i8259_init dev tr) \<and>
    (irq_masked cm cs (i8259_init dev tr) k \<longleftrightarrow> k \<noteq> 2) \<and>
    vector_base (master cm (i8259_init dev tr)) = 0x20 \<and>
    vector_base (slave cs (i8259_init dev tr)) = 0x28 \<and>
    cascade (master cm (i8259_init dev tr)) = 0x04 \<and> cascade (slave cs (i8259_init dev tr)) = 0x02"
  using assms by (simp add: i8259_init_ready i8259_init_masked i8259_init_vectors)

theorem i8259_init_correct_witness:
  "\<not> irq_masked power_on power_on (i8259_init (pic_dev power_on power_on) []) 2 \<and>
   irq_masked power_on power_on (i8259_init (pic_dev power_on power_on) []) 8"
  using i8259_init_correct [OF pic_dev_responds, of 2 power_on power_on "[]"]
    i8259_init_correct [OF pic_dev_responds, of 8 power_on power_on "[]"] by simp

end
