(* ===== verification/Keyboard.thy ===== *)
theory Keyboard
  imports Terminal I8259
begin

text \<open>
  The keyboard half of \<^verbatim>\<open>src/student-distrib/keyboard.c\<close>: the scan code tables and the interrupt
  handler, from the two port reads to the line buffer and the echo.  The handler is split
  where the source has its early returns.  The calls that leave the driver (the test
  routines behind control-1 to control-5 and the shell of a fresh terminal) are returned
  as a value after the state changes that surround them.
\<close>

subsection \<open>Scan code tables\<close>

definition kbdus :: "u8 list" where
  "kbdus =
    [0, 0, 49, 50, 51, 52, 53, 54, 55, 56, 57, 48, 45, 61, 0, 0, 113, 119, 101, 114, 116, 121,
    117, 105, 111, 112, 91, 93, 10, 0, 97, 115, 100, 102, 103, 104, 106, 107, 108, 59, 39, 96,
    0, 92, 122, 120, 99, 118, 98, 110, 109, 44, 46, 47, 0, 0, 0, 32]
    @ replicate 70 0"

definition caps :: "u8 list" where
  "caps =
    [0, 0, 49, 50, 51, 52, 53, 54, 55, 56, 57, 48, 45, 61, 0, 0, 81, 87, 69, 82, 84, 89, 85, 73,
    79, 80, 91, 93, 10, 0, 65, 83, 68, 70, 71, 72, 74, 75, 76, 59, 39, 96, 0, 92, 90, 88, 67,
    86, 66, 78, 77, 44, 46, 47, 0, 0, 0, 32]
    @ replicate 70 0"

definition shift_no_caps :: "u8 list" where
  "shift_no_caps =
    [0, 0, 33, 64, 35, 36, 37, 94, 38, 42, 40, 41, 95, 43, 0, 0, 81, 87, 69, 82, 84, 89, 85, 73,
    79, 80, 123, 125, 10, 0, 65, 83, 68, 70, 71, 72, 74, 75, 76, 58, 34, 126, 0, 124, 90, 88,
    67, 86, 66, 78, 77, 60, 62, 63, 0, 0, 0, 32]
    @ replicate 70 0"

definition shift_and_caps :: "u8 list" where
  "shift_and_caps =
    [0, 0, 33, 64, 35, 36, 37, 94, 38, 42, 40, 41, 95, 43, 0, 0, 113, 119, 101, 114, 116, 121,
    117, 105, 111, 112, 123, 125, 10, 0, 97, 115, 100, 102, 103, 104, 106, 107, 108, 58, 34,
    126, 0, 124, 122, 120, 99, 118, 98, 110, 109, 60, 62, 63, 0, 0, 0, 32]
    @ replicate 70 0"

subsection \<open>The handler\<close>

text \<open>What the handler reads from outside the driver: the device, the byte behind a table of 128
  codes (scan code 0x80 is not filtered), the value of the uninitialised \<open>print\<close>, the mapped
  kernel memory, the number of free processes and the refusal message.\<close>

record kbd_env =
  kdev :: device
  oob :: u8
  uninit :: u8
  kmem :: "u32 \<Rightarrow> u8 option"
  free_processes :: int
  msg :: u32
  msg_len :: int

datatype kbd_call = Return | Control_1 | Control_2 int | Control_3 int | Control_4 int | Control_5 int | Exec_shell

definition keyboard_intialization :: "device \<Rightarrow> console \<Rightarrow> console" where
  "keyboard_intialization dev s = s\<lparr>ports := enable_irq dev 1 (ports s)\<rparr>"

definition special_key :: "u8 \<Rightarrow> bool" where
  "special_key scan \<longleftrightarrow> scan \<ge> 0x81 \<or> scan = 0x3A \<or> scan = 0x36 \<or> scan = 0x2A \<or> scan = 0x1D \<or> scan = 0x38"

definition toggle :: "int \<Rightarrow> int" where
  "toggle f = (if f = 0 then 1 else 0)"

definition set_modifiers :: "u8 \<Rightarrow> kbd \<Rightarrow> kbd" where
  "set_modifiers scan k =
    (let k = (if scan = 0x1D then k\<lparr>control_flag := 1\<rparr> else if scan = 0x9D then k\<lparr>control_flag := 0\<rparr> else k);
         k = (if scan = 0x3A then k\<lparr>caps_flag := toggle (caps_flag k)\<rparr> else k);
         k = (if scan = 0x36 then k\<lparr>right_shift_flag := 1\<rparr> else if scan = 0xB6 then k\<lparr>right_shift_flag := 0\<rparr> else k);
         k = (if scan = 0x2A then k\<lparr>left_shift_flag := toggle (left_shift_flag k)\<rparr>
              else if scan = 0xAA then k\<lparr>left_shift_flag := toggle (left_shift_flag k)\<rparr> else k)
     in if scan = 0x38 then k\<lparr>alt_flag := 1\<rparr> else if scan = 0xB8 then k\<lparr>alt_flag := 0\<rparr> else k)"

definition table_at_scan :: "kbd_env \<Rightarrow> u8 list \<Rightarrow> u8 \<Rightarrow> u8" where
  "table_at_scan env tab scan = (if unat scan < 128 then tab ! unat scan else oob env)"

definition print_char :: "kbd_env \<Rightarrow> u8 \<Rightarrow> kbd \<Rightarrow> u8" where
  "print_char env scan k =
    (if caps_flag k = 0 \<and> right_shift_flag k = 0 \<and> left_shift_flag k = 0 then table_at_scan env kbdus scan
     else if caps_flag k = 0 \<and> right_shift_flag k = 0 \<and> left_shift_flag k = 1 then table_at_scan env shift_no_caps scan
     else if caps_flag k = 0 \<and> right_shift_flag k = 1 \<and> left_shift_flag k = 0 then table_at_scan env shift_no_caps scan
     else if caps_flag k = 0 \<and> right_shift_flag k = 1 \<and> left_shift_flag k = 1 then table_at_scan env shift_no_caps scan
     else if caps_flag k = 1 \<and> right_shift_flag k = 0 \<and> left_shift_flag k = 0 then table_at_scan env caps scan
     else if caps_flag k = 1 \<and> right_shift_flag k = 0 \<and> left_shift_flag k = 1 then table_at_scan env shift_and_caps scan
     else if caps_flag k = 1 \<and> right_shift_flag k = 1 \<and> left_shift_flag k = 0 then table_at_scan env shift_and_caps scan
     else if caps_flag k = 1 \<and> right_shift_flag k = 1 \<and> left_shift_flag k = 1 then table_at_scan env shift_and_caps scan
     else uninit env)"

text \<open>Backspace, a character of the line, and Enter.\<close>

definition erase_key :: "kbd \<Rightarrow> kbd option" where
  "erase_key k =
    (let c = current_terminal (con k) in
     if line_count k c > 0 then do {
       let n = line_count k c - 1;
       s \<leftarrow> backspace (con k);
       Some (k\<lparr>line_count := (line_count k)(c := n), buffer := (buffer k)(c := (buffer k c)[nat n := 0]),
               inc_or_dec := 0, con := s\<rparr>)
     } else Some k)"

definition char_key :: "u8 \<Rightarrow> kbd \<Rightarrow> kbd option" where
  "char_key c k =
    (let t = current_terminal (con k) in
     if line_count k t < 128 then do {
       s \<leftarrow> (if get_screen_x 1 (con k) = 0 \<and> line_count k t > 0 then putc_number_2 10 (con k) else Some (con k));
       s \<leftarrow> putc_number_2 c s;
       Some (k\<lparr>inc_or_dec := 1, putc_flag := 1, con := s,
               buffer := (buffer k)(t := (buffer k t)[nat (line_count k t) := c]),
               line_count := (line_count k)(t := line_count k t + 1)\<rparr>)
     } else Some k)"

definition enter_key :: "kbd \<Rightarrow> kbd option" where
  "enter_key k = do {
     let t = current_terminal (con k);
     let line = buffer k t;
     s \<leftarrow> putc_number_2 10 (con k);
     Some (k\<lparr>ent_flag := (ent_flag k)(t := 1), read_buf := map (\<lambda>j. line ! j) [0..<128],
             buffer := (buffer k)(t := replicate 128 0), con := s, line_count := (line_count k)(t := 0)\<rparr>)
   }"

definition line_key :: "kbd_env \<Rightarrow> u8 \<Rightarrow> kbd \<Rightarrow> kbd option" where
  "line_key env scan k = do {
     let print = print_char env scan k;
     k \<leftarrow> (if check_screen scan (line_count k (current_terminal (con k))) (inc_or_dec k) (con k)
           then map_option (\<lambda>s. k\<lparr>con := s\<rparr>) (scroll_2 (con k)) else Some k);
     if scan = 0x0E then erase_key k
     else if print \<noteq> 0 then (if scan \<noteq> 0x1C then char_key print k else enter_key k)
     else Some k
   }"

text \<open>\<open>control_l\<close> is passed the two-dimensional array as an array of pointers, so that its row pointer
  is made of four characters of the first line buffer.\<close>

definition row_pointer :: "kbd \<Rightarrow> u32" where
  "row_pointer k =
    (let i = nat (4 * current_terminal (con k)); row = buffer k 0
     in ucast (row ! i) OR push_bit 8 (ucast (row ! (i + 1))) OR push_bit 16 (ucast (row ! (i + 2)))
        OR push_bit 24 (ucast (row ! (i + 3))))"

definition control_key :: "kbd_env \<Rightarrow> u8 \<Rightarrow> kbd \<Rightarrow> (kbd_call \<times> kbd) option" where
  "control_key env scan k = do {
     let t = current_terminal (con k);
     s \<leftarrow> clear (con k);
     if scan = 0x26 then do {
       s \<leftarrow> control_l (kmem env) (row_pointer k) (line_count k t) s;
       Some (Return, k\<lparr>con := cursor_wrapper 1 (set_scroll (line_count k t) s)\<rparr>)
     }
     else if scan = 0x02 then Some (Control_1, k\<lparr>con := s\<rparr>)
     else if scan = 0x03 then Some (Control_2 (test_i k mod 17), k\<lparr>con := s, test_i := test_i k + 1\<rparr>)
     else if scan = 0x04 then Some (Control_3 (test_k k mod 17), k\<lparr>con := s, test_k := test_k k + 1\<rparr>)
     else if scan = 0x05 then
       Some (Control_4 (rtc_test k), k\<lparr>con := s, read_buf := replicate 128 0, ctrl_4_flag := 1, rtc_test := rtc_test k * 2\<rparr>)
     else
       Some (Control_5 2, k\<lparr>con := reset_cursor s, buffer := (buffer k)(t := replicate 128 0), ctrl_4_flag := 0, rtc_test := 2\<rparr>)
   }"

text \<open>The start of the handler, up to the scan code; \<open>None\<close> when the status port reads 0.\<close>

definition read_scan :: "kbd_env \<Rightarrow> kbd \<Rightarrow> u8 option \<times> kbd" where
  "read_scan env k =
    (let k = k\<lparr>putc_flag := 0\<rparr>;
         s = con k;
         s = s\<lparr>ports := send_eoi 1 (ports s)\<rparr>;
         s = cursor_wrapper 1 s;
         (status, tr) = inb (kdev env) 0x64 (ports s)
     in if status = 0 then (None, k\<lparr>con := s\<lparr>ports := tr\<rparr>\<rparr>)
        else let (v, tr) = inb (kdev env) 0x60 tr in (Some (ucast v), k\<lparr>con := s\<lparr>ports := tr\<rparr>\<rparr>))"

definition keyboard :: "kbd_env \<Rightarrow> mem \<Rightarrow> kbd \<Rightarrow> (kbd_call \<times> mem \<times> kbd) option" where
  "keyboard env m k =
    (case read_scan env k of
       (None, k) \<Rightarrow> Some (Return, m, k)
     | (Some scan, k) \<Rightarrow>
         if special_key scan then Some (Return, m, set_modifiers scan k)
         else if control_flag k = 1 \<and> scan \<in> {0x26, 0x02, 0x03, 0x04, 0x05, 0x06} then
           map_option (\<lambda>(c, k). (c, m, k)) (control_key env scan k)
         else if alt_flag k = 1 \<and> scan = 0x3B then
           map_option (\<lambda>k. (Return, m, k)) (first_terminal_switch k)
         else if alt_flag k = 1 \<and> scan = 0x3C then
           map_option (\<lambda>(ex, m, k). (if ex then Exec_shell else Return, m, k))
             (second_terminal_switch (free_processes env) (msg env) (msg_len env) m k)
         else if alt_flag k = 1 \<and> scan = 0x3D then
           map_option (\<lambda>(ex, m, k). (if ex then Exec_shell else Return, m, k))
             (third_terminal_switch (free_processes env) (msg env) (msg_len env) m k)
         else map_option (\<lambda>k. (Return, m, k)) (line_key env scan k))"

subsection \<open>The tables\<close>

lemmas scan_tables = kbdus_def caps_def shift_no_caps_def shift_and_caps_def

lemma table_line_ends:
  assumes "tab \<in> {kbdus, caps, shift_no_caps, shift_and_caps}"
  shows "length tab = 128" "tab ! 28 = 10" "i < 128 \<Longrightarrow> i \<noteq> 28 \<Longrightarrow> tab ! i \<noteq> 10 \<and> tab ! i \<noteq> 13"
proof -
  show "length tab = 128" "tab ! 28 = 10" using assms by (auto simp: scan_tables)
  have "\<forall>t \<in> {kbdus, caps, shift_no_caps, shift_and_caps}. \<forall>i \<in> set [0..<128]. i \<noteq> 28 \<longrightarrow> t ! i \<noteq> 10 \<and> t ! i \<noteq> 13"
    by code_simp
  then show "i < 128 \<Longrightarrow> i \<noteq> 28 \<Longrightarrow> tab ! i \<noteq> 10 \<and> tab ! i \<noteq> 13" using assms by auto
qed

definition flags_ok :: "kbd \<Rightarrow> bool" where
  "flags_ok k \<longleftrightarrow> {caps_flag k, right_shift_flag k, left_shift_flag k, control_flag k, alt_flag k} \<subseteq> {0, 1}"

lemma print_char_table:
  assumes "flags_ok k"
  obtains tab where "tab \<in> {kbdus, caps, shift_no_caps, shift_and_caps}" "print_char env scan k = table_at_scan env tab scan"
proof -
  have "caps_flag k \<in> {0, 1}" "right_shift_flag k \<in> {0, 1}" "left_shift_flag k \<in> {0, 1}"
    using assms by (auto simp: flags_ok_def)
  then have "print_char env scan k \<in> (\<lambda>tab. table_at_scan env tab scan) ` {kbdus, caps, shift_no_caps, shift_and_caps}"
    by (auto simp: print_char_def)
  then show ?thesis using that by blast
qed

lemma print_char_line_ends:
  assumes "flags_ok k" "unat scan < 128"
  shows "scan = 0x1C \<Longrightarrow> print_char env scan k = 10"
    "scan \<noteq> 0x1C \<Longrightarrow> print_char env scan k \<noteq> 10 \<and> print_char env scan k \<noteq> 13"
proof -
  obtain tab where t: "tab \<in> {kbdus, caps, shift_no_caps, shift_and_caps}" "print_char env scan k = tab ! unat scan"
    using print_char_table [OF assms(1), of env scan] assms(2) by (metis table_at_scan_def)
  show "scan = 0x1C \<Longrightarrow> print_char env scan k = 10" using table_line_ends(2) [OF t(1)] t(2) by simp
  assume "scan \<noteq> 0x1C"
  then have "unat scan \<noteq> 28" by (auto simp: word_unat_eq_iff)
  then show "print_char env scan k \<noteq> 10 \<and> print_char env scan k \<noteq> 13"
    using table_line_ends(3) [OF t(1) assms(2)] t(2) by simp
qed

subsection \<open>The line being typed\<close>

definition line_ok :: "kbd \<Rightarrow> int \<Rightarrow> bool" where
  "line_ok k t \<longleftrightarrow> length (buffer k t) = 128 \<and> 0 \<le> line_count k t \<and> line_count k t \<le> 128 \<and>
    drop (nat (line_count k t)) (buffer k t) = replicate (128 - nat (line_count k t)) 0"

definition kbd_ok :: "kbd \<Rightarrow> bool" where
  "kbd_ok k \<longleftrightarrow> mapped (con k) \<and> cursor_ok (con k) \<and> flags_ok k \<and> length (read_buf k) = 128 \<and>
    (\<forall>t \<in> {0, 1, 2}. line_ok k t)"

text \<open>The characters typed so far on terminal \<open>t\<close>, and what a key does to them.\<close>

definition typed :: "kbd \<Rightarrow> int \<Rightarrow> u8 list" where
  "typed k t = take (nat (line_count k t)) (buffer k t)"

definition edit :: "u8 \<Rightarrow> u8 \<Rightarrow> u8 list \<Rightarrow> u8 list" where
  "edit scan c line =
    (if scan = 0x0E then butlast line
     else if c = 0 then line
     else if scan = 0x1C then []
     else if length line < 128 then line @ [c] else line)"

lemma buffer_typed: "line_ok k t \<Longrightarrow> buffer k t = typed k t @ replicate (128 - length (typed k t)) 0"
  unfolding line_ok_def typed_def by (metis append_take_drop_id length_take min.absorb2 nat_le_iff of_nat_numeral)

lemma typed_length: "line_ok k t \<Longrightarrow> length (typed k t) = nat (line_count k t)"
  by (auto simp: line_ok_def typed_def min_def)

text \<open>A buffer that holds a line and zeros, with the count to match.\<close>

lemma line_okI:
  assumes "buffer k t = line @ replicate (128 - length line) 0" "line_count k t = int (length line)" "length line \<le> 128"
  shows "line_ok k t" "typed k t = line"
  using assms by (simp_all add: line_ok_def typed_def)

lemma append_update: "n = length xs \<Longrightarrow> 0 < d \<Longrightarrow> (xs @ replicate d a)[n := c] = (xs @ [c]) @ replicate (d - 1) a"
  by (cases d) (simp_all add: list_update_append)

lemma butlast_update:
  assumes "xs \<noteq> []" "n = length xs - 1"
  shows "(xs @ replicate d a)[n := a] = butlast xs @ replicate (Suc d) a"
proof -
  obtain ys y where "xs = ys @ [y]" using assms(1) rev_exhaust by blast
  then show ?thesis using assms(2) by (simp add: list_update_append)
qed

text \<open>The console side of a key: the view of the displayed terminal changes to one with the cursor
  on the screen, and nothing else does.\<close>

definition echoed :: "console \<Rightarrow> console \<Rightarrow> bool" where
  "echoed s s' \<longleftrightarrow> (\<exists>w. redrawn (current_terminal s) w s s' \<and> in_range w)"

lemma echoedI: "redrawn (current_terminal s) w s s' \<Longrightarrow> in_range w \<Longrightarrow> echoed s s'"
  unfolding echoed_def by blast

lemma echoed_facts:
  assumes "echoed s s'" "cursor_ok s"
  shows "mapped s'" "cursor_ok s'" "current_terminal s' = current_terminal s" "active_terminal s' = active_terminal s"
    "\<forall>t \<in> {0, 1, 2}. t \<noteq> current_terminal s \<longrightarrow> view s' t = view s t" "ports s' = ports s"
proof -
  obtain w where w: "redrawn (current_terminal s) w s s'" "in_range w" using assms(1) by (auto simp: echoed_def)
  then show "mapped s'" "current_terminal s' = current_terminal s" "active_terminal s' = active_terminal s"
    "\<forall>t \<in> {0, 1, 2}. t \<noteq> current_terminal s \<longrightarrow> view s' t = view s t" "ports s' = ports s"
    by (simp_all add: redrawn_def)
  have "in_range (view s' t)" if "t \<in> {0, 1, 2}" for t
    using that w assms(2) unfolding redrawn_def cursor_ok_view by (cases "t = current_terminal s") auto
  then show "cursor_ok s'" by (simp add: cursor_ok_view)
qed

lemma echoed_trans: "echoed s s1 \<Longrightarrow> cursor_ok s \<Longrightarrow> echoed s1 s2 \<Longrightarrow> echoed s s2"
  unfolding echoed_def by (metis redrawn_def redrawn_trans)

lemma current_in_range: "mapped s \<Longrightarrow> cursor_ok s \<Longrightarrow> in_range (view s (current_terminal s))"
  by (simp add: cursor_ok_view mapped_def) auto

lemma scroll_2_echoed:
  assumes "mapped s" "cursor_ok s"
  shows "\<exists>s'. scroll_2 s = Some s' \<and> echoed s s' \<and> screenX s' (current_terminal s) = 0 \<and> screenY s' (current_terminal s) = 23"
proof -
  obtain s' where s': "scroll_2 s = Some s'" "redrawn (current_terminal s) (vscroll (view s (current_terminal s))) s s'"
    using scroll_2_view [OF assms(1)] by blast
  then have "echoed s s'" using vscroll_in_range current_in_range [OF assms] echoedI by blast
  moreover have "screenX s' (current_terminal s) = 0 \<and> screenY s' (current_terminal s) = 23"
    using s'(2) by (simp add: redrawn_def view_def)
  ultimately show ?thesis using s'(1) by blast
qed

lemma newline_echoed:
  assumes "mapped s" "cursor_ok s" "screenY s (current_terminal s) < 24"
  shows "\<exists>s'. putc_number_2 10 s = Some s' \<and> echoed s s'"
proof -
  obtain s' where s': "putc_number_2 10 s = Some s'" "redrawn (current_terminal s) (vput 10 (view s (current_terminal s))) s s'"
    using putc_number_2_view [OF assms(1) in_range_on_page [OF current_in_range [OF assms(1,2)]]] by blast
  moreover have "in_range (vput 10 (view s (current_terminal s)))"
    using current_in_range [OF assms(1,2)] assms(3) by (simp add: view_def)
  ultimately show ?thesis using echoedI by blast
qed

text \<open>A character, after a line feed when the cursor has wrapped.  On the bottom row the character
  goes to the page's spare bytes and the cursor returns to the top row.\<close>

lemma char_echoed:
  assumes "mapped s" "cursor_ok s" "c \<noteq> 10" "c \<noteq> 13"
  shows "\<exists>s1 s'. (if wrap then putc_number_2 10 s else Some s) = Some s1 \<and> putc_number_2 c s1 = Some s' \<and> echoed s s'"
proof -
  let ?t = "current_terminal s"
  obtain cells x y where v: "view s ?t = (cells, x, y)" by (cases "view s ?t")
  have r: "in_range (cells, x, y)" using current_in_range [OF assms(1,2)] v by simp
  let ?w = "if wrap then vput 10 (view s ?t) else view s ?t"
  have "\<exists>s1. (if wrap then putc_number_2 10 s else Some s) = Some s1 \<and> redrawn ?t ?w s s1"
    using putc_number_2_view [OF assms(1), of 10] r v in_range_on_page [OF r] redrawn_refl [OF assms(1), of ?t] by auto
  then obtain s1 where s1: "(if wrap then putc_number_2 10 s else Some s) = Some s1" "redrawn ?t ?w s s1" by blast
  have "on_page ?w" using r v by auto
  then obtain s' where s': "putc_number_2 c s1 = Some s'" "redrawn ?t (vput c ?w) s1 s'"
    using putc_number_2_view [of s1 c] s1(2) by (auto simp: redrawn_def)
  have "in_range (vput c ?w)" using r v assms(3,4) by auto
  then have "echoed s s'" using redrawn_trans [OF s1(2) s'(2)] echoedI by blast
  then show ?thesis using s1(1) s'(1) by blast
qed

lemma backspace_echoed:
  assumes "mapped s" "cursor_ok s" "\<not> (screenX s (current_terminal s) = 0 \<and> screenY s (current_terminal s) = 0)"
  shows "\<exists>s'. backspace s = Some s' \<and> echoed s s'"
proof -
  note r = current_in_range [OF assms(1,2)]
  obtain s' where "backspace s = Some s'" "redrawn (current_terminal s) (vback (view s (current_terminal s))) s s'"
    using backspace_view [OF assms(1) r assms(3)] by blast
  moreover have "in_range (vback (view s (current_terminal s)))" using r assms(3) by (auto simp: view_def)
  ultimately show ?thesis using echoedI by blast
qed

lemma kbd_ok_step:
  assumes "kbd_ok k" "echoed (con k) (con k')" "flags_ok k'" "length (read_buf k') = 128"
    "line_ok k' (current_terminal (con k))"
    "\<forall>t. t \<noteq> current_terminal (con k) \<longrightarrow> buffer k' t = buffer k t \<and> line_count k' t = line_count k t"
  shows "kbd_ok k'"
proof -
  have "cursor_ok (con k)" using assms(1) by (simp add: kbd_ok_def)
  note e = echoed_facts [OF assms(2) this]
  have "line_ok k' t" if "t \<in> {0, 1, 2}" for t
    using that assms(1,5,6) by (cases "t = current_terminal (con k)") (auto simp: kbd_ok_def line_ok_def)
  then show ?thesis using e assms(3,4) by (simp add: kbd_ok_def)
qed

lemma erase_key_ok:
  assumes "kbd_ok k" "t = current_terminal (con k)" "\<not> (screenX (con k) t = 0 \<and> screenY (con k) t = 0 \<and> line_count k t > 0)"
  shows "\<exists>k'. erase_key k = Some k' \<and> kbd_ok k' \<and> echoed (con k) (con k') \<and> typed k' t = butlast (typed k t) \<and>
    (\<forall>u. u \<noteq> t \<longrightarrow> typed k' u = typed k u) \<and> ent_flag k' = ent_flag k \<and> read_buf k' = read_buf k"
proof -
  have ok: "mapped (con k)" "cursor_ok (con k)" "flags_ok k" "length (read_buf k) = 128" and lok: "line_ok k t"
    using assms(1,2) by (auto simp: kbd_ok_def mapped_def)
  show ?thesis
  proof (cases "line_count k t > 0")
    case False
    then have "typed k t = []" using typed_length [OF lok] by simp
    moreover have "echoed (con k) (con k)"
      using redrawn_refl [OF ok(1)] current_in_range [OF ok(1,2)] echoedI by blast
    ultimately show ?thesis using False assms(1,2) by (simp add: erase_key_def)
  next
    case True
    obtain s where s: "backspace (con k) = Some s" "echoed (con k) s"
      using backspace_echoed [OF ok(1,2)] assms(2,3) True by auto
    define n where "n = nat (line_count k t - 1)"
    let ?k = "k\<lparr>line_count := (line_count k)(t := line_count k t - 1), buffer := (buffer k)(t := (buffer k t)[n := 0]),
      inc_or_dec := 0, con := s\<rparr>"
    have ne: "typed k t \<noteq> []" "n = length (typed k t) - 1"
      using typed_length [OF lok] True by (auto simp: n_def)
    have le: "length (typed k t) \<le> 128" using lok typed_length [OF lok] by (auto simp: line_ok_def)
    have b: "buffer ?k t = butlast (typed k t) @ replicate (128 - length (butlast (typed k t))) 0"
    proof -
      have "Suc (128 - length (typed k t)) = 128 - length (butlast (typed k t))"
        using length_greater_0_conv [THEN iffD2, OF ne(1)] le unfolding length_butlast by arith
      then show ?thesis
        using butlast_update [OF ne, of "128 - length (typed k t)" 0] buffer_typed [OF lok] by simp
    qed
    have c: "line_count ?k t = int (length (butlast (typed k t)))"
      using typed_length [OF lok] True by simp
    have l: "line_ok ?k t" "typed ?k t = butlast (typed k t)" using line_okI [OF b c] le by simp_all
    have "kbd_ok ?k"
      using assms(1,2) s(2) ok l(1) by (intro kbd_ok_step [OF assms(1)]) (auto simp: flags_ok_def)
    moreover have "erase_key k = Some ?k" using True s(1) assms(2) by (simp add: erase_key_def n_def Let_def)
    moreover have "typed ?k u = typed k u" if "u \<noteq> t" for u using that by (simp add: typed_def)
    ultimately show ?thesis using l(2) s(2) by (intro exI [of _ ?k]) simp
  qed
qed

lemma char_key_ok:
  assumes "kbd_ok k" "t = current_terminal (con k)" "c \<noteq> 10" "c \<noteq> 13"
  shows "\<exists>k'. char_key c k = Some k' \<and> kbd_ok k' \<and> echoed (con k) (con k') \<and>
    typed k' t = (if length (typed k t) < 128 then typed k t @ [c] else typed k t) \<and>
    (\<forall>u. u \<noteq> t \<longrightarrow> typed k' u = typed k u) \<and> ent_flag k' = ent_flag k \<and> read_buf k' = read_buf k"
proof -
  have ok: "mapped (con k)" "cursor_ok (con k)" "flags_ok k" "length (read_buf k) = 128" and lok: "line_ok k t"
    using assms(1,2) by (auto simp: kbd_ok_def mapped_def)
  note len = typed_length [OF lok]
  show ?thesis
  proof (cases "line_count k t < 128")
    case False
    then have "\<not> length (typed k t) < 128" using len by simp
    moreover have "echoed (con k) (con k)"
      using redrawn_refl [OF ok(1)] current_in_range [OF ok(1,2)] echoedI by blast
    ultimately show ?thesis using False assms(1,2) by (simp add: char_key_def)
  next
    case True
    obtain s1 s where s: "(if get_screen_x 1 (con k) = 0 \<and> line_count k t > 0 then putc_number_2 10 (con k) else Some (con k)) = Some s1"
      "putc_number_2 c s1 = Some s" "echoed (con k) s"
      using char_echoed [OF ok(1,2) assms(3,4)] by blast
    let ?k = "k\<lparr>inc_or_dec := 1, putc_flag := 1, con := s, buffer := (buffer k)(t := (buffer k t)[nat (line_count k t) := c]),
      line_count := (line_count k)(t := line_count k t + 1)\<rparr>"
    have lt: "length (typed k t) < 128" using len True lok by (simp add: line_ok_def)
    have b: "buffer ?k t = (typed k t @ [c]) @ replicate (128 - length (typed k t @ [c])) 0"
      using append_update [OF len [symmetric], of "128 - length (typed k t)" 0 c] buffer_typed [OF lok] lt by simp
    have n: "line_count ?k t = int (length (typed k t @ [c]))" using len lok by (simp add: line_ok_def)
    have l: "line_ok ?k t" "typed ?k t = typed k t @ [c]" using line_okI [OF b n] lt by simp_all
    have "kbd_ok ?k"
      using assms(1,2) s(3) ok l(1) by (intro kbd_ok_step [OF assms(1)]) (auto simp: flags_ok_def)
    moreover have "char_key c k = Some ?k" using True s(1,2) assms(2) by (simp add: char_key_def Let_def)
    moreover have "typed ?k u = typed k u" if "u \<noteq> t" for u using that by (simp add: typed_def)
    ultimately show ?thesis using l(2) lt s(3) by (intro exI [of _ ?k]) simp
  qed
qed

lemma enter_key_ok:
  assumes "kbd_ok k" "t = current_terminal (con k)" "screenY (con k) t < 24"
  shows "\<exists>k'. enter_key k = Some k' \<and> kbd_ok k' \<and> echoed (con k) (con k') \<and> typed k' t = [] \<and>
    (\<forall>u. u \<noteq> t \<longrightarrow> typed k' u = typed k u) \<and> ent_flag k' = (ent_flag k)(t := 1) \<and>
    read_buf k' = typed k t @ replicate (128 - length (typed k t)) 0"
proof -
  have ok: "mapped (con k)" "cursor_ok (con k)" "flags_ok k" "length (read_buf k) = 128" and lok: "line_ok k t"
    using assms(1,2) by (auto simp: kbd_ok_def mapped_def)
  obtain s where s: "putc_number_2 10 (con k) = Some s" "echoed (con k) s"
    using newline_echoed [OF ok(1,2)] assms(2,3) by auto
  have line: "map (\<lambda>j. buffer k t ! j) [0..<128] = buffer k t"
    using lok by (intro nth_equalityI) (simp_all add: line_ok_def)
  let ?k = "k\<lparr>ent_flag := (ent_flag k)(t := 1), read_buf := buffer k t, buffer := (buffer k)(t := replicate 128 0),
    con := s, line_count := (line_count k)(t := 0)\<rparr>"
  have l: "line_ok ?k t" "typed ?k t = []" by (rule line_okI [of _ _ "[]"]; simp)+
  have "kbd_ok ?k"
    using assms(1,2) s(2) ok l(1) lok by (intro kbd_ok_step [OF assms(1)]) (auto simp: flags_ok_def line_ok_def)
  moreover have "enter_key k = Some ?k" using s(1) line assms(2) by (simp add: enter_key_def Let_def del: upt_rec_numeral)
  moreover have "typed ?k u = typed k u" if "u \<noteq> t" for u using that by (simp add: typed_def)
  ultimately show ?thesis using l(2) s(2) buffer_typed [OF lok] by (intro exI [of _ ?k]) simp
qed

lemma check_scroll:
  fixes scan :: u8
  assumes "kbd_ok k" "t = current_terminal (con k)"
  defines "k1 \<equiv> (if check_screen scan (line_count k t) (inc_or_dec k) (con k)
           then map_option (\<lambda>s. k\<lparr>con := s\<rparr>) (scroll_2 (con k)) else Some k)"
  shows "\<exists>s. k1 = Some (k\<lparr>con := s\<rparr>) \<and> kbd_ok (k\<lparr>con := s\<rparr>) \<and> echoed (con k) s \<and>
    (scan = 0x1C \<longrightarrow> screenY s t < 24) \<and> (screenX s t = 0 \<and> screenY s t = 0 \<longrightarrow> screenX (con k) t = 0 \<and> screenY (con k) t = 0)"
proof -
  have ok: "mapped (con k)" "cursor_ok (con k)" using assms(1) by (auto simp: kbd_ok_def)
  have id: "echoed (con k) (con k)"
    using redrawn_refl [OF ok(1)] current_in_range [OF ok] echoedI by blast
  have "current_terminal (con k) \<in> {0, 1, 2}" using ok(1) by (simp add: mapped_def)
  then have l: "line_ok k (current_terminal (con k))" "flags_ok k" "length (read_buf k) = 128"
    using assms(1) unfolding kbd_ok_def by blast+
  have keep: "kbd_ok (k\<lparr>con := s\<rparr>)" if "echoed (con k) s" for s
    using that l by (intro kbd_ok_step [OF assms(1)]) (simp_all add: flags_ok_def line_ok_def)
  show ?thesis
  proof (cases "check_screen scan (line_count k t) (inc_or_dec k) (con k)")
    case True
    then show ?thesis using scroll_2_echoed [OF ok] keep assms(2) by (auto simp: k1_def)
  next
    case False
    have "screenY (con k) t \<le> 24"
      using current_in_range [OF ok] assms(2) by (simp add: view_def)
    then have "scan = 0x1C \<longrightarrow> screenY (con k) t < 24"
      using False assms(2) by (auto simp: check_screen_def split: if_splits)
    then show ?thesis using False id assms(1) by (intro exI [of _ "con k"]) (simp add: k1_def)
  qed
qed

lemma line_key_ok:
  fixes env :: kbd_env
  assumes "kbd_ok k" "unat scan < 128" "t = current_terminal (con k)"
    "\<not> (scan = 0x0E \<and> line_count k t > 0 \<and> screenX (con k) t = 0 \<and> screenY (con k) t = 0)"
  defines "c \<equiv> print_char env scan k"
  shows "\<exists>k'. line_key env scan k = Some k' \<and> kbd_ok k' \<and> echoed (con k) (con k') \<and>
    typed k' t = edit scan c (typed k t) \<and> (\<forall>u. u \<noteq> t \<longrightarrow> typed k' u = typed k u) \<and>
    (if scan = 0x1C then ent_flag k' = (ent_flag k)(t := 1) \<and> read_buf k' = typed k t @ replicate (128 - length (typed k t)) 0
     else ent_flag k' = ent_flag k \<and> read_buf k' = read_buf k)"
proof -
  obtain s where s: "(if check_screen scan (line_count k t) (inc_or_dec k) (con k)
        then map_option (\<lambda>s. k\<lparr>con := s\<rparr>) (scroll_2 (con k)) else Some k) = Some (k\<lparr>con := s\<rparr>)"
    "kbd_ok (k\<lparr>con := s\<rparr>)" "echoed (con k) s" "scan = 0x1C \<longrightarrow> screenY s t < 24"
    "screenX s t = 0 \<and> screenY s t = 0 \<longrightarrow> screenX (con k) t = 0 \<and> screenY (con k) t = 0"
    using check_scroll [OF assms(1,3)] by blast
  let ?k = "k\<lparr>con := s\<rparr>"
  have cur: "cursor_ok (con k)" "flags_ok k" using assms(1) by (simp_all add: kbd_ok_def)
  have t: "t = current_terminal (con ?k)" using echoed_facts(3) [OF s(3) cur(1)] assms(3) by simp
  have same: "typed ?k = typed k" by (simp add: typed_def fun_eq_iff)
  have line: "line_key env scan k = (if scan = 0x0E then erase_key ?k
      else if c \<noteq> 0 then (if scan \<noteq> 0x1C then char_key c ?k else enter_key ?k) else Some ?k)"
    using s(1) assms(3) by (simp add: line_key_def Let_def c_def)
  have echo: "echoed (con k) (con k')" if "echoed s (con k')" for k' :: kbd
    using echoed_trans [OF s(3) cur(1) that] .
  consider "scan = 0x0E" | "scan \<noteq> 0x0E" "c = 0" | "scan \<noteq> 0x0E" "c \<noteq> 0" "scan = 0x1C" | "scan \<noteq> 0x0E" "c \<noteq> 0" "scan \<noteq> 0x1C"
    by blast
  then show ?thesis
  proof cases
    case 1
    have "\<not> (screenX (con ?k) t = 0 \<and> screenY (con ?k) t = 0 \<and> line_count ?k t > 0)" using 1 assms(4) s(5) by auto
    from erase_key_ok [OF s(2) t this] obtain k' where k':
      "erase_key ?k = Some k'" "kbd_ok k'" "echoed s (con k')" "typed k' t = butlast (typed ?k t)"
      "\<forall>u. u \<noteq> t \<longrightarrow> typed k' u = typed ?k u" "ent_flag k' = ent_flag k \<and> read_buf k' = read_buf k" by auto
    then show ?thesis using 1 line same echo [OF k'(3)] by (intro exI [of _ k']) (simp add: edit_def)
  next
    case 2
    then have "scan \<noteq> 0x1C" using print_char_line_ends(1) [OF cur(2) assms(2), of env] by (auto simp: c_def)
    then show ?thesis using 2 line s(2,3) same by (simp add: edit_def)
  next
    case 3
    then have "screenY (con ?k) t < 24" using s(4) by simp
    from enter_key_ok [OF s(2) t this] obtain k' where k':
      "enter_key ?k = Some k'" "kbd_ok k'" "echoed s (con k')" "typed k' t = []"
      "\<forall>u. u \<noteq> t \<longrightarrow> typed k' u = typed ?k u" "ent_flag k' = (ent_flag k)(t := 1) \<and> read_buf k' = typed ?k t @ replicate (128 - length (typed ?k t)) 0" by auto
    then show ?thesis using 3 line same echo [OF k'(3)] by (intro exI [of _ k']) (simp add: edit_def)
  next
    case 4
    have "c \<noteq> 10" "c \<noteq> 13" using print_char_line_ends(2) [OF cur(2) assms(2), of env] 4 by (auto simp: c_def)
    from char_key_ok [OF s(2) t this] obtain k' where k':
      "char_key c ?k = Some k'" "kbd_ok k'" "echoed s (con k')" "typed k' t = (if length (typed ?k t) < 128 then typed ?k t @ [c] else typed ?k t)"
      "\<forall>u. u \<noteq> t \<longrightarrow> typed k' u = typed ?k u" "ent_flag k' = ent_flag k \<and> read_buf k' = read_buf k" by auto
    then show ?thesis using 4 line same echo [OF k'(3)] by (intro exI [of _ k']) (simp add: edit_def)
  qed
qed

lemma line_key_flags:
  assumes "line_key env scan k = Some k'"
  shows "caps_flag k' = caps_flag k \<and> right_shift_flag k' = right_shift_flag k \<and> left_shift_flag k' = left_shift_flag k"
proof -
  have erase: "erase_key k1 = Some k' \<Longrightarrow> caps_flag k' = caps_flag k1 \<and> right_shift_flag k' = right_shift_flag k1 \<and>
      left_shift_flag k' = left_shift_flag k1" for k1
    by (auto simp: erase_key_def Let_def split: if_splits Option.bind_splits)
  have char: "char_key c k1 = Some k' \<Longrightarrow> caps_flag k' = caps_flag k1 \<and> right_shift_flag k' = right_shift_flag k1 \<and>
      left_shift_flag k' = left_shift_flag k1" for c k1
    by (auto simp: char_key_def Let_def split: if_splits Option.bind_splits)
  have enter: "enter_key k1 = Some k' \<Longrightarrow> caps_flag k' = caps_flag k1 \<and> right_shift_flag k' = right_shift_flag k1 \<and>
      left_shift_flag k' = left_shift_flag k1" for k1
    by (auto simp: enter_key_def Let_def split: Option.bind_splits)
  define G where "G k1 = (if scan = 0x0E then erase_key k1 else if print_char env scan k \<noteq> 0
      then (if scan \<noteq> 0x1C then char_key (print_char env scan k) k1 else enter_key k1) else Some k1)" for k1
  have "\<exists>s. G (k\<lparr>con := s\<rparr>) = Some k'"
  proof (cases "check_screen scan (line_count k (current_terminal (con k))) (inc_or_dec k) (con k)")
    case True
    then show ?thesis using assms by (cases "scroll_2 (con k)") (auto simp: line_key_def G_def Let_def)
  next
    case False
    then have "G k = Some k'" using assms by (simp add: line_key_def G_def Let_def)
    then show ?thesis by (intro exI [of _ "con k"]) simp
  qed
  then obtain s where "G (k\<lparr>con := s\<rparr>) = Some k'" by blast
  then show ?thesis
    using erase [of "k\<lparr>con := s\<rparr>"] char [of "print_char env scan k" "k\<lparr>con := s\<rparr>"] enter [of "k\<lparr>con := s\<rparr>"]
    by (auto simp: G_def split: if_splits)
qed

lemma print_char_cong:
  "caps_flag k' = caps_flag k \<and> right_shift_flag k' = right_shift_flag k \<and> left_shift_flag k' = left_shift_flag k \<Longrightarrow>
   print_char env scan k' = print_char env scan k"
  by (simp add: print_char_def)

lemma read_scan_state:
  assumes "read_scan env k = (sc, k0)"
  shows "typed k0 = typed k" "kbd_ok k \<Longrightarrow> kbd_ok k0" "current_terminal (con k0) = current_terminal (con k)"
    "view (con k0) = view (con k)" "ent_flag k0 = ent_flag k" "read_buf k0 = read_buf k" "line_count k0 = line_count k"
    "print_char env scan k0 = print_char env scan k" "control_flag k0 = control_flag k" "alt_flag k0 = alt_flag k"
    "screenX (con k0) = screenX (con k)" "screenY (con k0) = screenY (con k)"
proof -
  obtain tr where k0: "k0 = k\<lparr>putc_flag := 0, con := (con k)\<lparr>ports := tr\<rparr>\<rparr>"
    using assms unfolding read_scan_def Let_def cursor_wrapper_def update_cursor_def
    by (auto simp: inb_def split: if_splits)
  have v: "view ((con k)\<lparr>ports := tr\<rparr>) = view (con k)" by (simp add: view_def screen_def fun_eq_iff)
  show "typed k0 = typed k" by (simp add: k0 typed_def fun_eq_iff)
  show "kbd_ok k0" if "kbd_ok k"
    using that unfolding kbd_ok_def flags_ok_def line_ok_def cursor_ok_view by (simp add: k0 v)
  show "current_terminal (con k0) = current_terminal (con k)"
    "view (con k0) = view (con k)" "ent_flag k0 = ent_flag k" "read_buf k0 = read_buf k" "line_count k0 = line_count k"
    "print_char env scan k0 = print_char env scan k" "control_flag k0 = control_flag k" "alt_flag k0 = alt_flag k"
    "screenX (con k0) = screenX (con k)" "screenY (con k0) = screenY (con k)"
    by (simp_all add: k0 v print_char_def)
qed

lemma type_line:
  assumes "kbd_ok k" "t = current_terminal (con k)" "length (typed k t) + length scans \<le> 128"
    "\<forall>sc \<in> set scans. unat sc < 128 \<and> sc \<noteq> 0x0E \<and> sc \<noteq> 0x1C \<and> print_char env sc k \<noteq> 0"
  shows "\<exists>k'. fold_opt (line_key env) scans k = Some k' \<and> kbd_ok k' \<and> current_terminal (con k') = t \<and>
    typed k' t = typed k t @ map (\<lambda>sc. print_char env sc k) scans"
  using assms
proof (induction scans arbitrary: k)
  case (Cons sc scans)
  have sc: "unat sc < 128" "sc \<noteq> 0x0E" "sc \<noteq> 0x1C" "print_char env sc k \<noteq> 0" using Cons.prems(4) by auto
  obtain k1 where k1: "line_key env sc k = Some k1" "kbd_ok k1" "echoed (con k) (con k1)"
    "typed k1 t = edit sc (print_char env sc k) (typed k t)"
    using line_key_ok [OF Cons.prems(1) sc(1) Cons.prems(2), of env] sc(2) by auto
  have t1: "t = current_terminal (con k1)"
    using echoed_facts(3) [OF k1(3)] Cons.prems(1,2) by (simp add: kbd_ok_def)
  have typed: "typed k1 t = typed k t @ [print_char env sc k]"
    using k1(4) sc Cons.prems(3) by (simp add: edit_def)
  have same: "print_char env x k1 = print_char env x k" for x
    by (rule print_char_cong [OF line_key_flags [OF k1(1)]])
  have len: "length (typed k1 t) + length scans \<le> 128" using typed Cons.prems(3) by simp
  have rest: "\<forall>sc \<in> set scans. unat sc < 128 \<and> sc \<noteq> 0x0E \<and> sc \<noteq> 0x1C \<and> print_char env sc k1 \<noteq> 0"
    using Cons.prems(4) same by simp
  obtain k' where k': "fold_opt (line_key env) scans k1 = Some k'" "kbd_ok k'" "current_terminal (con k') = t"
    "typed k' t = typed k1 t @ map (\<lambda>sc. print_char env sc k1) scans"
    using Cons.IH [OF k1(2) t1 len rest] by blast
  then show ?case using k1(1) typed same by (intro exI [of _ k']) simp
qed simp

subsection \<open>Properties\<close>

text \<open>C9: with neither control nor alt held, an interrupt for a key below 0x80 that is no modifier
  edits the line of the displayed terminal: a character is appended while the line is
  shorter than 128, backspace removes the last one, Enter hands the line over padded with
  NULs and raises the enter flag of that terminal.  The lines and the screens of the other
  terminals stay, the cursor stays on the screen, and the driver's invariant is kept.  (With the
  cursor in the top left corner, backspace on a non-empty line is excluded: see
  \<open>backspace_page_fault\<close>.)\<close>

theorem keyboard_edits_line:
  assumes "kbd_ok k" and "read_scan env k = (Some scan, k0)" and "\<not> special_key scan" and "scan \<noteq> 0x80"
    and "control_flag k = 0" and "alt_flag k = 0" and "t = current_terminal (con k)"
    and "\<not> (scan = 0x0E \<and> line_count k t > 0 \<and> screenX (con k) t = 0 \<and> screenY (con k) t = 0)"
  shows "\<exists>k'. keyboard env m k = Some (Return, m, k') \<and> kbd_ok k' \<and>
    typed k' t = edit scan (print_char env scan k) (typed k t) \<and>
    (\<forall>u. u \<noteq> t \<longrightarrow> typed k' u = typed k u) \<and> (\<forall>u \<in> {0, 1, 2}. u \<noteq> t \<longrightarrow> view (con k') u = view (con k) u) \<and>
    (if scan = 0x1C then ent_flag k' = (ent_flag k)(t := 1) \<and> read_buf k' = typed k t @ replicate (128 - length (typed k t)) 0
     else ent_flag k' = ent_flag k \<and> read_buf k' = read_buf k)"
proof -
  note st = read_scan_state [OF assms(2)]
  have "\<not> scan \<ge> 0x81" using assms(3) by (simp add: special_key_def)
  then have lt: "unat scan < 128" using assms(4) by (auto simp: word_le_nat_alt word_unat_eq_iff)
  have key: "keyboard env m k = map_option (\<lambda>k. (Return, m, k)) (line_key env scan k0)"
    using assms(2,3,5,6) st(9,10) by (simp add: keyboard_def)
  have t: "t = current_terminal (con k0)" using st(3) assms(7) by simp
  have ok: "kbd_ok k0" using st(2) assms(1) by simp
  have "\<not> (scan = 0x0E \<and> line_count k0 t > 0 \<and> screenX (con k0) t = 0 \<and> screenY (con k0) t = 0)"
    using assms(8) st(7,11,12) by simp
  then obtain k' where k': "line_key env scan k0 = Some k'" "kbd_ok k'" "echoed (con k0) (con k')"
    "typed k' t = edit scan (print_char env scan k0) (typed k0 t)" "\<forall>u. u \<noteq> t \<longrightarrow> typed k' u = typed k0 u"
    "if scan = 0x1C then ent_flag k' = (ent_flag k0)(t := 1) \<and> read_buf k' = typed k0 t @ replicate (128 - length (typed k0 t)) 0
     else ent_flag k' = ent_flag k0 \<and> read_buf k' = read_buf k0"
    using line_key_ok [OF ok lt t, of env] by blast
  have "\<forall>u \<in> {0, 1, 2}. u \<noteq> t \<longrightarrow> view (con k') u = view (con k0) u"
    using echoed_facts(5) [OF k'(3)] ok t by (simp add: kbd_ok_def)
  then show ?thesis using key k' st by (intro exI [of _ k']) (simp split: if_splits)
qed

definition fresh_kbd :: kbd where
  "fresh_kbd = line_ready\<lparr>ent_flag := (\<lambda>_. 0), read_buf := replicate 128 0\<rparr>"

definition key_env :: "u8 \<Rightarrow> kbd_env" where
  "key_env scan = \<lparr>kdev = (\<lambda>tr p. if p = 0x60 then scan else 1), oob = 0, uninit = 0, kmem = (\<lambda>_. None),
     free_processes = 1, msg = 64, msg_len = 0\<rparr>"

lemma fresh_kbd_ok: "kbd_ok fresh_kbd"
  using boot_console_mapped
  by (simp add: kbd_ok_def fresh_kbd_def line_ready_def flags_ok_def line_ok_def cursor_ok_view)

lemma key_env_scan: "fst (read_scan (key_env scan) k) = Some scan"
  by (simp add: read_scan_def key_env_def inb_def Let_def)

theorem keyboard_edits_line_witness:
  "\<exists>k'. keyboard (key_env 0x1E) (\<lambda>_. 0) fresh_kbd = Some (Return, (\<lambda>_. 0), k') \<and> typed k' 0 = [97]"
proof -
  obtain k0 where scan: "read_scan (key_env 0x1E) fresh_kbd = (Some 0x1E, k0)"
    using key_env_scan [of "0x1E" fresh_kbd] by (metis prod.collapse)
  have "\<not> special_key 0x1E" "(0x1E :: u8) \<noteq> 0x80" by (simp_all add: special_key_def)
  moreover have "control_flag fresh_kbd = 0" "alt_flag fresh_kbd = 0" "0 = current_terminal (con fresh_kbd)"
    by (simp_all add: fresh_kbd_def line_ready_def boot_console_def)
  moreover have "\<not> ((0x1E :: u8) = 0x0E \<and> line_count fresh_kbd 0 > 0 \<and> screenX (con fresh_kbd) 0 = 0 \<and> screenY (con fresh_kbd) 0 = 0)"
    by simp
  ultimately obtain k' where "keyboard (key_env 0x1E) (\<lambda>_. 0) fresh_kbd = Some (Return, (\<lambda>_. 0), k')"
    "typed k' 0 = edit 0x1E (print_char (key_env 0x1E) 0x1E fresh_kbd) (typed fresh_kbd 0)"
    using keyboard_edits_line [OF fresh_kbd_ok scan, of 0 "\<lambda>_. 0"] by blast
  moreover have "print_char (key_env 0x1E) 0x1E fresh_kbd = 97" "typed fresh_kbd 0 = []"
    by (simp_all add: print_char_def table_at_scan_def fresh_kbd_def line_ready_def kbdus_def typed_def)
  ultimately show ?thesis by (simp add: edit_def)
qed



text \<open>Control-5 empties the line buffer and homes the cursor but keeps the line count, so that the
  next backspace draws before the first cell of video memory and takes a page fault.\<close>

theorem backspace_page_fault:
  assumes "kbd_ok k" "line_count k (current_terminal (con k)) > 0"
  shows "\<exists>k1. control_key env 0x06 k = Some (Control_5 2, k1) \<and> erase_key k1 = None"
proof -
  let ?t = "current_terminal (con k)"
  obtain s s1 where s: "clear (con k) = Some s" "s = update_cursor 0 0 s1"
    "redrawn ?t (blank_cells @ drop 4000 (screen (con k) ?t), 0, 0) (con k) s1"
    using clear_view [of "con k"] assms(1) by (auto simp: kbd_ok_def)
  then have m: "mapped s" "current_terminal s = ?t" by (simp_all add: redrawn_def)
  let ?k = "k\<lparr>con := reset_cursor s, buffer := (buffer k)(?t := replicate 128 0), ctrl_4_flag := 0, rtc_test := 2\<rparr>"
  have "mapped (reset_cursor s)" "current_terminal (reset_cursor s) = ?t"
    "screenX (reset_cursor s) ?t = 0" "screenY (reset_cursor s) ?t = 0"
    using m by (simp_all add: reset_cursor_def Let_def) (simp_all add: set_cursor_def update_cursor_def Let_def)
  then have "erase_key ?k = None"
    using assms(2) backspace_faults [of "reset_cursor s"] by (simp add: erase_key_def)
  moreover have "control_key env 0x06 k = Some (Control_5 2, ?k)"
    using s(1) by (simp add: control_key_def Let_def)
  ultimately show ?thesis by blast
qed

end
