(* ===== verification/Rtc.thy ===== *)
theory Rtc
  imports I8259
begin

text \<open>
  The driver of the real-time clock, \<^verbatim>\<open>src/student-distrib/rtc.c\<close>.  The chip is reached
  through an index port and a data port; its documented register file is an automaton
  over the port trace, and the hypothesis \<open>rtc_responds\<close> says that reading registers A and
  B gives back what is stored there (bit 7 of A, the update-in-progress flag, is free).
  The loop of \<open>rtc_read\<close> polls a flag which only the interrupt handler sets: the schedule of
  interrupts is a parameter of the loop, and the loop returns \<open>None\<close> when it runs for ever.
\<close>

subsection \<open>The driver\<close>

record rtc_state =
  rtc_flag :: int
  rtc_rate :: u32
  rtc_ports :: trace

definition select_rate :: "int \<Rightarrow> u32 \<Rightarrow> u32" where
  "select_rate temp rate =
    (if temp = 1024 then 6
     else if temp = 512 then 7
     else if temp = 256 then 8
     else if temp = 128 then 9
     else if temp = 64 then 10
     else if temp = 32 then 11
     else if temp = 16 then 12
     else if temp = 8 then 13
     else if temp = 4 then 14
     else if temp = 2 then 15
     else rate)"

text \<open>The register-A update that \<open>rtc_open\<close> and \<open>rtc_write\<close> share line for line: select A, read it,
  select it again, store the old high nibble with the rate, and re-enable NMI.  The C
  variable \<open>prev\<close> is a signed char, so the byte read is sign-extended.\<close>

definition write_rate :: "device \<Rightarrow> u32 \<Rightarrow> trace \<Rightarrow> trace" where
  "write_rate dev r tr =
    (let tr = outb 0x8A 0x70 tr;
         (v, tr) = inb dev 0x71 tr;
         prev = (scast (ucast v :: u8) :: u32);
         tr = outb 0x8A 0x70 tr;
         tr = outb ((prev AND 0xF0) OR r) 0x71 tr;
         (w, tr) = inb dev 0x70 tr
     in outb (w AND 0x7F) 0x70 tr)"

definition rtc_open :: "device \<Rightarrow> u32 \<Rightarrow> rtc_state \<Rightarrow> int \<times> rtc_state" where
  "rtc_open dev filename s = (0, s\<lparr>rtc_ports := write_rate dev 15 (rtc_ports s)\<rparr>)"

definition rtc_close :: "int \<Rightarrow> rtc_state \<Rightarrow> int \<times> rtc_state" where
  "rtc_close fd s = (0, s)"

definition rtc_write :: "device \<Rightarrow> mem \<Rightarrow> int \<Rightarrow> u32 \<Rightarrow> int \<Rightarrow> rtc_state \<Rightarrow> int \<times> rtc_state" where
  "rtc_write dev m fd buf nbytes s =
    (let temp = sint (load32 m buf) in
     if nbytes \<noteq> 4 then (-1, s)
     else
       let rate = select_rate temp (rtc_rate s);
           tr = write_rate dev rate (rtc_ports s)
       in (0, s\<lparr>rtc_rate := rate, rtc_ports := send_eoi 8 tr\<rparr>))"

definition rtc_handler :: "device \<Rightarrow> rtc_state \<Rightarrow> rtc_state" where
  "rtc_handler dev s =
    (let tr = send_eoi 8 (rtc_ports s);
         tr = outb 0x0C 0x70 tr;
         (_, tr) = inb dev 0x71 tr
     in s\<lparr>rtc_ports := tr, rtc_flag := 1\<rparr>)"

partial_function (option) rtc_poll :: "device \<Rightarrow> (nat \<Rightarrow> bool) \<Rightarrow> nat \<Rightarrow> rtc_state \<Rightarrow> (int \<times> rtc_state) option" where
  "rtc_poll dev irq i s =
    (let s1 = (if irq i then rtc_handler dev s else s) in
     if rtc_flag s1 = 1 then Some (0, s1\<lparr>rtc_flag := 0\<rparr>)
     else rtc_poll dev irq (Suc i) s1)"

text \<open>\<open>irq i\<close> says that a clock interrupt is delivered just before the loop tests the flag for
  the \<open>i\<close>-th time.\<close>

definition rtc_read :: "device \<Rightarrow> (nat \<Rightarrow> bool) \<Rightarrow> int \<Rightarrow> u32 \<Rightarrow> int \<Rightarrow> rtc_state \<Rightarrow> (int \<times> rtc_state) option" where
  "rtc_read dev irq fd buf nbytes s = rtc_poll dev irq 0 s"

definition rtc_initialization :: "device \<Rightarrow> u32 \<Rightarrow> rtc_state \<Rightarrow> rtc_state" where
  "rtc_initialization dev open_test s =
    (let tr = outb 0x8B 0x70 (rtc_ports s);
         (v, tr) = inb dev 0x71 tr;
         prev = (scast (ucast v :: u8) :: u32);
         tr = outb 0x8B 0x70 tr;
         tr = outb (prev OR 0x40) 0x71 tr;
         (w, tr) = inb dev 0x70 tr;
         tr = outb (w AND 0x7F) 0x70 tr;
         (_, s1) = rtc_open dev open_test (s\<lparr>rtc_ports := tr\<rparr>)
     in s1\<lparr>rtc_ports := enable_irq dev 8 (rtc_ports s1)\<rparr>)"

subsection \<open>The data sheet\<close>

text \<open>The low seven bits written to port 0x70 select a register and bit 7 gates NMI; an access of
  port 0x71 reads or writes the selected register and moves the selection to register D.\<close>

record cmos =
  cmos_index :: u8
  nmi_off :: bool
  cmos_reg :: "u8 \<Rightarrow> u8"

fun cmos_run :: "cmos \<Rightarrow> trace \<Rightarrow> cmos" where
  "cmos_run c [] = c"
| "cmos_run c (Out p d # tr) =
    (let s = cmos_run c tr in
     if p = 0x70 then s\<lparr>cmos_index := d AND 0x7F, nmi_off := bit d 7\<rparr>
     else if p = 0x71 then s\<lparr>cmos_reg := (cmos_reg s)(cmos_index s := d), cmos_index := 0x0D\<rparr>
     else s)"
| "cmos_run c (In p d # tr) =
    (let s = cmos_run c tr in if p = 0x71 then s\<lparr>cmos_index := 0x0D\<rparr> else s)"

definition rtc_responds :: "device \<Rightarrow> cmos \<Rightarrow> bool" where
  "rtc_responds dev c \<longleftrightarrow>
    (\<forall>tr. let s = cmos_run c tr in
      (cmos_index s = 0x0A \<longrightarrow> dev tr 0x71 AND 0x7F = cmos_reg s 0x0A AND 0x7F) \<and>
      (cmos_index s = 0x0B \<longrightarrow> dev tr 0x71 = cmos_reg s 0x0B))"

text \<open>The frequency in hertz which the chip's periodic interrupt has for a rate selector.\<close>

definition rate_frequency :: "u8 \<Rightarrow> nat" where
  "rate_frequency r = (if unat (r AND 0x0F) = 0 then 0 else 32768 div 2 ^ (unat (r AND 0x0F) - 1))"

definition cmos_dev :: "cmos \<Rightarrow> device" where
  "cmos_dev c tr p = (if p = 0x71 then cmos_reg (cmos_run c tr) (cmos_index (cmos_run c tr)) else 0xFF)"

lemma cmos_dev_responds: "rtc_responds (cmos_dev c) c"
  by (simp add: rtc_responds_def cmos_dev_def Let_def)

lemma cmos_send_eoi [simp]: "cmos_run c (send_eoi n tr) = cmos_run c tr"
  by (simp add: send_eoi_def outb_def)

lemma cmos_enable_irq [simp]: "cmos_run c (enable_irq dev n tr) = cmos_run c tr"
  by (auto simp: enable_irq_def outb_def inb_def Let_def)

subsection \<open>Setting the rate\<close>

lemma rate_byte:
  "(ucast (((scast (v :: u8) :: u32) AND 0xF0) OR r) :: u8) = (v AND 0xF0) OR ucast r"
proof (rule bit_word_eqI)
  fix n assume "n < LENGTH(8)"
  then show "bit (ucast ((scast v AND 0xF0) OR r) :: u8) n = bit ((v AND 0xF0) OR ucast r) n"
    by (cases "n = 7") (auto simp: bit_simps min_def)
qed

lemma cmos_write_rate:
  "cmos_reg (cmos_run c (write_rate dev r tr)) =
     (cmos_reg (cmos_run c tr))(0x0A := (dev (Out 0x70 0x8A # tr) 0x71 AND 0xF0) OR ucast r)"
  "\<not> nmi_off (cmos_run c (write_rate dev r tr))"
  by (simp_all add: write_rate_def outb_def inb_def Let_def rate_byte)
    (simp add: bit_simps)

lemma pic_write_rate [simp]:
  "master cm (write_rate dev r tr) = master cm tr" "slave cs (write_rate dev r tr) = slave cs tr"
  by (simp_all add: write_rate_def pic_simps Let_def)

lemma nibbles:
  assumes "unat (r :: u32) < 16"
  shows "((v AND 0xF0) OR ucast r :: u8) AND 0x0F = ucast r"
    "((v AND 0xF0) OR ucast r :: u8) AND 0x70 = v AND 0x70"
proof -
  have small: "\<not> bit r n" if "4 \<le> n" for n
  proof
    assume "bit r n"
    then have "bit (unat r) n" by (simp add: bit_unsigned_iff)
    then have "unat r div 2 ^ n \<noteq> 0" unfolding bit_iff_odd by (metis even_zero)
    then have "2 ^ n \<le> unat r" by (metis div_less not_le)
    moreover have "(2 :: nat) ^ 4 \<le> 2 ^ n" using that by (rule power_increasing) simp
    ultimately show False using assms by simp
  qed
  show "((v AND 0xF0) OR ucast r :: u8) AND 0x0F = ucast r"
  proof (rule bit_word_eqI)
    fix n assume "n < LENGTH(8)"
    then have "n \<in> {0, 1, 2, 3, 4, 5, 6, 7}" by auto
    then show "bit (((v AND 0xF0) OR ucast r :: u8) AND 0x0F) n = bit (ucast r :: u8) n"
      using small by (auto simp: bit_simps)
  qed
  show "((v AND 0xF0) OR ucast r :: u8) AND 0x70 = v AND 0x70"
  proof (rule bit_word_eqI)
    fix n assume "n < LENGTH(8)"
    then have "n \<in> {0, 1, 2, 3, 4, 5, 6, 7}" by auto
    then show "bit (((v AND 0xF0) OR ucast r :: u8) AND 0x70) n = bit (v AND 0x70) n"
      using small by (auto simp: bit_simps)
  qed
qed

lemma write_rate_register:
  assumes "rtc_responds dev c" "unat r < 16"
  shows "cmos_reg (cmos_run c (write_rate dev r tr)) 0x0A AND 0x0F = ucast r"
    "cmos_reg (cmos_run c (write_rate dev r tr)) 0x0A AND 0x70 = cmos_reg (cmos_run c tr) 0x0A AND 0x70"
proof -
  let ?v = "dev (Out 0x70 0x8A # tr) 0x71"
  have "cmos_index (cmos_run c (Out 0x70 0x8A # tr)) = 0x0A" by (simp add: Let_def)
  then have "?v AND 0x7F = cmos_reg (cmos_run c (Out 0x70 0x8A # tr)) 0x0A AND 0x7F"
    using assms(1) unfolding rtc_responds_def Let_def by blast
  then have "?v AND 0x7F = cmos_reg (cmos_run c tr) 0x0A AND 0x7F" by (simp add: Let_def)
  then have "(?v AND 0x7F) AND 0x70 = (cmos_reg (cmos_run c tr) 0x0A AND 0x7F) AND 0x70" by simp
  then have "?v AND 0x70 = cmos_reg (cmos_run c tr) 0x0A AND 0x70" by (simp add: and.assoc)
  then show "cmos_reg (cmos_run c (write_rate dev r tr)) 0x0A AND 0x0F = ucast r"
    "cmos_reg (cmos_run c (write_rate dev r tr)) 0x0A AND 0x70 = cmos_reg (cmos_run c tr) 0x0A AND 0x70"
    by (simp_all add: cmos_write_rate nibbles [OF assms(2)])
qed

lemma select_rate_supported:
  assumes "1 \<le> k" "k \<le> 10"
  shows "select_rate (2 ^ k) rate = of_nat (16 - k)"
proof -
  have "k \<in> {1, 2, 3, 4, 5, 6, 7, 8, 9, 10}" using assms upto_ten by simp
  then show ?thesis by (auto simp: select_rate_def)
qed

lemma rate_frequency_supported:
  assumes "1 \<le> k" "k \<le> 10" "r AND 0x0F = of_nat (16 - k)"
  shows "rate_frequency r = 2 ^ k"
proof -
  have "k \<in> {1, 2, 3, 4, 5, 6, 7, 8, 9, 10}" using assms upto_ten by simp
  then show ?thesis using assms(3) by (auto simp: rate_frequency_def)
qed

subsection \<open>Waiting for the clock\<close>

lemma rtc_poll_skip:
  assumes "rtc_flag s \<noteq> 1" "\<forall>i. n \<le> i \<and> i < n + d \<longrightarrow> \<not> irq i"
  shows "rtc_poll dev irq n s = rtc_poll dev irq (n + d) s"
  using assms
proof (induction d arbitrary: n)
  case (Suc d)
  have "rtc_poll dev irq n s = rtc_poll dev irq (Suc n) s"
    using Suc.prems by (subst rtc_poll.simps) simp
  also have "\<dots> = rtc_poll dev irq (Suc n + d) s"
    using Suc.prems by (intro Suc.IH) auto
  finally show ?case by simp
qed simp

lemma rtc_poll_needs_irq:
  assumes "rtc_poll dev irq n s = Some r"
  shows "rtc_flag s = 1 \<or> (\<exists>i. irq i)"
proof (rule rtc_poll.raw_induct [where P = "\<lambda>dev irq n s r. rtc_flag s = 1 \<or> (\<exists>i. irq i)", OF _ assms])
  fix f :: "device \<Rightarrow> (nat \<Rightarrow> bool) \<Rightarrow> nat \<Rightarrow> rtc_state \<Rightarrow> (int \<times> rtc_state) option"
    and dev irq n s r
  assume IH: "\<And>dev irq n s r. f dev irq n s = Some r \<Longrightarrow> rtc_flag s = 1 \<or> (\<exists>i. irq i)"
    and eq: "(let s1 = if irq n then rtc_handler dev s else s
      in if rtc_flag s1 = 1 then Some (0, s1\<lparr>rtc_flag := 0\<rparr>) else f dev irq (Suc n) s1) = Some r"
  show "rtc_flag s = 1 \<or> (\<exists>i. irq i)"
  proof (cases "irq n \<or> rtc_flag s = 1")
    case False
    then have "f dev irq (Suc n) s = Some r" using eq by simp
    then show ?thesis by (rule IH)
  qed auto
qed

lemma rtc_handler_flag [simp]: "rtc_flag (rtc_handler dev s) = 1"
  by (simp add: rtc_handler_def inb_def Let_def)

lemma rtc_poll_first:
  assumes "rtc_flag s \<noteq> 1" "irq j" "\<forall>i < j. \<not> irq i"
  shows "rtc_poll dev irq 0 s = Some (0, (rtc_handler dev s)\<lparr>rtc_flag := 0\<rparr>)"
proof -
  have "rtc_poll dev irq 0 s = rtc_poll dev irq (0 + j) s"
    using assms by (intro rtc_poll_skip) auto
  then show ?thesis using assms(2) by (subst (asm) (2) rtc_poll.simps) simp
qed

subsection \<open>Properties\<close>

text \<open>A four-byte \<open>rtc_write\<close> of a supported frequency \<open>2 ^ k\<close> hertz (2 to 1024) returns 0 and
  leaves in register A the rate selector whose periodic interrupt has exactly that
  frequency, the other control bits of A and every other register as they were, the rate
  remembered, and NMI enabled again.  Any other byte count returns -1 and changes nothing.\<close>

theorem rtc_write_frequency:
  fixes s :: rtc_state and fd :: int
  assumes "rtc_responds dev c" and "load32 m buf = 2 ^ k" and "1 \<le> k" and "k \<le> 10"
  defines "before \<equiv> cmos_run c (rtc_ports s)"
    and "after \<equiv> cmos_run c (rtc_ports (snd (rtc_write dev m fd buf 4 s)))"
  shows "fst (rtc_write dev m fd buf 4 s) = 0 \<and>
    rate_frequency (cmos_reg after 0x0A) = 2 ^ k \<and>
    cmos_reg after 0x0A AND 0x70 = cmos_reg before 0x0A AND 0x70 \<and>
    (r \<noteq> 0x0A \<longrightarrow> cmos_reg after r = cmos_reg before r) \<and> \<not> nmi_off after \<and>
    (nbytes \<noteq> 4 \<longrightarrow> rtc_write dev m fd buf nbytes s = (-1, s))"
proof -
  have k: "k \<in> {1, 2, 3, 4, 5, 6, 7, 8, 9, 10}" using assms upto_ten by simp
  then have temp: "sint (load32 m buf) = 2 ^ k" using assms(2) by auto
  have r: "unat (of_nat (16 - k) :: u32) < 16" using k by auto
  have u: "(ucast (of_nat (16 - k) :: u32) :: u8) = of_nat (16 - k)" using k by auto
  note wr = write_rate_register [OF assms(1) r, of "rtc_ports s"]
  have "rate_frequency (cmos_reg (cmos_run c (write_rate dev (of_nat (16 - k)) (rtc_ports s))) 0x0A) = 2 ^ k"
    by (rule rate_frequency_supported [OF assms(3,4)]) (simp only: wr(1) u)
  then show ?thesis
    using wr(2) by (simp add: after_def before_def rtc_write_def temp select_rate_supported [OF assms(3,4)] cmos_write_rate Let_def)
qed

definition rtc_cold :: rtc_state where
  "rtc_cold = \<lparr>rtc_flag = 0, rtc_rate = 0, rtc_ports = []\<rparr>"

definition cmos_cold :: cmos where
  "cmos_cold = \<lparr>cmos_index = 0, nmi_off = False, cmos_reg = (\<lambda>_. 0x26)\<rparr>"

theorem rtc_write_frequency_witness:
  "fst (rtc_write (cmos_dev cmos_cold) (store32 (\<lambda>_. 0) 64 32) 3 64 4 rtc_cold) = 0 \<and>
   rate_frequency (cmos_reg (cmos_run cmos_cold (rtc_ports (snd
     (rtc_write (cmos_dev cmos_cold) (store32 (\<lambda>_. 0) 64 32) 3 64 4 rtc_cold)))) 0x0A) = 32"
proof -
  have "load32 (store32 (\<lambda>_. 0) 64 32) 64 = 2 ^ 5" by (simp add: load32_store32)
  from rtc_write_frequency [OF cmos_dev_responds this, of cmos_cold 3 rtc_cold 0 0] show ?thesis by simp
qed

text \<open>C36: \<open>rtc_read\<close> returns exactly when a tick was already pending or a clock interrupt is
  delivered while it polls; it then returns 0 and has consumed the tick.  Without a
  pending tick the first interrupt is enough, and only that one is handled.\<close>

theorem rtc_read_waits:
  "((\<exists>res. rtc_read dev irq fd buf nbytes s = Some res) \<longleftrightarrow> rtc_flag s = 1 \<or> (\<exists>i. irq i)) \<and>
   (\<forall>v s'. rtc_read dev irq fd buf nbytes s = Some (v, s') \<longrightarrow> v = 0 \<and> rtc_flag s' = 0) \<and>
   (\<forall>j. rtc_flag s \<noteq> 1 \<and> irq j \<and> (\<forall>i < j. \<not> irq i) \<longrightarrow>
     rtc_read dev irq fd buf nbytes s = Some (0, (rtc_handler dev s)\<lparr>rtc_flag := 0\<rparr>))"
proof -
  have pending: "rtc_poll dev irq 0 s = Some (0, (if irq 0 then rtc_handler dev s else s)\<lparr>rtc_flag := 0\<rparr>)"
    if "rtc_flag s = 1"
    using that by (subst rtc_poll.simps) simp
  have first: "\<exists>j. irq j \<and> (\<forall>i < j. \<not> irq i)" if "irq i" for i
    using exists_least_iff [of irq] that by blast
  have found: "rtc_poll dev irq 0 s = Some (0, (rtc_handler dev s)\<lparr>rtc_flag := 0\<rparr>)"
    if "rtc_flag s \<noteq> 1" "irq i" for i
    using first [OF that(2)] rtc_poll_first [OF that(1)] by blast
  show ?thesis
  proof (cases "rtc_flag s = 1")
    case True then show ?thesis using pending by (simp add: rtc_read_def)
  next
    case False
    then have "rtc_poll dev irq 0 s \<noteq> None \<longleftrightarrow> (\<exists>i. irq i)"
      using rtc_poll_needs_irq [of dev irq 0 s] found by fastforce
    then show ?thesis using False found rtc_poll_first [OF False] by (auto simp: rtc_read_def)
  qed
qed

theorem rtc_read_waits_witness:
  "rtc_read (cmos_dev cmos_cold) (\<lambda>i. i = 7) 3 64 4 rtc_cold =
     Some (0, (rtc_handler (cmos_dev cmos_cold) rtc_cold)\<lparr>rtc_flag := 0\<rparr>)"
proof -
  have "rtc_flag rtc_cold \<noteq> 1 \<and> (7 :: nat) = 7 \<and> (\<forall>i < 7. i \<noteq> (7 :: nat))" by (simp add: rtc_cold_def)
  from rtc_read_waits [THEN conjunct2, THEN conjunct2, rule_format, of rtc_cold "\<lambda>i. i = 7", OF this]
  show ?thesis .
qed

end
