(* ===== verification/Process.thy ===== *)
theory Process
  imports File_System Keyboard Rtc
begin

text \<open>
  The kernel's process data: the structures of \<^verbatim>\<open>src/student-distrib/system_calls.h\<close>, the variables of
  \<^verbatim>\<open>system_calls.c\<close> and the small routines that read and initialise them.

  A process control block is found by its address, eight megabytes minus eight kilobytes
  times the process number.  Byte memory comes in two parts: \<open>kernel_mem\<close> is what the kernel sees outside
  the four megabytes at 128 MB, and \<open>frames\<close> holds the physical four-megabyte pages that paging puts
  there.  \<open>view_mem\<close> is the memory the running code sees, and \<open>put_mem\<close> stores it back; which
  page is in the window is read off the page directory.  The control blocks and the other
  variables below are kept apart from the byte memory.
\<close>

subsection \<open>Structures\<close>

text \<open>The five tables of function pointers, by name.\<close>

datatype funcptr = file_dev | directory_dev | rtc_dev | stdinTable | stdoutTable

record FD =
  operations :: "funcptr option"
  fd_inode :: u32
  position :: u32
  flags :: u32

record PCB =
  PID :: u32
  Parent_PID :: u32
  FDArray :: "nat \<Rightarrow> FD"
  ESP0 :: u32
  EBP0 :: u32
  term_num :: u32
  parent_esp :: u32
  parent_ebp :: u32
  pcb_active :: u32

record term_t =
  last_active_pro :: int
  term_flag :: int
  term_view :: int

record kernel =
  kernel_mem :: mem
  frames :: "u32 \<Rightarrow> mem"
  fs :: fs_state
  keyb :: kbd
  rtc :: rtc_state
  pcbs :: "u32 \<Rightarrow> PCB"
  process_counter :: int
  PCB_ptr :: u32
  get_args :: "u8 list"
  arg_size :: int
  PID_arr :: "int list"
  term_arr :: "int \<Rightarrow> term_t"
  inti_flag :: int
  flagger :: int
  tss_esp0 :: u32

abbreviation (input) KB_8 :: int where "KB_8 \<equiv> 8192"
abbreviation (input) MB_4 :: int where "MB_4 \<equiv> 4194304"
abbreviation (input) MB_8 :: int where "MB_8 \<equiv> 8388608"

definition pcb_addr :: "int \<Rightarrow> u32" where
  "pcb_addr k = of_int (MB_8 - KB_8 * k)"

subsection \<open>Memory as the running code sees it\<close>

abbreviation kernel_pages :: "kernel \<Rightarrow> paging" where
  "kernel_pages s \<equiv> pages (con (keyb s))"

definition window_page :: "kernel \<Rightarrow> u32" where
  "window_page s = push_bit 22 (drop_bit 22 (directory (kernel_pages s) 32))"

definition in_window :: "u32 \<Rightarrow> bool" where
  "in_window a \<longleftrightarrow> drop_bit 22 a = 32"

definition view_mem :: "kernel \<Rightarrow> mem" where
  "view_mem s = (\<lambda>a. if in_window a then frames s (window_page s) (take_bit 22 a) else kernel_mem s a)"

definition put_mem :: "mem \<Rightarrow> kernel \<Rightarrow> kernel" where
  "put_mem m s = s\<lparr>
     kernel_mem := (\<lambda>a. if in_window a then kernel_mem s a else m a),
     frames := (frames s)(window_page s :=
       (\<lambda>o'. if drop_bit 22 o' = 0 then m (MB_128 OR o') else frames s (window_page s) o'))\<rparr>"

definition remap :: "u32 \<Rightarrow> kernel \<Rightarrow> kernel" where
  "remap physical_address s =
    s\<lparr>keyb := (keyb s)\<lparr>con := (con (keyb s))\<lparr>pages := remap_paging physical_address (kernel_pages s)\<rparr>\<rparr>\<rparr>"

definition set_console :: "console \<Rightarrow> kernel \<Rightarrow> kernel" where
  "set_console c s = s\<lparr>keyb := (keyb s)\<lparr>con := c\<rparr>\<rparr>"

definition set_fd :: "u32 \<Rightarrow> nat \<Rightarrow> FD \<Rightarrow> kernel \<Rightarrow> kernel" where
  "set_fd p i f s = s\<lparr>pcbs := (pcbs s)(p := (pcbs s p)\<lparr>FDArray := (FDArray (pcbs s p))(i := f)\<rparr>)\<rparr>"

definition get_fd :: "u32 \<Rightarrow> nat \<Rightarrow> kernel \<Rightarrow> FD" where
  "get_fd p i s = FDArray (pcbs s p) i"

subsection \<open>Routines\<close>

definition active_term :: "kernel \<Rightarrow> int" where
  "active_term s = get_active_term (con (keyb s))"

definition get_process_count :: "kernel \<Rightarrow> int" where
  "get_process_count s = last_active_pro (term_arr s (active_term s))"

definition get_process_num :: "kernel \<Rightarrow> int" where
  "get_process_num s = last_active_pro (term_arr s (active_term s))"

definition get_pcb_ptr :: "kernel \<Rightarrow> u32" where
  "get_pcb_ptr s = PCB_ptr s"

definition get_pcb :: "u32 \<Rightarrow> u32" where
  "get_pcb esp = 0xFFFFE000 AND esp"

definition get_term_arr :: "kernel \<Rightarrow> int \<Rightarrow> term_t" where
  "get_term_arr s = term_arr s"

definition init_terms :: "kernel \<Rightarrow> kernel" where
  "init_terms s =
    (let t = \<lparr>last_active_pro = 0, term_flag = 0, term_view = 0\<rparr>
     in s\<lparr>inti_flag := 1, term_arr := (term_arr s)(0 := t, 1 := t, 2 := t)\<rparr>)"

definition universal_count :: "kernel \<Rightarrow> int" where
  "universal_count s = (if \<exists>i \<in> set [0..<6]. PID_arr s ! i = 0 then 1 else 0)"

definition closed_fd :: FD where
  "closed_fd = \<lparr>operations = None, fd_inode = 0, position = -1, flags = 0\<rparr>"

definition c_pcb :: "int \<Rightarrow> PCB \<Rightarrow> PCB" where
  "c_pcb counter p =
    (let p = (if counter > 0 then p\<lparr>PID := of_int counter, FDArray := (FDArray p)(
         0 := \<lparr>operations = Some stdinTable, fd_inode = 0, position = -1, flags = 1\<rparr>,
         1 := \<lparr>operations = Some stdoutTable, fd_inode = 0, position = -1, flags = 1\<rparr>)\<rparr> else p)
     in p\<lparr>FDArray := fold (\<lambda>i f. f(i := closed_fd)) [2..<8] (FDArray p)\<rparr>)"

subsection \<open>Reading and storing\<close>

text \<open>The laws of a part of a larger state that can be read and replaced.\<close>

locale state_part =
  fixes get :: "'s \<Rightarrow> 'a" and put :: "'a \<Rightarrow> 's \<Rightarrow> 's"
  assumes get_put: "get (put x s) = x"
    and put_get: "put (get s) s = s"
    and put_put: "put x (put y s) = put x s"
begin

lemma put_inj: "put x s = put y s \<longleftrightarrow> x = y"
  by (metis get_put)

lemma put_same: "get s = x \<Longrightarrow> put x s = s"
  using put_get by blast

lemma put_cover: "put x s = put x s' \<longleftrightarrow> (\<exists>y. s' = put y s)"
  by (metis put_get put_put)

end

lemma window_offset: "in_window a \<Longrightarrow> MB_128 OR take_bit 22 a = a"
proof -
  assume "in_window a"
  then have "push_bit 22 (drop_bit 22 a) = MB_128" by (simp add: in_window_def)
  then show ?thesis using recombine [of 22 a] by simp
qed

lemma window_page_put [simp]: "window_page (put_mem m s) = window_page s"
  by (simp add: window_page_def put_mem_def)

lemma window_of_offset: "drop_bit 22 o' = 0 \<Longrightarrow> in_window (MB_128 OR o') \<and> take_bit 22 (MB_128 OR o') = o'"
  by (simp add: in_window_def take_bit_eq_self_iff_drop_bit_eq_0)

lemma view_put: "view_mem (put_mem m s) = m"
proof
  fix a
  have "drop_bit 22 (take_bit 22 a) = (0 :: u32)" by (simp add: drop_bit_take_bit)
  then show "view_mem (put_mem m s) a = m a"
    using window_offset [of a] by (simp add: view_mem_def) (simp add: put_mem_def)
qed

lemma put_view: "put_mem (view_mem s) s = s"
proof -
  have "(\<lambda>o'. if drop_bit 22 o' = 0 then view_mem s (MB_128 OR o') else frames s (window_page s) o') = frames s (window_page s)"
    using window_of_offset by (auto simp: view_mem_def fun_eq_iff)
  moreover have "(\<lambda>a. if in_window a then kernel_mem s a else view_mem s a) = kernel_mem s"
    by (auto simp: view_mem_def)
  ultimately show ?thesis by (simp add: put_mem_def)
qed

lemma put_put_mem: "put_mem m (put_mem m' s) = put_mem m s"
  by (simp add: put_mem_def window_page_def fun_eq_iff cong: if_cong)

interpretation running_memory: state_part view_mem put_mem
  by unfold_locales (rule view_put, rule put_view, rule put_put_mem)

interpretation descriptor: state_part "get_fd p i" "set_fd p i" for p i
  by unfold_locales (simp_all add: get_fd_def set_fd_def)

end
