(* ===== verification/Devices.thy ===== *)
theory Devices
  imports Process
begin

text \<open>
  The device operations behind the file descriptors: the file and directory operations of
  \<^verbatim>\<open>src/student-distrib/file_system_driver.c\<close>, and the five tables of function pointers at the top of
  \<^verbatim>\<open>system_calls.c\<close> that send a call on to them, to the clock or to the terminal.  A call through a
  null pointer has no result (\<open>None\<close>), as has a call that waits for ever.  The contract
  every operation keeps, the locale \<open>driver\<close>, is that it leaves the process table, the
  argument buffer and everything of a descriptor but its position alone.
\<close>

subsection \<open>What lies outside the code\<close>

text \<open>The clock chip and its interrupts, the keyboard driver as the polls of a blocked read find
  it, the bytes behind some arrays, the addresses of local arrays and of string literals, and
  the two stack registers.\<close>

record env =
  rtc_device :: device
  rtc_irq :: "nat \<Rightarrow> bool"
  enter :: "nat \<Rightarrow> kbd"
  past_read :: "nat \<Rightarrow> u8"
  past_fds :: "nat \<Rightarrow> u32"
  past_args :: "nat \<Rightarrow> u8"
  local_dentry :: u32
  local_name :: u32
  local_check :: u32
  local_magic :: u32
  shell_name :: u32
  error_msg :: u32
  entry_uninit :: u32
  reg_esp :: u32
  reg_ebp :: u32

subsection \<open>Files and directories\<close>

definition file_read :: "int \<Rightarrow> u32 \<Rightarrow> int \<Rightarrow> kernel \<Rightarrow> (int \<times> kernel) option" where
  "file_read fd buf nbytes s =
    (let process = pcb_addr (get_process_count s);
         f = get_fd process (nat fd) s;
         (bytes_read, m) = read_data (fd_inode f) (position f) buf (of_int nbytes) (view_mem s) (fs s);
         s = put_mem m s
     in do {
       n \<leftarrow> strlen m buf;
       if n = 0 then Some (0, s)
       else
         let test_pcb = get_pcb_ptr s; g = get_fd test_pcb (nat fd) s
         in Some (bytes_read, set_fd test_pcb (nat fd) (g\<lparr>position := position g + of_int bytes_read\<rparr>) s)
     })"

definition file_write :: "int \<Rightarrow> u32 \<Rightarrow> int \<Rightarrow> kernel \<Rightarrow> int \<times> kernel" where
  "file_write fd buf nbytes s = (0, s)"

definition file_open :: "u32 \<Rightarrow> kernel \<Rightarrow> int \<times> kernel" where
  "file_open filename s = (0, s)"

definition file_close :: "int \<Rightarrow> kernel \<Rightarrow> int \<times> kernel" where
  "file_close fd s = (0, s)"

definition direct_read :: "env \<Rightarrow> int \<Rightarrow> u32 \<Rightarrow> int \<Rightarrow> kernel \<Rightarrow> (int \<times> kernel) option" where
  "direct_read env fd buf nbytes s =
    (let dentry = local_dentry env;
         p = pcb_addr (get_process_count s);
         idx = position (get_fd p (nat fd) s)
     in do {
       (test, m, st) \<leftarrow> read_dentry_by_index idx dentry (view_mem s) (fs s);
       let s = put_mem m (s\<lparr>fs := st\<rparr>);
       if test \<noteq> -1 \<and> nbytes \<noteq> 0 then do {
         n \<leftarrow> strlen m dentry;
         let m = strncpy m buf dentry (of_int (min_int nbytes (sint n)));
         let s = set_fd p (nat fd) ((get_fd p (nat fd) s)\<lparr>position := idx + 1\<rparr>) (put_mem m s);
         n \<leftarrow> strlen m dentry;
         Some (min_int nbytes (sint n), s)
       } else Some (0, s)
     })"

definition direct_write :: "int \<Rightarrow> u32 \<Rightarrow> int \<Rightarrow> kernel \<Rightarrow> int \<times> kernel" where
  "direct_write fd buf nbytes s = (0, s)"

definition direct_open :: "u32 \<Rightarrow> kernel \<Rightarrow> int \<times> kernel" where
  "direct_open filename s = (0, s)"

definition direct_close :: "int \<Rightarrow> kernel \<Rightarrow> int \<times> kernel" where
  "direct_close fd s = (0, s)"

subsection \<open>The tables of function pointers\<close>

fun dev_open :: "env \<Rightarrow> funcptr \<Rightarrow> u32 \<Rightarrow> kernel \<Rightarrow> (int \<times> kernel) option" where
  "dev_open env file_dev filename s = Some (file_open filename s)"
| "dev_open env directory_dev filename s = Some (direct_open filename s)"
| "dev_open env rtc_dev filename s =
    (let (r, c) = rtc_open (rtc_device env) filename (rtc s) in Some (r, s\<lparr>rtc := c\<rparr>))"
| "dev_open env stdinTable filename s = None"
| "dev_open env stdoutTable filename s = None"

fun dev_read :: "env \<Rightarrow> funcptr \<Rightarrow> int \<Rightarrow> u32 \<Rightarrow> int \<Rightarrow> kernel \<Rightarrow> (int \<times> kernel) option" where
  "dev_read env file_dev fd buf nbytes s = file_read fd buf nbytes s"
| "dev_read env directory_dev fd buf nbytes s = direct_read env fd buf nbytes s"
| "dev_read env rtc_dev fd buf nbytes s =
    map_option (\<lambda>(r, c). (r, s\<lparr>rtc := c\<rparr>)) (rtc_read (rtc_device env) (rtc_irq env) fd buf nbytes (rtc s))"
| "dev_read env stdinTable fd buf nbytes s =
    map_option (\<lambda>(r, m, k). (r, (put_mem m s)\<lparr>keyb := k\<rparr>))
      (terminal_read (past_read env) (enter env) (view_mem s) fd buf nbytes)"
| "dev_read env stdoutTable fd buf nbytes s = None"

fun dev_write :: "env \<Rightarrow> funcptr \<Rightarrow> int \<Rightarrow> u32 \<Rightarrow> int \<Rightarrow> kernel \<Rightarrow> (int \<times> kernel) option" where
  "dev_write env file_dev fd buf nbytes s = Some (file_write fd buf nbytes s)"
| "dev_write env directory_dev fd buf nbytes s = Some (direct_write fd buf nbytes s)"
| "dev_write env rtc_dev fd buf nbytes s =
    (let (r, c) = rtc_write (rtc_device env) (view_mem s) fd buf nbytes (rtc s) in Some (r, s\<lparr>rtc := c\<rparr>))"
| "dev_write env stdinTable fd buf nbytes s = None"
| "dev_write env stdoutTable fd buf nbytes s =
    map_option (\<lambda>(r, m, c). (r, set_console c (put_mem m s))) (terminal_write (view_mem s) fd buf nbytes (con (keyb s)))"

fun dev_close :: "funcptr \<Rightarrow> int \<Rightarrow> kernel \<Rightarrow> (int \<times> kernel) option" where
  "dev_close file_dev fd s = Some (file_close fd s)"
| "dev_close directory_dev fd s = Some (direct_close fd s)"
| "dev_close rtc_dev fd s = (let (r, c) = rtc_close fd (rtc s) in Some (r, s\<lparr>rtc := c\<rparr>))"
| "dev_close stdinTable fd s = None"
| "dev_close stdoutTable fd s = None"

subsection \<open>The contract\<close>

definition fd_shape :: "FD \<Rightarrow> funcptr option \<times> u32 \<times> u32" where
  "fd_shape f = (operations f, fd_inode f, flags f)"

definition same_process :: "PCB \<Rightarrow> PCB \<Rightarrow> bool" where
  "same_process p q \<longleftrightarrow> (\<forall>i. fd_shape (FDArray q i) = fd_shape (FDArray p i)) \<and> q\<lparr>FDArray := FDArray p\<rparr> = p"

definition same_tables :: "kernel \<Rightarrow> kernel \<Rightarrow> bool" where
  "same_tables s s' \<longleftrightarrow> PCB_ptr s' = PCB_ptr s \<and> PID_arr s' = PID_arr s \<and> term_arr s' = term_arr s \<and>
    process_counter s' = process_counter s \<and> get_args s' = get_args s \<and> arg_size s' = arg_size s \<and>
    inti_flag s' = inti_flag s \<and> flagger s' = flagger s \<and> tss_esp0 s' = tss_esp0 s \<and>
    (\<forall>p. same_process (pcbs s p) (pcbs s' p))"

lemma same_process_refl [simp]: "same_process p p"
  by (simp add: same_process_def)

lemma same_process_trans: "same_process p q \<Longrightarrow> same_process q r \<Longrightarrow> same_process p r"
  unfolding same_process_def by (metis PCB.surjective PCB.update_convs(3))

lemma same_tables_refl [simp]: "same_tables s s"
  by (simp add: same_tables_def)

lemma same_tables_trans: "same_tables s s' \<Longrightarrow> same_tables s' s'' \<Longrightarrow> same_tables s s''"
  unfolding same_tables_def using same_process_trans by metis

lemma same_tables_put [simp]: "same_tables s (put_mem m s)"
  by (simp add: same_tables_def put_mem_def)

lemma same_tables_position [simp]: "same_tables s (set_fd p i ((get_fd p i s)\<lparr>position := x\<rparr>) s)"
  by (auto simp: same_tables_def set_fd_def get_fd_def same_process_def fd_shape_def)

lemma same_tables_fields [simp]:
  "same_tables s (s\<lparr>fs := st\<rparr>)" "same_tables s (s\<lparr>keyb := k\<rparr>)" "same_tables s (s\<lparr>rtc := c\<rparr>)"
  "same_tables s (set_console d s)"
  by (simp_all add: same_tables_def set_console_def)

locale driver =
  fixes op :: "kernel \<Rightarrow> (int \<times> kernel) option"
  assumes keeps: "op s = Some (r, s') \<Longrightarrow> same_tables s s'"
begin

lemma keeps_descriptor: "op s = Some (r, s') \<Longrightarrow> fd_shape (get_fd p i s') = fd_shape (get_fd p i s)"
  using keeps by (auto simp: same_tables_def same_process_def get_fd_def)

lemma keeps_process:
  "op s = Some (r, s') \<Longrightarrow> PCB_ptr s' = PCB_ptr s \<and> PID_arr s' = PID_arr s \<and> term_arr s' = term_arr s \<and>
    Parent_PID (pcbs s' p) = Parent_PID (pcbs s p) \<and> parent_esp (pcbs s' p) = parent_esp (pcbs s p)"
  using keeps [of s r s'] unfolding same_tables_def same_process_def
  by (metis PCB.ext_inject PCB.surjective PCB.update_convs(3))

end

lemma file_read_keeps: "file_read fd buf nbytes s = Some (r, s') \<Longrightarrow> same_tables s s'"
  unfolding file_read_def Let_def
  by (auto split: prod.splits bind_splits if_splits intro: same_tables_trans [OF same_tables_put same_tables_position])

lemma direct_read_keeps: "direct_read env fd buf nbytes s = Some (r, s') \<Longrightarrow> same_tables s s'"
proof -
  assume run: "direct_read env fd buf nbytes s = Some (r, s')"
  define p where "p = pcb_addr (get_process_count s)"
  define idx where "idx = position (get_fd p (nat fd) s)"
  obtain test m st where e: "read_dentry_by_index idx (local_dentry env) (view_mem s) (fs s) = Some (test, m, st)"
    using run unfolding direct_read_def Let_def p_def [symmetric] idx_def [symmetric] by (auto split: bind_splits)
  let ?s1 = "put_mem m (s\<lparr>fs := st\<rparr>)"
  have s1: "same_tables s ?s1"
    by (rule same_tables_trans [OF same_tables_fields(1) same_tables_put])
  have fd: "get_fd p (nat fd) (put_mem m' ?s1) = get_fd p (nat fd) ?s1" for m'
    by (simp add: get_fd_def put_mem_def)
  have "same_tables s (set_fd p (nat fd) ((get_fd p (nat fd) ?s1)\<lparr>position := idx + 1\<rparr>) (put_mem m' ?s1))" for m'
    unfolding fd [symmetric, of m'] by (rule same_tables_trans [OF s1 same_tables_trans [OF same_tables_put same_tables_position]])
  then show ?thesis
    using run s1 e unfolding direct_read_def Let_def p_def [symmetric] idx_def [symmetric]
    by (auto split: bind_splits if_splits)
qed

interpretation open_op: driver "dev_open env ops filename" for env ops filename
  by unfold_locales (cases ops, auto simp: file_open_def direct_open_def split: prod.splits)

interpretation read_op: driver "dev_read env ops fd buf nbytes" for env ops fd buf nbytes
proof
  fix s r s'
  assume run: "dev_read env ops fd buf nbytes s = Some (r, s')"
  show "same_tables s s'"
  proof (cases ops)
    case stdinTable
    then show ?thesis using run by (auto intro: same_tables_trans [OF same_tables_put same_tables_fields(2)])
  qed (use run file_read_keeps direct_read_keeps in auto)
qed

interpretation write_op: driver "dev_write env ops fd buf nbytes" for env ops fd buf nbytes
proof
  fix s r s'
  assume run: "dev_write env ops fd buf nbytes s = Some (r, s')"
  show "same_tables s s'"
  proof (cases ops)
    case stdoutTable
    then show ?thesis using run by (auto intro: same_tables_trans [OF same_tables_put same_tables_fields(4)])
  qed (use run in \<open>auto simp: file_write_def direct_write_def split: prod.splits\<close>)
qed

interpretation close_op: driver "dev_close ops fd" for ops fd
  by unfold_locales (cases ops, auto simp: file_close_def direct_close_def split: prod.splits)

end
