(* ===== verification/Directory.thy ===== *)
theory Directory
  imports File_System
begin

text \<open>
  The file system's directory as its clients use it: a list of names with file type and
  inode number, in which a lookup finds the first entry of a name.  The locale \<open>name_service\<close> is
  that interface; its laws are shown for \<open>read_dentry_by_name\<close> of
  \<^verbatim>\<open>src/student-distrib/file_system_driver.c\<close>.
\<close>

definition directory_of :: "mem \<Rightarrow> fs_state \<Rightarrow> (u8 list \<times> u32 \<times> u32) list" where
  "directory_of m st =
    map (\<lambda>i. (entry_name m (entry_at st i), load32 m (entry_at st i + 32), load32 m (entry_at st i + 36)))
      [0..<unat (num_dentry m (fs_addr st))]"

text \<open>A string can be looked up when it is a name of 1 to 32 characters which no longer entry hides,
  and the structure to be filled lies apart from it, the directory and the entry count.\<close>

definition lookup_ready :: "u32 \<Rightarrow> u32 \<Rightarrow> u8 list \<Rightarrow> mem \<Rightarrow> fs_state \<Rightarrow> bool" where
  "lookup_ready fname dentry xs m st \<longleftrightarrow>
    cstr m fname xs \<and> xs \<noteq> [] \<and> length xs \<le> 32 \<and> directory_clear m st xs \<and>
    disjoint_regions dentry 44 fname (Suc (length xs)) \<and> disjoint_regions dentry 44 (fs_addr st) 4 \<and>
    (\<forall>i < unat (num_dentry m (fs_addr st)). disjoint_regions dentry 44 (entry_at st i) 44)"

locale name_service =
  fixes search :: "u32 \<Rightarrow> u32 \<Rightarrow> mem \<Rightarrow> fs_state \<Rightarrow> (int \<times> mem \<times> fs_state) option"
    and entries :: "mem \<Rightarrow> fs_state \<Rightarrow> (u8 list \<times> u32 \<times> u32) list"
    and ready :: "u32 \<Rightarrow> u32 \<Rightarrow> u8 list \<Rightarrow> mem \<Rightarrow> fs_state \<Rightarrow> bool"
  assumes absent: "ready fname dentry xs m st \<Longrightarrow> map_of (entries m st) xs = None \<Longrightarrow>
      \<exists>a. search fname dentry m st = Some (-1, m, st\<lparr>dentry_addr := a\<rparr>)"
    and found: "ready fname dentry xs m st \<Longrightarrow> map_of (entries m st) xs = Some (ty, ino) \<Longrightarrow>
      \<exists>m' a. search fname dentry m st = Some (0, m', st\<lparr>dentry_addr := a\<rparr>) \<and> load32 m' (dentry + 32) = ty \<and>
        load32 m' (dentry + 36) = ino \<and> changes_only dentry 44 m m'"
    and stable: "ready fname dentry xs m st \<Longrightarrow> changes_only dentry 44 m m' \<Longrightarrow>
      ready fname dentry xs m' (st\<lparr>dentry_addr := a\<rparr>) \<and> entries m' (st\<lparr>dentry_addr := a\<rparr>) = entries m st"
begin

lemma returns: "ready fname dentry xs m st \<Longrightarrow> \<exists>r m' a. search fname dentry m st = Some (r, m', st\<lparr>dentry_addr := a\<rparr>)"
  using absent [of fname dentry xs m st] found [of fname dentry xs m st] by (cases "map_of (entries m st) xs") (auto, metis)

text \<open>Looking the same name up again gives the same answer.\<close>

lemma found_again:
  assumes "ready fname dentry xs m st" "map_of (entries m st) xs = Some (ty, ino)"
    "search fname dentry m st = Some (r, m', st')"
  shows "\<exists>m'' a. search fname dentry m' st' = Some (0, m'', st\<lparr>dentry_addr := a\<rparr>) \<and> load32 m'' (dentry + 36) = ino \<and>
    changes_only dentry 44 m m''"
proof -
  obtain a where st': "st' = st\<lparr>dentry_addr := a\<rparr>" and ch: "changes_only dentry 44 m m'"
    using found [OF assms(1,2)] assms(3) by auto
  note again = stable [OF assms(1) ch, of a]
  obtain m'' b where "search fname dentry m' st' = Some (0, m'', st'\<lparr>dentry_addr := b\<rparr>)" "load32 m'' (dentry + 36) = ino"
    "changes_only dentry 44 m' m''"
    using found [of fname dentry xs m' st' ty ino] again assms(2) st' by auto
  then show ?thesis using changes_only_trans [OF ch] st' by auto
qed

end

subsection \<open>The file system provides it\<close>

lemma lookup_ready_disjoint:
  assumes "lookup_ready fname dentry xs m st" "i < unat (num_dentry m (fs_addr st))"
  shows "disjoint_regions (dentry + 32) 8 (entry_at st i + 32) 8"
proof -
  have "disjoint_regions dentry 44 (entry_at st i) 44" using assms by (simp add: lookup_ready_def)
  from disjoint_regions_offset [OF this, of 32 8 32 8] show ?thesis by simp
qed

lemma read_by_name_cases:
  assumes "lookup_ready fname dentry xs m st"
  shows "\<exists>a. read_dentry_by_name fname dentry m st =
    (case find (\<lambda>i. entry_name m (entry_at st i) = xs) [0..<unat (num_dentry m (fs_addr st))] of
       None \<Rightarrow> Some (-1, m, st\<lparr>dentry_addr := a\<rparr>)
     | Some i \<Rightarrow> Some (0, fill_dentry dentry (entry_at st i) m, st\<lparr>dentry_addr := entry_at st i\<rparr>))"
  using assms lookup_ready_disjoint [OF assms] by (intro search_outcome) (auto simp: lookup_ready_def)

lemma map_of_map_find:
  "map_of (map (\<lambda>i. (f i, g i)) xs) y = map_option g (find (\<lambda>i. f i = y) xs)"
  by (induction xs) auto

lemma map_of_directory:
  "map_of (directory_of m st) xs = map_option (\<lambda>i. (load32 m (entry_at st i + 32), load32 m (entry_at st i + 36)))
    (find (\<lambda>i. entry_name m (entry_at st i) = xs) [0..<unat (num_dentry m (fs_addr st))])"
  unfolding directory_of_def by (rule map_of_map_find)

lemma fill_dentry_fields:
  shows "load32 (fill_dentry dentry a m) (dentry + 32) = load32 m (a + 32)"
    "load32 (fill_dentry dentry a m) (dentry + 36) = load32 m (a + 36)"
    "changes_only dentry 44 m (fill_dentry dentry a m)"
proof -
  have bytes: "load_bytes (fill_dentry dentry a m) (dentry + 32) 8 = load_bytes m (a + 32) 8"
    by (simp add: fill_dentry_def)
  have parts: "load_bytes m' b 8 = load_bytes m' b 4 @ load_bytes m' (b + 4) 4" for m' b
    using load_bytes_add [of m' b 4 4] by simp
  have "load_bytes (fill_dentry dentry a m) (dentry + 32) 4 = load_bytes m (a + 32) 4"
    "load_bytes (fill_dentry dentry a m) (dentry + 32 + 4) 4 = load_bytes m (a + 32 + 4) 4"
    using bytes unfolding parts by simp_all
  then show "load32 (fill_dentry dentry a m) (dentry + 32) = load32 m (a + 32)"
    "load32 (fill_dentry dentry a m) (dentry + 36) = load32 m (a + 36)"
    using load32_cong [of _ "dentry + 32" ] by (simp_all add: load32_def load_bytes_4 add.assoc)
  show "changes_only dentry 44 m (fill_dentry dentry a m)"
    using changes_only_store [of 32 "load_bytes m (a + 32) 8" 44 dentry m] by (simp add: fill_dentry_def)
qed

lemma changes_only_entry_name:
  assumes "changes_only dentry 44 m m'" "disjoint_regions dentry 44 a 44"
  shows "entry_name m' a = entry_name m a" "dentry_ok m' a = dentry_ok m a" "long_entry m' a = long_entry m a"
    "load32 m' (a + 32) = load32 m (a + 32)" "load32 m' (a + 36) = load32 m (a + 36)"
proof -
  have b: "load_bytes m' a 44 = load_bytes m a 44" by (rule changes_only_load_bytes [OF assms]) simp
  have nth: "m' (a + of_nat i) = m (a + of_nat i)" if "i < 44" for i
    using that arg_cong [OF b, of "\<lambda>xs. xs ! i"] by simp
  have "load_bytes m' a 32 = load_bytes m a 32" by (intro nth_equalityI) (simp_all add: nth)
  then show n: "entry_name m' a = entry_name m a" by (simp add: entry_name_def)
  show "dentry_ok m' a = dentry_ok m a" using n nth [of 33] by (simp add: dentry_ok_def)
  show "long_entry m' a = long_entry m a" using n nth [of 32] by (simp add: long_entry_def)
  show "load32 m' (a + 32) = load32 m (a + 32)" "load32 m' (a + 36) = load32 m (a + 36)"
    using changes_only_load32 [OF assms, of 32] changes_only_load32 [OF assms, of 36] by simp_all
qed

lemma lookup_ready_stable:
  assumes "lookup_ready fname dentry xs m st" "changes_only dentry 44 m m'"
  shows "lookup_ready fname dentry xs m' (st\<lparr>dentry_addr := a\<rparr>)" "directory_of m' (st\<lparr>dentry_addr := a\<rparr>) = directory_of m st"
proof -
  note r = assms(1) [unfolded lookup_ready_def]
  have n: "num_dentry m' (fs_addr st) = num_dentry m (fs_addr st)"
    using changes_only_load32 [OF assms(2), of "fs_addr st" 4 0] r by (simp add: num_dentry_def)
  have len: "length xs < 2 ^ 32" using r by simp
  have "load_bytes m' fname (Suc (length xs)) = load_bytes m fname (Suc (length xs))"
    using r by (intro changes_only_load_bytes [OF assms(2)]) simp_all
  then have "cstr m' fname xs"
    using r len cstr_load [of m fname xs] by (intro cstr_bytes) (simp_all add: cstr_def)
  moreover have "\<forall>i < unat (num_dentry m (fs_addr st)). dentry_ok m' (entry_at st i) \<and> \<not> hides m' (entry_at st i) xs"
    using r changes_only_entry_name [OF assms(2)] by (simp add: directory_clear_def hides_def)
  ultimately show "lookup_ready fname dentry xs m' (st\<lparr>dentry_addr := a\<rparr>)"
    using r by (simp add: lookup_ready_def directory_clear_def n)
  show "directory_of m' (st\<lparr>dentry_addr := a\<rparr>) = directory_of m st"
    using r changes_only_entry_name [OF assms(2)] by (simp add: directory_of_def n)
qed

interpretation files: name_service read_dentry_by_name directory_of lookup_ready
proof
  fix fname dentry xs m st ty ino m' a
  assume ready: "lookup_ready fname dentry xs m st"
  note run = read_by_name_cases [OF ready]
  show "\<exists>a. read_dentry_by_name fname dentry m st = Some (-1, m, st\<lparr>dentry_addr := a\<rparr>)"
    if "map_of (directory_of m st) xs = None"
    using run that by (simp add: map_of_directory)
  show "\<exists>m' a. read_dentry_by_name fname dentry m st = Some (0, m', st\<lparr>dentry_addr := a\<rparr>) \<and> load32 m' (dentry + 32) = ty \<and>
      load32 m' (dentry + 36) = ino \<and> changes_only dentry 44 m m'"
    if "map_of (directory_of m st) xs = Some (ty, ino)"
    using run that fill_dentry_fields by (auto simp: map_of_directory)
  show "lookup_ready fname dentry xs m' (st\<lparr>dentry_addr := a\<rparr>) \<and> directory_of m' (st\<lparr>dentry_addr := a\<rparr>) = directory_of m st"
    if "changes_only dentry 44 m m'"
    using lookup_ready_stable [OF ready that] by simp
qed

end
