(* ===== verification/System_Calls.thy ===== *)
theory System_Calls
  imports Devices Directory
begin

text \<open>
  The system calls on file descriptors, arguments and video memory,
  \<^verbatim>\<open>src/student-distrib/system_calls.c\<close>.  All of them find the caller's descriptors
  through the global pointer \<open>PCB\<close>, here \<open>PCB_ptr\<close>.  The lemmas show which descriptor an open
  hands out, that every refused call leaves the kernel as it was, that opening and closing
  keep the descriptor table well formed, and what reads of files and directories deliver.
\<close>

subsection \<open>Opening\<close>

text \<open>The flag word the search for a free descriptor reads at index \<open>i\<close>.  The array has eight entries;
  the next word the search reads is \<open>parent_esp\<close>, and then what lies behind the structure.\<close>

definition flag_at :: "env \<Rightarrow> kernel \<Rightarrow> nat \<Rightarrow> u32" where
  "flag_at env s i =
    (if i < 8 then flags (get_fd (PCB_ptr s) i s)
     else if i = 8 then parent_esp (pcbs s (PCB_ptr s)) else past_fds env i)"

partial_function (option) find_fd :: "(nat \<Rightarrow> u32) \<Rightarrow> nat \<Rightarrow> nat option" where
  "find_fd fl i = (if fl i \<noteq> 0 then find_fd fl (Suc i) else Some i)"

definition FD_Populate :: "env \<Rightarrow> u32 \<Rightarrow> kernel \<Rightarrow> (int \<times> kernel) option" where
  "FD_Populate env fname s = do {
     let dentry = local_dentry env;
     (name, m, st) \<leftarrow> read_dentry_by_name fname dentry (view_mem s) (fs s);
     let s = put_mem m (s\<lparr>fs := st\<rparr>);
     let type = load32 m (dentry + 32);
     i \<leftarrow> find_fd (flag_at env s) 0;
     if i > 7 \<or> fname = 0 \<or> name = -1 then Some (-1, s)
     else if type = 0 then
       Some (int i, set_fd (PCB_ptr s) i \<lparr>operations = Some rtc_dev, fd_inode = 0, position = -1, flags = 1\<rparr> s)
     else if type = 1 then
       Some (int i, set_fd (PCB_ptr s) i \<lparr>operations = Some directory_dev, fd_inode = 0, position = 0, flags = 1\<rparr> s)
     else if type = 2 then do {
       (_, m, st) \<leftarrow> read_dentry_by_name fname dentry (view_mem s) (fs s);
       let s = put_mem m (s\<lparr>fs := st\<rparr>);
       Some (int i, set_fd (PCB_ptr s) i
         \<lparr>operations = Some file_dev, fd_inode = load32 m (dentry + 36), position = 0, flags = 1\<rparr> s)
     }
     else Some (int i, s)
   }"

definition c_open :: "env \<Rightarrow> u32 \<Rightarrow> kernel \<Rightarrow> (int \<times> kernel) option" where
  "c_open env filename s =
    (if filename = 0 then Some (-1, s)
     else do {
       (i, s) \<leftarrow> FD_Populate env filename s;
       if i \<noteq> -1 then do {
         ops \<leftarrow> operations (get_fd (PCB_ptr s) (nat i) s);
         (_, s) \<leftarrow> dev_open env ops filename s;
         Some (i, s)
       } else Some (i, s)
     })"

definition c_close :: "int \<Rightarrow> kernel \<Rightarrow> int \<times> kernel" where
  "c_close fd s =
    (if fd < 2 \<or> fd > 7 \<or> flags (get_fd (PCB_ptr s) (nat fd) s) = 0 then (-1, s)
     else (0, set_fd (PCB_ptr s) (nat fd) closed_fd s))"

subsection \<open>Reading and writing\<close>

definition c_read :: "env \<Rightarrow> int \<Rightarrow> u32 \<Rightarrow> int \<Rightarrow> kernel \<Rightarrow> (int \<times> kernel) option" where
  "c_read env fd buf nbytes s =
    (if fd > 7 \<or> fd < 0 \<or> buf = 0 \<or> flags (get_fd (PCB_ptr s) (nat fd) s) = 0 \<or> fd = 1 then Some (-1, s)
     else do {
       ops \<leftarrow> operations (get_fd (PCB_ptr s) (nat fd) s);
       dev_read env ops fd buf nbytes s
     })"

definition c_write :: "env \<Rightarrow> int \<Rightarrow> u32 \<Rightarrow> int \<Rightarrow> kernel \<Rightarrow> (int \<times> kernel) option" where
  "c_write env fd buf nbytes s =
    (if fd > 7 \<or> fd \<le> 0 \<or> buf = 0 \<or> flags (get_fd (PCB_ptr s) (nat fd) s) = 0 then Some (-1, s)
     else do {
       ops \<leftarrow> operations (get_fd (PCB_ptr s) (nat fd) s);
       dev_write env ops fd buf nbytes s
     })"

subsection \<open>Arguments, video memory, signals\<close>

definition arg_at :: "env \<Rightarrow> kernel \<Rightarrow> nat \<Rightarrow> u8" where
  "arg_at env s i = (if i < 1024 then get_args s ! i else past_args env i)"

definition c_getargs :: "env \<Rightarrow> u32 \<Rightarrow> int \<Rightarrow> kernel \<Rightarrow> int \<times> kernel" where
  "c_getargs env buf nbytes s =
    (if buf = 0 then (-1, s)
     else if arg_size s + 1 > nbytes then (-1, s)
     else
       let m = fold (\<lambda>i m. m(buf + of_nat i := 0)) [0..<128] (view_mem s);
           m = fold (\<lambda>i m. m(buf + of_nat i := arg_at env s i)) [0..<nat (arg_size s)] m
       in (0, (put_mem m s)\<lparr>get_args := replicate 1024 0\<rparr>))"

definition c_vidmap :: "env \<Rightarrow> u32 \<Rightarrow> kernel \<Rightarrow> int \<times> kernel" where
  "c_vidmap env screen_start s =
    (if screen_start = 0 then (-1, s)
     else if sint screen_start < 0x08000000 \<or> sint screen_start \<ge> 0x08400000 then (-1, s)
     else
       let c = con (keyb s);
           p = map_video (tables_addr c) (entry_uninit env) (get_current_term c) (get_active_term c) MB_132 (pages c);
           s = set_console (c\<lparr>pages := p\<rparr>) s
       in (0, put_mem (store32 (view_mem s) screen_start MB_132) s))"

definition c_sethandler :: "int \<Rightarrow> u32 \<Rightarrow> kernel \<Rightarrow> int \<times> kernel" where
  "c_sethandler signum handler_access s = (-1, s)"

definition c_sigreturn :: "kernel \<Rightarrow> int \<times> kernel" where
  "c_sigreturn s = (-1, s)"

subsection \<open>Well-formed descriptor tables\<close>

definition fd_ok :: "nat \<Rightarrow> FD \<Rightarrow> bool" where
  "fd_ok i f \<longleftrightarrow>
    (if i = 0 then operations f = Some stdinTable \<and> flags f = 1
     else if i = 1 then operations f = Some stdoutTable \<and> flags f = 1
     else (flags f = 0 \<or> flags f = 1 \<and> operations f \<in> {Some file_dev, Some directory_dev, Some rtc_dev}))"

definition fds_ok :: "kernel \<Rightarrow> bool" where
  "fds_ok s \<longleftrightarrow> (\<forall>i < 8. fd_ok i (get_fd (PCB_ptr s) i s))"

lemma fd_ok_shape: "fd_shape f = fd_shape g \<Longrightarrow> fd_ok i f = fd_ok i g"
  by (simp add: fd_shape_def fd_ok_def)

lemma fds_ok_same: "same_tables s s' \<Longrightarrow> fds_ok s' = fds_ok s"
  unfolding fds_ok_def same_tables_def same_process_def get_fd_def by (metis fd_ok_shape)

lemma fds_ok_set:
  "fds_ok s \<Longrightarrow> p = PCB_ptr s \<Longrightarrow> fd_ok i f \<Longrightarrow> fds_ok (set_fd p i f s)"
  by (auto simp: fds_ok_def set_fd_def get_fd_def)

lemma c_pcb_fds:
  "0 < k \<Longrightarrow> i < 8 \<Longrightarrow> fd_ok i (FDArray (c_pcb k p) i)"
proof -
  assume "0 < k" "i < 8"
  moreover have "[2..<8] = [2, 3, 4, 5, 6, 7 :: nat]" by (simp add: upt_rec)
  moreover have "i \<in> {0, 1, 2, 3, 4, 5, 6, 7}" using \<open>i < 8\<close> by auto
  ultimately show ?thesis by (auto simp: c_pcb_def fd_ok_def closed_fd_def)
qed

subsection \<open>The search for a free descriptor\<close>

lemma find_fd_eq:
  assumes "\<forall>j. i \<le> j \<and> j < k \<longrightarrow> fl j \<noteq> 0" "fl k = 0" "i \<le> k"
  shows "find_fd fl i = Some k"
  using assms
proof (induction "k - i" arbitrary: i)
  case 0
  then show ?case by (subst find_fd.simps) simp
next
  case (Suc n)
  then have "find_fd fl (Suc i) = Some k" by (intro Suc.hyps(1)) auto
  then show ?case using Suc by (subst find_fd.simps) auto
qed

lemma find_fd_Some: "find_fd fl i = Some k \<Longrightarrow> i \<le> k \<and> fl k = 0 \<and> (\<forall>j. i \<le> j \<and> j < k \<longrightarrow> fl j \<noteq> 0)"
proof (rule find_fd.raw_induct [where P = "\<lambda>fl i k. i \<le> k \<and> fl k = 0 \<and> (\<forall>j. i \<le> j \<and> j < k \<longrightarrow> fl j \<noteq> 0)"])
  fix f :: "(nat \<Rightarrow> u32) \<Rightarrow> nat \<Rightarrow> nat option" and fl i r
  assume IH: "\<And>fl i r. f fl i = Some r \<Longrightarrow> i \<le> r \<and> fl r = 0 \<and> (\<forall>j. i \<le> j \<and> j < r \<longrightarrow> fl j \<noteq> 0)"
    and run: "(if fl i \<noteq> 0 then f fl (Suc i) else Some i) = Some r"
  show "i \<le> r \<and> fl r = 0 \<and> (\<forall>j. i \<le> j \<and> j < r \<longrightarrow> fl j \<noteq> 0)"
  proof (cases "fl i = 0")
    case False
    then have "f fl (Suc i) = Some r" using run by simp
    from IH [OF this] show ?thesis using False by (metis Suc_leD Suc_leI le_neq_implies_less)
  qed (use run in auto)
qed

lemma find_fd_first:
  assumes "\<exists>k. fl k = 0"
  shows "find_fd fl 0 = Some (LEAST k. fl k = 0)"
proof (rule find_fd_eq)
  show "fl (LEAST k. fl k = 0) = 0" using assms by (rule LeastI_ex)
  show "\<forall>j. 0 \<le> j \<and> j < (LEAST k. fl k = 0) \<longrightarrow> fl j \<noteq> 0" using not_less_Least by blast
qed simp

definition free_fd :: "kernel \<Rightarrow> nat option" where
  "free_fd s = find (\<lambda>i. flags (get_fd (PCB_ptr s) i s) = 0) [0..<8]"

lemma free_fd_Some:
  "free_fd s = Some i \<Longrightarrow> i < 8 \<and> flags (get_fd (PCB_ptr s) i s) = 0 \<and> (\<forall>j < i. flags (get_fd (PCB_ptr s) j s) \<noteq> 0)"
  unfolding free_fd_def by (auto simp: find_Some_iff)

lemma free_fd_None: "free_fd s = None \<Longrightarrow> i < 8 \<Longrightarrow> flags (get_fd (PCB_ptr s) i s) \<noteq> 0"
  unfolding free_fd_def by (auto simp: find_None_iff)

lemma find_fd_free: "free_fd s = Some i \<Longrightarrow> find_fd (flag_at env s) 0 = Some i"
  by (drule free_fd_Some, rule find_fd_eq) (auto simp: flag_at_def)

lemma find_fd_full:
  assumes "free_fd s = None" "flag_at env s k = 0"
  shows "\<exists>i > 7. find_fd (flag_at env s) 0 = Some i"
proof -
  let ?k = "LEAST k. flag_at env s k = 0"
  have "flag_at env s ?k = 0" using assms(2) by (rule LeastI)
  then have "\<not> ?k < 8" using free_fd_None [OF assms(1), of ?k] unfolding flag_at_def by meson
  moreover have "find_fd (flag_at env s) 0 = Some ?k" using assms(2) by (intro find_fd_first) blast
  ultimately show ?thesis by auto
qed

lemma fds_ok_std:
  "fds_ok s \<Longrightarrow> flags (get_fd (PCB_ptr s) 0 s) = 1 \<and> flags (get_fd (PCB_ptr s) 1 s) = 1"
  unfolding fds_ok_def by (auto simp: fd_ok_def dest: spec [of _ 0] spec [of _ 1])

lemma fds_ok_closed: "fds_ok s \<Longrightarrow> flags (get_fd (PCB_ptr s) i s) = 0 \<Longrightarrow> 2 \<le> i"
proof -
  assume ok: "fds_ok s" and free: "flags (get_fd (PCB_ptr s) i s) = 0"
  have "i \<noteq> 0" "i \<noteq> 1" using fds_ok_std [OF ok] free by (metis zero_neq_one)+
  then show ?thesis by arith
qed

lemma fds_ok_free: "fds_ok s \<Longrightarrow> free_fd s = Some i \<Longrightarrow> 2 \<le> i \<and> i < 8"
  using free_fd_Some fds_ok_closed by blast

subsection \<open>Which fields an update touches\<close>

lemma put_mem_fs [simp]: "put_mem m (s\<lparr>fs := st\<rparr>) = (put_mem m s)\<lparr>fs := st\<rparr>"
  by (simp add: put_mem_def window_page_def cong: if_cong)

lemma view_mem_simps [simp]:
  "view_mem (s\<lparr>fs := st\<rparr>) = view_mem s" "view_mem (s\<lparr>rtc := c\<rparr>) = view_mem s" "view_mem (set_fd p i f s) = view_mem s"
  "view_mem (s\<lparr>get_args := xs\<rparr>) = view_mem s"
  by (simp_all add: view_mem_def window_page_def set_fd_def cong: if_cong)

lemma get_fd_simps [simp]:
  "get_fd p i (s\<lparr>fs := st\<rparr>) = get_fd p i s" "get_fd p i (put_mem m s) = get_fd p i s" "get_fd p i (s\<lparr>rtc := c\<rparr>) = get_fd p i s"
  "get_fd p i (set_fd q j f s) = (if p = q \<and> i = j then f else get_fd p i s)"
  by (simp_all add: get_fd_def put_mem_def set_fd_def)

lemma kernel_put [simp]:
  "PCB_ptr (put_mem m s) = PCB_ptr s" "pcbs (put_mem m s) = pcbs s" "fs (put_mem m s) = fs s" "keyb (put_mem m s) = keyb s"
  "rtc (put_mem m s) = rtc s" "PID_arr (put_mem m s) = PID_arr s" "term_arr (put_mem m s) = term_arr s"
  "get_args (put_mem m s) = get_args s" "arg_size (put_mem m s) = arg_size s" "flagger (put_mem m s) = flagger s"
  "process_counter (put_mem m s) = process_counter s" "inti_flag (put_mem m s) = inti_flag s" "tss_esp0 (put_mem m s) = tss_esp0 s"
  by (simp_all add: put_mem_def)

lemma kernel_set_fd [simp]:
  "PCB_ptr (set_fd p i f s) = PCB_ptr s" "fs (set_fd p i f s) = fs s" "keyb (set_fd p i f s) = keyb s"
  "rtc (set_fd p i f s) = rtc s" "PID_arr (set_fd p i f s) = PID_arr s" "term_arr (set_fd p i f s) = term_arr s"
  "kernel_mem (set_fd p i f s) = kernel_mem s" "frames (set_fd p i f s) = frames s"
  by (simp_all add: set_fd_def)

lemma pcbs_set_fd: "pcbs (set_fd p i f s) = (pcbs s)(p := (pcbs s p)\<lparr>FDArray := (FDArray (pcbs s p))(i := f)\<rparr>)"
  by (simp add: set_fd_def)

lemma flag_at_cong:
  "PCB_ptr s' = PCB_ptr s \<Longrightarrow> pcbs s' = pcbs s \<Longrightarrow> flag_at env s' = flag_at env s"
  "PCB_ptr s' = PCB_ptr s \<Longrightarrow> pcbs s' = pcbs s \<Longrightarrow> free_fd s' = free_fd s"
  by (simp_all add: flag_at_def free_fd_def get_fd_def fun_eq_iff)

subsection \<open>Opening\<close>

text \<open>The descriptor of a file of type \<open>ty\<close>: the clock, a directory or a regular file.\<close>

definition opened :: "u32 \<Rightarrow> u32 \<Rightarrow> FD" where
  "opened ty ino =
    (if ty = 0 then \<lparr>operations = Some rtc_dev, fd_inode = 0, position = -1, flags = 1\<rparr>
     else if ty = 1 then \<lparr>operations = Some directory_dev, fd_inode = 0, position = 0, flags = 1\<rparr>
     else \<lparr>operations = Some file_dev, fd_inode = ino, position = 0, flags = 1\<rparr>)"

lemma opened_ok: "2 \<le> i \<Longrightarrow> fd_ok i (opened ty ino)"
  by (simp add: opened_def fd_ok_def)

lemma FD_Populate_opens:
  assumes "lookup_ready fname (local_dentry env) xs (view_mem s) (fs s)" "fname \<noteq> 0"
    "map_of (directory_of (view_mem s) (fs s)) xs = Some (ty, ino)" "ty \<le> 2" "free_fd s = Some i"
  shows "\<exists>m' a. FD_Populate env fname s =
      Some (int i, set_fd (PCB_ptr s) i (opened ty ino) (put_mem m' (s\<lparr>fs := (fs s)\<lparr>dentry_addr := a\<rparr>\<rparr>))) \<and>
    changes_only (local_dentry env) 44 (view_mem s) m'"
proof -
  let ?d = "local_dentry env"
  obtain m' a where m': "read_dentry_by_name fname ?d (view_mem s) (fs s) = Some (0, m', (fs s)\<lparr>dentry_addr := a\<rparr>)"
    "load32 m' (?d + 32) = ty" "load32 m' (?d + 36) = ino" "changes_only ?d 44 (view_mem s) m'"
    using files.found [OF assms(1,3)] by blast
  obtain m'' b where m'': "read_dentry_by_name fname ?d m' ((fs s)\<lparr>dentry_addr := a\<rparr>) = Some (0, m'', (fs s)\<lparr>dentry_addr := b\<rparr>)"
    "load32 m'' (?d + 36) = ino" "changes_only ?d 44 (view_mem s) m''"
    using files.found_again [OF assms(1,3) m'(1)] by blast
  let ?s1 = "(put_mem m' s)\<lparr>fs := (fs s)\<lparr>dentry_addr := a\<rparr>\<rparr>"
  have free: "find_fd (flag_at env ?s1) 0 = Some i"
    using assms(5) flag_at_cong(2) [of ?s1 s] by (intro find_fd_free) simp
  have i: "\<not> 7 < i" using free_fd_Some [OF assms(5)] by simp
  have "ty = 0 \<or> ty = 1 \<or> ty = 2"
  proof -
    have "unat ty \<le> 2" using assms(4) by (simp add: word_le_nat_alt)
    then have "unat ty = 0 \<or> unat ty = 1 \<or> unat ty = 2" by arith
    then show ?thesis by (auto simp: word_unat_eq_iff)
  qed
  then consider "ty = 0" | "ty = 1" | "ty = 2" by blast
  then show ?thesis
  proof cases
    case 3
    then show ?thesis using m' m'' free i assms(2)
      by (auto simp: FD_Populate_def Let_def opened_def running_memory.get_put running_memory.put_put simp flip: put_mem_fs)
  qed (use m' free i assms(2) in \<open>auto simp: FD_Populate_def Let_def opened_def\<close>)
qed

lemma FD_Populate_refuses:
  assumes "lookup_ready fname (local_dentry env) xs (view_mem s) (fs s)"
    "map_of (directory_of (view_mem s) (fs s)) xs = None \<or> free_fd s = None" "flag_at env s k = 0"
  shows "\<exists>m' a. FD_Populate env fname s = Some (-1, put_mem m' (s\<lparr>fs := (fs s)\<lparr>dentry_addr := a\<rparr>\<rparr>)) \<and>
    changes_only (local_dentry env) 44 (view_mem s) m'"
proof -
  let ?d = "local_dentry env"
  obtain r m' a where m': "read_dentry_by_name fname ?d (view_mem s) (fs s) = Some (r, m', (fs s)\<lparr>dentry_addr := a\<rparr>)"
    "changes_only ?d 44 (view_mem s) m'" "map_of (directory_of (view_mem s) (fs s)) xs = None \<Longrightarrow> r = -1"
    using files.absent [OF assms(1)] files.found [OF assms(1)] changes_only_refl
    by (cases "map_of (directory_of (view_mem s) (fs s)) xs") fastforce+
  let ?s1 = "(put_mem m' s)\<lparr>fs := (fs s)\<lparr>dentry_addr := a\<rparr>\<rparr>"
  obtain i where i: "find_fd (flag_at env ?s1) 0 = Some i" "free_fd s = None \<Longrightarrow> 7 < i"
  proof (cases "free_fd s")
    case None
    then show ?thesis using that find_fd_full [OF None assms(3)] flag_at_cong(1) [of ?s1 s env] by auto
  next
    case (Some j)
    then show ?thesis using that find_fd_free [OF Some] flag_at_cong(1) [of ?s1 s env] by auto
  qed
  show ?thesis using m' i assms(2) by (auto simp: FD_Populate_def Let_def)
qed

lemma dev_open_rtc:
  assumes "ops \<in> {file_dev, directory_dev, rtc_dev}"
  shows "\<exists>r c. dev_open env ops fname s = Some (r, s\<lparr>rtc := c\<rparr>)"
proof (cases "ops = rtc_dev")
  case False
  then have "dev_open env ops fname s = Some (0, s\<lparr>rtc := rtc s\<rparr>)"
    using assms by (auto simp: file_open_def direct_open_def)
  then show ?thesis by blast
qed (auto split: prod.splits)

lemma c_open_opens:
  assumes "lookup_ready fname (local_dentry env) xs (view_mem s) (fs s)" "fname \<noteq> 0"
    "map_of (directory_of (view_mem s) (fs s)) xs = Some (ty, ino)" "ty \<le> 2" "free_fd s = Some i"
  shows "\<exists>m' a c. c_open env fname s =
      Some (int i, (set_fd (PCB_ptr s) i (opened ty ino) (put_mem m' (s\<lparr>fs := (fs s)\<lparr>dentry_addr := a\<rparr>\<rparr>)))\<lparr>rtc := c\<rparr>) \<and>
    changes_only (local_dentry env) 44 (view_mem s) m'"
proof -
  obtain m' a where run: "FD_Populate env fname s =
      Some (int i, set_fd (PCB_ptr s) i (opened ty ino) (put_mem m' (s\<lparr>fs := (fs s)\<lparr>dentry_addr := a\<rparr>\<rparr>)))"
    and ch: "changes_only (local_dentry env) 44 (view_mem s) m'"
    using FD_Populate_opens [OF assms] by blast
  let ?s1 = "set_fd (PCB_ptr s) i (opened ty ino) (put_mem m' (s\<lparr>fs := (fs s)\<lparr>dentry_addr := a\<rparr>\<rparr>))"
  have "\<exists>r c. dev_open env ops fname ?s1 = Some (r, ?s1\<lparr>rtc := c\<rparr>)" if "operations (opened ty ino) = Some ops" for ops
    using that by (intro dev_open_rtc) (auto simp: opened_def split: if_splits)
  moreover obtain ops where "operations (opened ty ino) = Some ops"
    by (cases "operations (opened ty ino)") (auto simp: opened_def split: if_splits)
  moreover have "operations (get_fd (PCB_ptr s) i ?s1) = operations (opened ty ino)" by simp
  ultimately show ?thesis using run ch assms(2) by (fastforce simp: c_open_def)
qed

subsection \<open>The descriptor invariant\<close>

lemma FD_Populate_ok:
  assumes "fds_ok s" "FD_Populate env fname s = Some (i, s')"
  shows "fds_ok s' \<and> (i = -1 \<or> 2 \<le> i \<and> i \<le> 7)"
proof -
  obtain name m st k where e: "read_dentry_by_name fname (local_dentry env) (view_mem s) (fs s) = Some (name, m, st)"
    and k: "find_fd (flag_at env ((put_mem m s)\<lparr>fs := st\<rparr>)) 0 = Some k"
    using assms(2) unfolding FD_Populate_def Let_def by (auto split: bind_splits)
  let ?s1 = "(put_mem m s)\<lparr>fs := st\<rparr>"
  have s1: "fds_ok ?s1" using assms(1) fds_ok_same [of s ?s1] same_tables_trans [OF same_tables_put same_tables_fields(1)] by blast
  have bounds: "2 \<le> k" if "k \<le> 7"
  proof -
    have "flags (get_fd (PCB_ptr s) k s) = 0" using find_fd_Some [OF k] that by (simp add: flag_at_def)
    then show ?thesis using assms(1) fds_ok_closed by blast
  qed
  have second: "fds_ok (set_fd (PCB_ptr s) k f ((put_mem m'' ?s1)\<lparr>fs := st''\<rparr>))" if "fd_ok k f" for f m'' st''
  proof -
    have "fds_ok ((put_mem m'' ?s1)\<lparr>fs := st''\<rparr>)"
      using s1 fds_ok_same [OF same_tables_trans [OF same_tables_put same_tables_fields(1)]] by blast
    then show ?thesis using that by (intro fds_ok_set) simp_all
  qed
  show ?thesis
  proof (cases "k > 7 \<or> fname = 0 \<or> name = -1")
    case True
    then show ?thesis using assms(2) e k s1 by (auto simp: FD_Populate_def Let_def)
  next
    case False
    then have k2: "2 \<le> k" using bounds by simp
    have ok: "fd_ok k \<lparr>operations = Some rtc_dev, fd_inode = 0, position = -1, flags = 1\<rparr>"
      "fd_ok k \<lparr>operations = Some directory_dev, fd_inode = 0, position = 0, flags = 1\<rparr>"
      "fd_ok k \<lparr>operations = Some file_dev, fd_inode = x, position = 0, flags = 1\<rparr>" for x
      using k2 by (simp_all add: fd_ok_def)
    show ?thesis using assms(2) e k s1 False k2 ok second fds_ok_set [OF s1, of "PCB_ptr s" k]
      by (auto simp: FD_Populate_def Let_def split: if_splits bind_splits)
  qed
qed

lemma c_open_ok: "fds_ok s \<Longrightarrow> c_open env fname s = Some (i, s') \<Longrightarrow> fds_ok s' \<and> (i = -1 \<or> 2 \<le> i \<and> i \<le> 7)"
  using FD_Populate_ok [of s env fname] fds_ok_same [OF open_op.keeps]
  by (auto simp: c_open_def split: if_splits bind_splits)

lemma c_close_ok: "fds_ok s \<Longrightarrow> c_close fd s = (r, s') \<Longrightarrow> fds_ok s'"
  using fds_ok_set [of s "PCB_ptr s" "nat fd" closed_fd]
  by (auto simp: c_close_def fd_ok_def closed_fd_def split: if_splits)

lemma c_read_ok: "fds_ok s \<Longrightarrow> c_read env fd buf nbytes s = Some (r, s') \<Longrightarrow> fds_ok s'"
  using fds_ok_same [OF read_op.keeps] by (auto simp: c_read_def split: if_splits bind_splits)

lemma c_write_ok: "fds_ok s \<Longrightarrow> c_write env fd buf nbytes s = Some (r, s') \<Longrightarrow> fds_ok s'"
  using fds_ok_same [OF write_op.keeps] by (auto simp: c_write_def split: if_splits bind_splits)

lemma fds_ok_pcbs: "PCB_ptr s' = PCB_ptr s \<Longrightarrow> pcbs s' = pcbs s \<Longrightarrow> fds_ok s' = fds_ok s"
  by (simp add: fds_ok_def get_fd_def)

lemma set_console_simps [simp]:
  "PCB_ptr (set_console c s) = PCB_ptr s" "pcbs (set_console c s) = pcbs s" "PID_arr (set_console c s) = PID_arr s"
  "term_arr (set_console c s) = term_arr s" "fs (set_console c s) = fs s" "con (keyb (set_console c s)) = c"
  by (simp_all add: set_console_def)

lemma c_getargs_ok: "c_getargs env buf nbytes s = (r, s') \<Longrightarrow> PCB_ptr s' = PCB_ptr s \<and> pcbs s' = pcbs s"
  by (auto simp: c_getargs_def Let_def split: if_splits)

lemma c_vidmap_ok: "c_vidmap env scr s = (r, s') \<Longrightarrow> PCB_ptr s' = PCB_ptr s \<and> pcbs s' = pcbs s"
  by (auto simp: c_vidmap_def Let_def split: if_splits)

text \<open>The system calls of one process, in any order and with any arguments.\<close>

inductive syscall_step :: "env \<Rightarrow> kernel \<Rightarrow> kernel \<Rightarrow> bool" for env where
  step_open: "c_open env fname s = Some (r, s') \<Longrightarrow> syscall_step env s s'"
| step_close: "c_close fd s = (r, s') \<Longrightarrow> syscall_step env s s'"
| step_read: "c_read env fd buf nbytes s = Some (r, s') \<Longrightarrow> syscall_step env s s'"
| step_write: "c_write env fd buf nbytes s = Some (r, s') \<Longrightarrow> syscall_step env s s'"
| step_getargs: "c_getargs env buf nbytes s = (r, s') \<Longrightarrow> syscall_step env s s'"
| step_vidmap: "c_vidmap env scr s = (r, s') \<Longrightarrow> syscall_step env s s'"
| step_sethandler: "c_sethandler signum handler s = (r, s') \<Longrightarrow> syscall_step env s s'"
| step_sigreturn: "c_sigreturn s = (r, s') \<Longrightarrow> syscall_step env s s'"

lemma syscall_step_ok: "syscall_step env s s' \<Longrightarrow> fds_ok s \<Longrightarrow> fds_ok s'"
proof (induction rule: syscall_step.induct)
  case (step_getargs buf nbytes s r s')
  then show ?case using c_getargs_ok fds_ok_pcbs by metis
next
  case (step_vidmap scr s r s')
  then show ?case using c_vidmap_ok fds_ok_pcbs by metis
qed (auto simp: c_sethandler_def c_sigreturn_def dest: c_open_ok c_close_ok c_read_ok c_write_ok)

subsection \<open>What reads deliver\<close>

lemma file_read_delivers:
  assumes "p = PCB_ptr s" "pcb_addr (get_process_count s) = p" "f = get_fd p (nat fd) s"
    "file_readable (view_mem s) (fs s) (fd_inode f) (position f)"
    "n = min (get_length (fd_inode f) (view_mem s) (fs s)) (of_int nbytes)"
    "bytes = file_bytes (view_mem s) (fs s) (fd_inode f) (position f) (unat n)"
    "bytes \<noteq> []" "hd bytes \<noteq> 0" "view_mem s a = 0" "\<not> in_region buf (unat n) a"
  shows "file_read fd buf nbytes s = Some (sint n,
    set_fd p (nat fd) (f\<lparr>position := position f + n\<rparr>) (put_mem (store_bytes (view_mem s) buf bytes) s))"
proof -
  have len: "length bytes = unat n" by (simp add: assms(6) file_bytes_def)
  have run: "read_data (fd_inode f) (position f) buf (of_int nbytes) (view_mem s) (fs s) =
      (sint n, store_bytes (view_mem s) buf bytes)"
    using assms(4-6) by (simp add: read_data_outcome Let_def)
  let ?m = "store_bytes (view_mem s) buf bytes"
  have "?m a = 0" using assms(9,10) len by (simp add: store_bytes_outside)
  then obtain r where r: "strlen ?m buf = Some r" using strlen_returns_iff [of ?m buf] by blast
  have "0 < unat n" using assms(7) unfolding len [symmetric] by simp
  then have "?m buf = hd bytes" using assms(7) len by (simp add: store_bytes_apply hd_conv_nth)
  then have "r \<noteq> 0" using strlen_from_zero [of ?m buf 0 r] r assms(8) by (auto simp: strlen_def)
  then show ?thesis using run r assms(1-3)
    by (simp add: file_read_def Let_def get_pcb_ptr_def)
qed

lemma strncpy_name:
  assumes "cstr m d xs" "k \<le> length xs" "disjoint_regions d (Suc (length xs)) buf k"
  shows "strncpy m buf d (of_nat k) = store_bytes m buf (take k xs)"
proof -
  have "k < 2 ^ 32" using assms(1,2) by (simp add: cstr_def)
  then have "unat (of_nat k :: u32) = k" by simp
  then show ?thesis using strncpy_cstr [OF assms(1), of buf "of_nat k"] assms(2,3) by simp
qed

lemma direct_read_lists:
  assumes "p = pcb_addr (get_process_count s)" "f = get_fd p (nat fd) s" "d = local_dentry env"
    "position f < num_dentry (view_mem s) (fs_addr (fs s))" "e = entry_at (fs s) (unat (position f))"
    "xs = entry_name (view_mem s) e" "length xs < 32" "disjoint_regions d 44 e 44"
    "0 < nbytes" "k = min (nat nbytes) (length xs)" "disjoint_regions d 44 buf k"
  shows "\<exists>m. direct_read env fd buf nbytes s = Some (int k,
      set_fd p (nat fd) (f\<lparr>position := position f + 1\<rparr>) (put_mem m (s\<lparr>fs := (fs s)\<lparr>dentry_addr := e\<rparr>\<rparr>))) \<and>
    load_bytes m buf k = take k xs \<and> (\<forall>a. \<not> in_region d 44 a \<longrightarrow> \<not> in_region buf k a \<longrightarrow> m a = view_mem s a)"
proof -
  let ?st = "(fs s)\<lparr>dentry_addr := e\<rparr>"
  have "dentry_ok (view_mem s) e" using assms(6,7) by (simp add: dentry_ok_def)
  then obtain m1 where m1: "read_dentry_by_index (position f) d (view_mem s) (fs s) = Some (0, m1, ?st)"
    "entry_name m1 d = xs" "changes_only d 44 (view_mem s) m1"
    using read_dentry_by_index_eq [OF assms(4,5) _ assms(8)] assms(6) by auto
  have str: "cstr m1 d xs" using entry_cstr [of m1 d] m1(2) assms(7) by simp
  have k: "k \<le> length xs" using assms(10) by simp
  have dis: "disjoint_regions d (Suc (length xs)) buf k"
    using assms(7) by (intro disjoint_regions_mono [OF assms(11)]) simp_all
  let ?m2 = "store_bytes m1 buf (take k xs)"
  have n1: "strlen m1 d = Some (of_nat (length xs))" by (rule strlen_cstr [OF str])
  have n2: "strlen ?m2 d = Some (of_nat (length xs))"
    using dis k str assms(7) by (intro strlen_cstr cstr_frame) (simp_all add: min_absorb2)
  have min: "min_int nbytes (sint (of_nat (length xs) :: u32)) = int k"
    using assms(7,9,10) sint_small [of "length xs"] by (auto simp: min_int_def min_def)
  have "direct_read env fd buf nbytes s = Some (int k,
      set_fd p (nat fd) (f\<lparr>position := position f + 1\<rparr>) (put_mem ?m2 (s\<lparr>fs := ?st\<rparr>)))"
    using m1(1) n1 n2 min assms(9) strncpy_name [OF str k dis]
    unfolding direct_read_def Let_def assms(1) [symmetric] assms(2) [symmetric] assms(3) [symmetric]
    by (simp add: running_memory.put_put assms(2) flip: put_mem_fs)
  moreover have "load_bytes ?m2 buf k = take k xs"
    using k assms(7) by (intro load_store_bytes) simp_all
  moreover have "?m2 a = view_mem s a" if "\<not> in_region d 44 a" "\<not> in_region buf k a" for a
    using that m1(3) k assms(7) by (simp add: store_bytes_outside changes_only_def min_absorb2)
  ultimately show ?thesis by blast
qed

subsection \<open>Arguments and video memory\<close>

lemma store_bytes_over:
  assumes "length xs \<le> 2 ^ 32" "length ys \<le> 2 ^ 32"
  shows "store_bytes (store_bytes m a ys) a xs = store_bytes m a (xs @ drop (length xs) ys)"
  using assms by (intro ext) (auto simp: store_bytes_apply nth_append)

lemma c_getargs_copies:
  assumes "buf \<noteq> 0" "n = nat (arg_size s)" "0 \<le> arg_size s" "n \<le> 1024" "length (get_args s) = 1024" "arg_size s < nbytes"
  shows "c_getargs env buf nbytes s =
    (0, (put_mem (store_bytes (view_mem s) buf (take n (get_args s) @ replicate (128 - n) 0)) s)\<lparr>get_args := replicate 1024 0\<rparr>)"
proof -
  have args: "map (arg_at env s) [0..<n] = take n (get_args s)"
    using assms(4,5) by (intro nth_equalityI) (simp_all add: arg_at_def)
  have zeros: "map (\<lambda>_. 0) [0..<128] = replicate 128 (0 :: u8)" by (simp add: map_replicate_const)
  have "store_bytes (store_bytes (view_mem s) buf (replicate 128 0)) buf (take n (get_args s)) =
      store_bytes (view_mem s) buf (take n (get_args s) @ replicate (128 - n) 0)"
    using store_bytes_over [of "take n (get_args s)" "replicate 128 0" "view_mem s" buf] assms(4,5) by simp
  then show ?thesis using assms(1,3,6) args zeros
    by (simp add: c_getargs_def Let_def fold_store_bytes assms(2) [symmetric])
qed

lemma sint_unat_less: "unat (a :: u32) < 2 ^ 31 \<Longrightarrow> sint a = int (unat a)"
  using sint_small [of "unat a"] by simp

lemma sint_nonneg: "0 \<le> sint (a :: u32) \<Longrightarrow> int (unat a) = sint a"
proof -
  assume "0 \<le> sint a"
  moreover have "sint a < 2 ^ 31" using sint_lt [of a] by simp
  ultimately have "take_bit 32 (sint a) = sint a" by (simp add: take_bit_int_eq_self)
  then show ?thesis using uint_sint [of a] by simp
qed

lemma in_window_range: "in_window a \<longleftrightarrow> 0x08000000 \<le> sint a \<and> sint a < 0x08400000"
proof -
  have u: "in_window a \<longleftrightarrow> 0x08000000 \<le> unat a \<and> unat a < 0x08400000"
    unfolding in_window_def word_unat_eq_iff unat_drop32 by auto
  show ?thesis
  proof
    assume "in_window a"
    then have b: "0x08000000 \<le> unat a" "unat a < 0x08400000" using u by auto
    then have "sint a = int (unat a)" by (intro sint_unat_less) simp
    then show "0x08000000 \<le> sint a \<and> sint a < 0x08400000" using b by linarith
  next
    assume s: "0x08000000 \<le> sint a \<and> sint a < 0x08400000"
    then have "int (unat a) = sint a" by (intro sint_nonneg) simp
    then show "in_window a" using s u by linarith
  qed
qed

lemma map_video_walk:
  assumes "page_aligned t1" "act \<in> {0, 1, 2}" "drop_bit 12 a = 0x8400"
  shows "walk t1 t2 (map_video t1 u cur act MB_132 p) a =
    Some ((if cur = act then VIDEO else term_page act) OR take_bit 12 a, True)"
proof -
  have "drop_bit 22 a = drop_bit 10 (drop_bit 12 a)" by simp
  then have a: "drop_bit 22 a = 33" "take_bit 10 (drop_bit 12 a) = 0" unfolding assms(3) by simp_all
  have "directory (map_video t1 u cur act MB_132 p) (unat (drop_bit 22 a)) = t1 OR 7"
    by (simp add: a map_video_def Let_def)
  note w = walk_small [OF this assms(1), of t2]
  have "tables (map_video t1 u cur act MB_132 p) 0 = (if cur = act then VIDEO else term_page act) OR 7"
    using assms(2) by (auto simp: map_video_def Let_def term_page_def)
  then show ?thesis using w assms(2) by (auto simp: a term_page_def)
qed

lemma map_video_window [simp]: "directory (map_video t1 u cur act MB_132 p) 32 = directory p 32"
  by (simp add: map_video_def Let_def)

subsection \<open>A concrete kernel\<close>

text \<open>One shell on the first terminal, and the regular file \<open>a\<close> of three bytes.\<close>

definition user_disk :: mem where
  "user_disk = store_bytes mounted_disk 0x10020 [2]"

definition blank_pcb :: PCB where
  "blank_pcb = \<lparr>PID = 0, Parent_PID = 0, FDArray = (\<lambda>_. closed_fd), ESP0 = 0, EBP0 = 0, term_num = 0,
     parent_esp = 0x7FFF00, parent_ebp = 0x7FFF40, pcb_active = 0\<rparr>"

definition shell_running :: kernel where
  "shell_running = put_mem user_disk \<lparr>kernel_mem = (\<lambda>_. 0), frames = (\<lambda>_ _. 0), fs = mounted, keyb = line_ready,
     rtc = \<lparr>rtc_flag = 0, rtc_rate = 0, rtc_ports = []\<rparr>, pcbs = (\<lambda>_. c_pcb 1 blank_pcb), process_counter = 1,
     PCB_ptr = pcb_addr 1, get_args = replicate 1024 0, arg_size = 0, PID_arr = [1, 0, 0, 0, 0, 0],
     term_arr = (\<lambda>t. if t = 0 then \<lparr>last_active_pro = 1, term_flag = 1, term_view = 0\<rparr>
       else \<lparr>last_active_pro = 0, term_flag = 0, term_view = 0\<rparr>), inti_flag = 1, flagger = 0,
     tss_esp0 = pcb_addr 1 - 4\<rparr>"

definition sample_env :: env where
  "sample_env = \<lparr>rtc_device = (\<lambda>_ _. 0), rtc_irq = (\<lambda>_. True), enter = (\<lambda>_. line_ready), past_read = (\<lambda>_. 0),
     past_fds = (\<lambda>_. 0), past_args = (\<lambda>_. 0), local_dentry = 0x30000, local_name = 0x30100, local_check = 0x30200,
     local_magic = 0x30300, shell_name = 0x30400, error_msg = 0x30500, entry_uninit = 0, reg_esp = 0x7FD000, reg_ebp = 0x7FD040\<rparr>"

lemma shell_running_parts [simp]:
  "view_mem shell_running = user_disk" "fs shell_running = mounted" "PCB_ptr shell_running = pcb_addr 1"
  "pcbs shell_running = (\<lambda>_. c_pcb 1 blank_pcb)" "arg_size shell_running = 0" "get_args shell_running = replicate 1024 0"
  by (simp_all add: shell_running_def running_memory.get_put)

lemma shell_running_fds: "fds_ok shell_running"
  by (simp add: fds_ok_def get_fd_def c_pcb_fds)

lemma user_disk_facts:
  "unat (num_dentry user_disk (fs_addr mounted)) = 1" "entry_name user_disk 0x10000 = [97]" "entry_at mounted 0 = 0x10000"
  "load32 user_disk 0x10020 = 2" "load32 user_disk 0x10024 = 0" "load_bytes user_disk 0x20000 (length [97 :: u8] + 1) = [97] @ [0]"
  by code_simp+

lemma shell_lookup: "lookup_ready 0x20000 0x30000 [97] user_disk mounted"
proof -
  have "cstr user_disk 0x20000 [97]" using user_disk_facts(6) by (rule cstr_bytes) simp_all
  moreover have "directory_clear user_disk mounted [97]"
    unfolding directory_clear_def user_disk_facts(1)
    by (simp add: user_disk_facts dentry_ok_def hides_def long_entry_def)
  moreover have "disjoint_regions 0x30000 44 (0x20000 :: u32) (Suc (Suc 0))" "disjoint_regions 0x30000 44 (0x10000 :: u32) 44"
    by (subst disjoint_regions_sym, rule disjoint_regionsI, simp_all)+
  moreover have "disjoint_regions (0x30000 :: u32) 44 (fs_addr mounted) 4"
    by (rule disjoint_regionsI) (simp_all add: mounted_def)
  ultimately show ?thesis unfolding lookup_ready_def user_disk_facts(1) by (simp add: user_disk_facts)
qed

lemma shell_directory: "map_of (directory_of user_disk mounted) [97] = Some (2, 0)"
  unfolding directory_of_def user_disk_facts(1) by (simp add: user_disk_facts)

lemma shell_free: "free_fd shell_running = Some 2"
  by (simp add: free_fd_def get_fd_def c_pcb_def closed_fd_def upt_rec)

subsection \<open>Properties\<close>



text \<open>C20: whatever system calls a process makes, in any order and with any arguments, its descriptor
  table stays well formed: 0 and 1 are the terminal, and every other open descriptor
  belongs to a file, a directory or the clock.\<close>

theorem descriptors_stay_well_formed:
  assumes "fds_ok s" "(syscall_step env)\<^sup>*\<^sup>* s s'"
  shows "fds_ok s'"
  using assms(2,1) by (induction rule: rtranclp_induct) (auto dest: syscall_step_ok)

theorem descriptors_stay_well_formed_witness: "fds_ok (snd (c_close 2 (snd (c_getargs sample_env 0x20000 128 shell_running))))"
proof -
  let ?s1 = "snd (c_getargs sample_env 0x20000 128 shell_running)"
  have "syscall_step sample_env shell_running ?s1" "syscall_step sample_env ?s1 (snd (c_close 2 ?s1))"
    using step_getargs [OF surjective_pairing] step_close [OF surjective_pairing] by blast+
  then have "(syscall_step sample_env)\<^sup>*\<^sup>* shell_running (snd (c_close 2 ?s1))" by (meson converse_rtranclp_into_rtranclp r_into_rtranclp)
  then show ?thesis by (rule descriptors_stay_well_formed [OF shell_running_fds])
qed



text \<open>C32: a refused call returns -1 and leaves the whole kernel as it was: a descriptor out of range or
  closed, reading standard output, writing standard input, closing either, a null buffer or
  name, an argument buffer that is too small, a screen pointer outside the process's
  window, and the two signal calls.\<close>

theorem refused_calls_change_nothing:
  "(fd < 0 \<or> 7 < fd \<or> flags (get_fd (PCB_ptr s) (nat fd) s) = 0 \<longrightarrow>
      c_read env fd buf nbytes s = Some (-1, s) \<and> c_write env fd buf nbytes s = Some (-1, s) \<and> c_close fd s = (-1, s)) \<and>
    c_read env 1 buf nbytes s = Some (-1, s) \<and> c_write env 0 buf nbytes s = Some (-1, s) \<and>
    (fd \<le> 1 \<longrightarrow> c_close fd s = (-1, s)) \<and>
    c_read env fd 0 nbytes s = Some (-1, s) \<and> c_write env fd 0 nbytes s = Some (-1, s) \<and> c_open env 0 s = Some (-1, s) \<and>
    c_getargs env 0 nbytes s = (-1, s) \<and> (nbytes \<le> arg_size s \<longrightarrow> c_getargs env buf nbytes s = (-1, s)) \<and>
    (\<not> in_window buf \<longrightarrow> c_vidmap env buf s = (-1, s)) \<and>
    c_sethandler fd buf s = (-1, s) \<and> c_sigreturn s = (-1, s)"
  by (auto simp: c_read_def c_write_def c_close_def c_open_def c_getargs_def c_vidmap_def c_sethandler_def c_sigreturn_def
      in_window_range)

theorem refused_calls_change_nothing_witness:
  "c_read sample_env 9 64 4 shell_running = Some (-1, shell_running) \<and> c_close 9 shell_running = (-1, shell_running) \<and>
   c_vidmap sample_env 64 shell_running = (-1, shell_running)"
proof -
  have "\<not> in_window 64" by (simp add: in_window_def)
  then show ?thesis using refused_calls_change_nothing [of 9 shell_running sample_env 64 4] by simp
qed

text \<open>C33: closing the descriptor an open returned succeeds, gives it back (it is the lowest free one
  again) and leaves every other descriptor as it was before the open.\<close>

theorem open_close_roundtrip:
  assumes "fds_ok s" "lookup_ready fname (local_dentry env) xs (view_mem s) (fs s)" "fname \<noteq> 0"
    "map_of (directory_of (view_mem s) (fs s)) xs = Some (ty, ino)" "ty \<le> 2" "free_fd s = Some i"
  shows "\<exists>s' s''. c_open env fname s = Some (int i, s') \<and> c_close (int i) s' = (0, s'') \<and> free_fd s'' = Some i \<and>
    get_fd (PCB_ptr s'') i s'' = closed_fd \<and>
    (\<forall>p j. (p, j) \<noteq> (PCB_ptr s, i) \<longrightarrow> get_fd p j s'' = get_fd p j s)"
proof -
  obtain m' a c where run: "c_open env fname s =
      Some (int i, (set_fd (PCB_ptr s) i (opened ty ino) (put_mem m' (s\<lparr>fs := (fs s)\<lparr>dentry_addr := a\<rparr>\<rparr>)))\<lparr>rtc := c\<rparr>)"
    using c_open_opens [OF assms(2-6)] by blast
  let ?s1 = "(set_fd (PCB_ptr s) i (opened ty ino) (put_mem m' (s\<lparr>fs := (fs s)\<lparr>dentry_addr := a\<rparr>\<rparr>)))\<lparr>rtc := c\<rparr>"
  let ?s2 = "set_fd (PCB_ptr s) i closed_fd ?s1"
  have i: "2 \<le> i" "i < 8" using fds_ok_free [OF assms(1,6)] by simp_all
  have "flags (opened ty ino) \<noteq> 0" by (simp add: opened_def)
  then have close: "c_close (int i) ?s1 = (0, ?s2)" using i by (simp add: c_close_def)
  have "(\<lambda>j. flags (get_fd (PCB_ptr s) j ?s2) = 0) = (\<lambda>j. flags (get_fd (PCB_ptr s) j s) = 0)"
    using free_fd_Some [OF assms(6)] by (auto simp: closed_fd_def)
  then have "free_fd ?s2 = Some i" using assms(6) by (simp add: free_fd_def)
  then show ?thesis using run close by (intro exI [of _ ?s1] exI [of _ ?s2]) simp
qed

theorem open_close_roundtrip_witness:
  "\<exists>s' s''. c_open sample_env 0x20000 shell_running = Some (2, s') \<and> c_close 2 s' = (0, s'') \<and> free_fd s'' = Some 2"
proof -
  have "local_dentry sample_env = 0x30000" by (simp add: sample_env_def)
  then show ?thesis
    using open_close_roundtrip [OF shell_running_fds, where fname = "0x20000" and env = sample_env and xs = "[97]" and ty = 2 and ino = 0 and i = 2]
      shell_lookup shell_directory shell_free by fastforce
qed


definition file_opened :: kernel where
  "file_opened = set_fd (pcb_addr 1) 2 (opened 2 0) shell_running"

lemma file_opened_parts [simp]:
  "view_mem file_opened = user_disk" "fs file_opened = mounted" "PCB_ptr file_opened = pcb_addr 1"
  "get_process_count file_opened = 1" "get_fd (pcb_addr 1) 2 file_opened = opened 2 0"
  by (simp_all add: file_opened_def) (simp_all add: get_process_count_def active_term_def get_active_term_def shell_running_def
    line_ready_def boot_console_def)



definition directory_opened :: kernel where
  "directory_opened = set_fd (pcb_addr 1) 3 (opened 1 0) shell_running"

lemma directory_opened_parts [simp]:
  "view_mem directory_opened = user_disk" "fs directory_opened = mounted" "PCB_ptr directory_opened = pcb_addr 1"
  "get_process_count directory_opened = 1" "get_fd (pcb_addr 1) 3 directory_opened = opened 1 0"
  by (simp_all add: directory_opened_def) (simp_all add: get_process_count_def active_term_def get_active_term_def shell_running_def
    line_ready_def boot_console_def)


text \<open>\<open>c_getargs\<close> copies the argument string of the last command into the caller's buffer, pads it
  with zeros up to 128 bytes and clears the kernel's copy, when the buffer is large enough.\<close>

theorem c_getargs_correct:
  assumes "buf \<noteq> 0" "n = nat (arg_size s)" "0 \<le> arg_size s" "n \<le> 1024" "length (get_args s) = 1024" "arg_size s < nbytes"
  shows "\<exists>s'. c_getargs env buf nbytes s = (0, s') \<and> view_mem s' = store_bytes (view_mem s) buf (take n (get_args s) @ replicate (128 - n) 0) \<and>
    get_args s' = replicate 1024 0 \<and> arg_size s' = arg_size s \<and> pcbs s' = pcbs s"
  using c_getargs_copies [OF assms, of env] by (simp add: running_memory.get_put)

theorem c_getargs_correct_witness:
  "\<exists>s'. c_getargs sample_env 0x50000 128 (shell_running\<lparr>get_args := [46] @ replicate 1023 0, arg_size := 1\<rparr>) = (0, s') \<and>
     load_bytes (view_mem s') 0x50000 128 = [46] @ replicate 127 0"
proof -
  let ?s = "shell_running\<lparr>get_args := [46] @ replicate 1023 0, arg_size := 1\<rparr>"
  have "\<exists>s'. c_getargs sample_env 0x50000 128 ?s = (0, s') \<and>
      view_mem s' = store_bytes (view_mem ?s) 0x50000 (take 1 (get_args ?s) @ replicate (128 - 1) 0) \<and>
      get_args s' = replicate 1024 0 \<and> arg_size s' = arg_size ?s \<and> pcbs s' = pcbs ?s"
    by (rule c_getargs_correct) simp_all
  moreover have "load_bytes (store_bytes (view_mem ?s) 0x50000 (take 1 (get_args ?s) @ replicate (128 - 1) 0)) 0x50000 128 =
      take 1 (get_args ?s) @ replicate (128 - 1) 0"
    by (rule load_store_bytes) simp_all
  moreover have "take 1 (get_args ?s) @ replicate (128 - 1) 0 = [46] @ replicate 127 0" by simp
  ultimately show ?thesis by metis
qed

text \<open>C38: \<open>c_vidmap\<close>, given a pointer inside the process's window, returns 0, stores there the address
  132 MB, and makes that page the screen of the caller's terminal, open to user mode: video
  memory when the terminal is displayed and the terminal's own page otherwise.  The window
  keeps its page.\<close>

theorem c_vidmap_correct:
  assumes "in_window scr" "scr \<noteq> 0" "c = con (keyb s)" "page_aligned (tables_addr c)" "active_terminal c \<in> {0, 1, 2}"
  shows "\<exists>s'. c_vidmap env scr s = (0, s') \<and> load32 (view_mem s') scr = MB_132 \<and> window_page s' = window_page s \<and>
    (\<forall>a. drop_bit 12 a = 0x8400 \<longrightarrow> walk (tables_addr c) (tables2_addr c) (kernel_pages s') a =
      Some ((if current_terminal c = active_terminal c then VIDEO else term_page (active_terminal c)) OR take_bit 12 a, True))"
proof -
  let ?p = "map_video (tables_addr c) (entry_uninit env) (get_current_term c) (get_active_term c) MB_132 (pages c)"
  let ?s1 = "set_console (c\<lparr>pages := ?p\<rparr>) s"
  have "c_vidmap env scr s = (0, put_mem (store32 (view_mem ?s1) scr MB_132) ?s1)"
    using assms(1,2,3) in_window_range [of scr] by (simp add: c_vidmap_def Let_def not_less)
  moreover have "window_page ?s1 = window_page s"
    using assms(3) by (simp add: window_page_def)
  ultimately show ?thesis
    using map_video_walk [OF assms(4,5), of _ "tables2_addr c" "entry_uninit env" "get_current_term c" "pages c"]
    by (auto simp: running_memory.get_put load32_store32 get_current_term_def get_active_term_def)
qed

theorem c_vidmap_correct_witness:
  "\<exists>s'. c_vidmap sample_env 0x08001000 shell_running = (0, s') \<and> load32 (view_mem s') 0x08001000 = MB_132"
proof -
  have "con (keyb shell_running) = boot_console" by (simp add: shell_running_def line_ready_def)
  moreover have "page_aligned (tables_addr boot_console)" "active_terminal boot_console = 0"
    by (simp_all add: boot_console_def page_aligned_def)
  moreover have "in_window 0x08001000" by (simp add: in_window_def)
  ultimately show ?thesis using c_vidmap_correct [where scr = "0x08001000" and c = boot_console and s = shell_running and env = sample_env]
    by auto
qed

end
