(* ===== verification/Console_Frame.thy ===== *)
theory Console_Frame
  imports Terminal
begin

text \<open>
  What printing leaves alone, without any hypothesis on the console: the page tables and the
  choice of terminals.  Code that prints a message in passing needs no more of it.
\<close>

definition same_console :: "console \<Rightarrow> console \<Rightarrow> bool" where
  "same_console c c' \<longleftrightarrow> pages c' = pages c \<and> tables_addr c' = tables_addr c \<and> tables2_addr c' = tables2_addr c \<and>
    current_terminal c' = current_terminal c \<and> active_terminal c' = active_terminal c"

lemma same_console_refl: "same_console c c"
  by (simp add: same_console_def)

lemma same_console_trans: "same_console c c' \<Longrightarrow> same_console c' c'' \<Longrightarrow> same_console c c''"
  by (simp add: same_console_def)

text \<open>An operation on the console that prints only.\<close>

locale printing =
  fixes op :: "console \<Rightarrow> console option"
  assumes prints: "op c = Some c' \<Longrightarrow> same_console c c'"
begin

lemma before: "(op c \<bind> f) = Some r \<Longrightarrow> (\<And>c'. same_console c c' \<Longrightarrow> f c' = Some r \<Longrightarrow> thesis) \<Longrightarrow> thesis"
  using prints by (auto split: bind_splits)

end

lemma set_cursor_same: "same_console c (set_cursor t x y c)"
  by (simp add: same_console_def set_cursor_def)

lemma vstore_same: "vstore a v c = Some c' \<Longrightarrow> same_console c c'"
  by (auto simp: vstore_def same_console_def)

lemma fold_opt_same:
  assumes "\<And>x c c'. f x c = Some c' \<Longrightarrow> same_console c c'" "fold_opt f xs c = Some c'"
  shows "same_console c c'"
  using assms(2)
proof (induction xs arbitrary: c)
  case (Cons x xs)
  then obtain d where "f x c = Some d" "fold_opt f xs d = Some c'" by (auto split: bind_splits)
  then show ?case using Cons.IH [of d] assms(1) [of x c d] same_console_trans by blast
qed (simp add: same_console_refl)

lemma put_at_same: "put_at base t ch c = Some c' \<Longrightarrow> same_console c c'"
  unfolding put_at_def Let_def
  by (auto split: if_splits bind_splits dest!: vstore_same intro: set_cursor_same same_console_trans)

interpretation putc_prints: printing "putc ch" for ch
  by unfold_locales (auto simp: putc_def dest: put_at_same split: if_splits)

interpretation scroll_prints: printing scroll
proof
  fix c c'
  assume "scroll c = Some c'"
  then obtain bs d where "vstore_bytes (page_arr (active_terminal c)) bs c = Some d" "c' = set_cursor (active_terminal c) 0 23 d"
    unfolding scroll_def Let_def by (auto split: bind_splits)
  moreover have "same_console c d"
    using calculation(1) unfolding vstore_bytes_def by (rule fold_opt_same [rotated]) (rule vstore_same)
  ultimately show "same_console c c'" using set_cursor_same same_console_trans by blast
qed

lemma write_char_same: "write_char ch c = Some c' \<Longrightarrow> same_console c c'"
  unfolding write_char_def Let_def
  by (auto split: if_splits bind_splits dest!: putc_prints.prints scroll_prints.prints intro: same_console_trans)

lemma write_loop_same: "write_loop m ptr n j c = Some (k, c') \<Longrightarrow> same_console c c'"
proof (induction n arbitrary: j c)
  case 0
  then show ?case by (simp add: same_console_refl)
next
  case (Suc n)
  show ?case
  proof (cases "m (ptr + of_nat j) = 0")
    case True
    then show ?thesis using Suc
      by (auto simp: Let_def split: if_splits bind_splits dest!: putc_prints.prints intro: same_console_trans same_console_refl)
  next
    case False
    then obtain d where "write_char (m (ptr + of_nat j)) c = Some d" "write_loop m ptr n (Suc j) d = Some (k, c')"
      using Suc.prems unfolding write_loop_step [of m ptr j, OF False] by (auto split: bind_splits)
    then show ?thesis using Suc.IH write_char_same same_console_trans by blast
  qed
qed

lemma cursor_wrapper_same: "same_console c (cursor_wrapper v c)"
  by (simp add: same_console_def cursor_wrapper_def update_cursor_def Let_def)

lemma terminal_write_same: "terminal_write m fd buf nbytes c = Some (r, m', c') \<Longrightarrow> same_console c c'"
  unfolding terminal_write_def Let_def
  by (auto split: if_splits bind_splits simp: same_console_refl
      intro: same_console_trans [OF write_loop_same cursor_wrapper_same])

subsection \<open>Printing a text\<close>

text \<open>A text can be printed as long as the cursor stays on the terminal's page.\<close>

fun fits :: "tview \<Rightarrow> u8 list \<Rightarrow> bool" where
  "fits v [] = True"
| "fits v (c # cs) = (on_page v \<and> fits (vput c v) cs)"

lemma fits_append: "fits v (xs @ ys) \<longleftrightarrow> fits v xs \<and> fits (fold vput xs v) ys"
  by (induction xs arbitrary: v) auto

text \<open>\<open>printed xs c c'\<close>: the text \<open>xs\<close> has been printed on the active terminal.\<close>

definition printed :: "u8 list \<Rightarrow> console \<Rightarrow> console \<Rightarrow> bool" where
  "printed xs c c' \<longleftrightarrow> same_console c c' \<and> redrawn (active_terminal c) (fold vput xs (view c (active_terminal c))) c c'"

lemma printed_Nil: "mapped c \<Longrightarrow> printed [] c c"
  by (simp add: printed_def same_console_refl redrawn_def)

lemma printed_mapped: "printed xs c c' \<Longrightarrow> mapped c'"
  by (simp add: printed_def redrawn_def)

lemma printed_view: "printed xs c c' \<Longrightarrow> view c' (active_terminal c') = fold vput xs (view c (active_terminal c))"
  by (simp add: printed_def redrawn_def)

lemma printed_append: "printed xs c c1 \<Longrightarrow> printed ys c1 c2 \<Longrightarrow> printed (xs @ ys) c c2"
  by (auto simp: printed_def same_console_def redrawn_def)

lemma putc_printed:
  assumes "mapped c" "on_page (view c (active_terminal c))"
  shows "\<exists>c'. putc x c = Some c' \<and> printed [x] c c'"
  using putc_view [OF assms, of x] putc_prints.prints [of x c] by (auto simp: printed_def)

lemma cstr_Cons: "cstr m s (x # xs) \<Longrightarrow> m s = x \<and> x \<noteq> 0 \<and> cstr m (s + 1) xs"
  by (auto simp: cstr_def load_bytes_Suc add.assoc)

lemma puts_from_step: "m (str + i) = x \<Longrightarrow> x \<noteq> 0 \<Longrightarrow> puts_from m str i c = putc x c \<bind> puts_from m str (i + 1)"
  by (subst puts_from.simps) simp

lemma puts_from_end: "m (str + i) = 0 \<Longrightarrow> puts_from m str i c = Some (i, c)"
  by (subst puts_from.simps) simp

text \<open>Whoever prints relies on one law: a text that is ready to be printed can be printed character by
  character.  \<open>shown\<close> says what that does to the console.\<close>

locale printer =
  fixes ready :: "u8 list \<Rightarrow> console \<Rightarrow> bool" and shown :: "u8 list \<Rightarrow> console \<Rightarrow> console \<Rightarrow> bool"
  assumes put_char: "ready (x # xs) c \<Longrightarrow> \<exists>c'. putc x c = Some c' \<and> shown [x] c c' \<and> ready xs c'"
    and shown_Nil: "ready xs c \<Longrightarrow> shown [] c c"
    and shown_append: "shown xs c c1 \<Longrightarrow> shown ys c1 c2 \<Longrightarrow> shown (xs @ ys) c c2"
begin

lemma puts_from_shows:
  assumes "cstr m (str + i) xs" "ready (xs @ ys) c"
  shows "\<exists>c'. puts_from m str i c = Some (i + of_nat (length xs), c') \<and> shown xs c c' \<and> ready ys c'"
  using assms
proof (induction xs arbitrary: i c)
  case Nil
  then show ?case using cstr_end [OF Nil(1)] shown_Nil by (simp add: puts_from_end)
next
  case (Cons x xs)
  note x = cstr_Cons [OF Cons.prems(1)]
  obtain c1 where c1: "putc x c = Some c1" "shown [x] c c1" "ready (xs @ ys) c1" using put_char Cons.prems(2) by fastforce
  then obtain c2 where "puts_from m str (i + 1) c1 = Some (i + 1 + of_nat (length xs), c2)" "shown xs c1 c2" "ready ys c2"
    using Cons.IH [of "i + 1" c1] x by (auto simp: add.assoc)
  then show ?case
    using puts_from_step [of m str i x c] x c1(1) shown_append [OF c1(2)] by (auto simp: add.assoc)
qed

lemma puts_shows:
  assumes "cstr m str xs" "ready (xs @ ys) c"
  shows "\<exists>c'. puts m str c = Some (of_nat (length xs), c') \<and> shown xs c c' \<and> ready ys c'"
  using puts_from_shows [of m str 0 xs ys c] assms by (simp add: puts_def)

end

interpretation terminal_printer: printer "\<lambda>xs c. mapped c \<and> fits (view c (active_terminal c)) xs" printed
proof
  fix x xs c
  assume "mapped c \<and> fits (view c (active_terminal c)) (x # xs)"
  then show "\<exists>c'. putc x c = Some c' \<and> printed [x] c c' \<and> mapped c' \<and> fits (view c' (active_terminal c')) xs"
    using putc_printed [of c x] printed_mapped [of "[x]" c] printed_view [of "[x]" c] by fastforce
qed (auto intro: printed_Nil printed_append)

text \<open>Before paging is switched on nothing can fault.\<close>

definition paging_off :: "console \<Rightarrow> bool" where
  "paging_off c \<longleftrightarrow> \<not> bit (cr0 (pages c)) 31"

lemma paging_off_same: "same_console c c' \<Longrightarrow> paging_off c' = paging_off c"
  by (simp add: paging_off_def same_console_def)

lemma putc_off: "paging_off c \<Longrightarrow> \<exists>c'. putc x c = Some c'"
  by (simp add: putc_def put_at_def Let_def vstore_def resolve_def paging_off_def)

interpretation physical_printer: printer "\<lambda>xs. paging_off" "\<lambda>xs. same_console"
proof
  fix x and xs :: "u8 list" and c
  assume "paging_off c"
  then show "\<exists>c'. putc x c = Some c' \<and> same_console c c' \<and> paging_off c'"
    using putc_off [of c x] putc_prints.prints [of x c] paging_off_same by blast
qed (auto intro: same_console_refl same_console_trans)

lemma puts_printed:
  assumes "cstr m str xs" "mapped c" "fits (view c (active_terminal c)) xs"
  shows "\<exists>c'. puts m str c = Some (of_nat (length xs), c') \<and> printed xs c c'"
  using terminal_printer.puts_shows [of m str xs c "[]"] assms by auto

text \<open>On a cursor within the screen a text without line ends fits, and so does a newline behind it.\<close>

lemma fits_row: "in_range v \<Longrightarrow> set xs \<inter> {10, 13} = {} \<Longrightarrow> fits v xs \<and> in_range (fold vput xs v)"
proof (induction xs arbitrary: v)
  case (Cons x xs)
  then have "in_range (vput x v)" using vput_in_range [of "fst v" "fst (snd v)" "snd (snd v)" x] by simp
  then show ?case using Cons in_range_on_page by simp
qed simp

text \<open>A line of text printed with \<open>puts\<close>: every character lands at the cursor, and the newline takes the
  cursor to the start of the next row (the row after the last one included).\<close>

lemma puts_line:
  assumes "cstr m str (xs @ [10])" "set xs \<inter> {10, 13} = {}" "mapped c" "in_range (view c (active_terminal c))"
  shows "\<exists>c'. puts m str c = Some (of_nat (Suc (length xs)), c') \<and> printed (xs @ [10]) c c'"
  using puts_printed [OF assms(1,3)] fits_row [OF assms(4,2)] in_range_on_page by (simp add: fits_append)

end
