(* ===== verification/Execute.thy ===== *)
theory Execute
  imports System_Calls Console_Frame
begin

text \<open>
  Starting and ending programs: \<open>c_execute\<close> and \<open>c_halt\<close> of \<^verbatim>\<open>src/student-distrib/system_calls.c\<close>.
  \<open>c_execute\<close> is modelled in two parts: \<open>find_program\<close> takes the command line apart and finds the
  executable, \<open>start_program\<close> takes a process number and sets the process up.  Neither call returns in
  the ordinary way: the outcome says whether control goes back to the caller, into
  the new program (entry point and user stack), or to the place where the parent called
  \<open>c_execute\<close> (the saved stack registers, and the status left in a register).

  The two routines call each other, a root shell that ends being started again and a program
  too many being ended at once; \<open>c_halt\<close> has fuel for the depth of that nesting.
\<close>

subsection \<open>The command line\<close>

datatype control = Returned int | Enter_user u32 u32 | Resume u32 u32 u32

definition clear_name :: "u32 \<Rightarrow> mem \<Rightarrow> mem" where
  "clear_name name m = fold (\<lambda>i m. m(name + of_nat i := 0)) [0..<101] m"

text \<open>The first loop, with \<open>r\<close> characters left of the hundred: where it stops, whether it saw a
  blank, and the name copied so far.\<close>

primrec parse_name :: "nat \<Rightarrow> nat \<Rightarrow> bool \<Rightarrow> u32 \<Rightarrow> u32 \<Rightarrow> mem \<Rightarrow> nat \<times> bool \<times> mem" where
  "parse_name 0 i arg_flag command name m = (i, arg_flag, m)"
| "parse_name (Suc r) i arg_flag command name m =
    (if m (command + of_nat i) \<noteq> 32 \<and> m (command + of_nat i) \<noteq> 0 then
       let m = m(name + of_nat i := m (command + of_nat i));
           i = Suc i
       in parse_name r i (arg_flag \<or> m (command + of_nat i) = 32) command name m
     else (i, arg_flag, m))"

primrec parse_args :: "nat \<Rightarrow> nat \<Rightarrow> nat \<Rightarrow> u32 \<Rightarrow> mem \<Rightarrow> u8 list \<Rightarrow> int \<Rightarrow> nat \<times> u8 list \<times> int" where
  "parse_args 0 i j command m args sz = (j, args, sz)"
| "parse_args (Suc r) i j command m args sz =
    (if m (command + of_nat i) \<noteq> 0
     then parse_args r (Suc i) (Suc j) command m (args[j := m (command + of_nat i)]) (sz + 1)
     else (j, args, sz))"

text \<open>Taking the command line apart: the name goes into the local array, the arguments into the
  kernel's array.\<close>

definition parse_command :: "env \<Rightarrow> u32 \<Rightarrow> kernel \<Rightarrow> kernel" where
  "parse_command env command s =
    (let m = clear_name (local_name env) (view_mem s);
         (i, arg_flag, m) = parse_name 100 0 False command (local_name env) m;
         s = put_mem m s
     in if arg_flag then
          let (j, args, sz) = parse_args (100 - Suc i) (Suc i) 0 command m (get_args s) (arg_size s)
          in s\<lparr>get_args := args[j := 0], arg_size := sz\<rparr>
        else s)"

text \<open>Looking the name up and checking the magic number: the inode of the program, or no inode where
  the code returns -1.\<close>

definition check_program :: "env \<Rightarrow> kernel \<Rightarrow> (u32 option \<times> kernel) option" where
  "check_program env s =
    (let m = store_bytes (view_mem s) (local_magic env) [0x7F, 0x45, 0x4C, 0x46]
     in do {
       (test, m, st) \<leftarrow> read_dentry_by_name (local_name env) (local_dentry env) m (fs s);
       let s = put_mem m (s\<lparr>fs := st\<rparr>);
       if test = -1 then Some (None, s)
       else
         let inode_num = load32 m (local_dentry env + 36);
             (_, m) = read_data inode_num 0 (local_check env) 4 m st;
             s = put_mem m s
         in if strncmp m (local_check env) (local_magic env) 4 \<noteq> 0 then Some (None, s)
            else Some (Some inode_num, s)
     })"

definition find_program :: "env \<Rightarrow> u32 \<Rightarrow> kernel \<Rightarrow> (u32 option \<times> kernel) option" where
  "find_program env command s =
    (let s = (if inti_flag s = 0 then init_terms s else s) in
     if command = 0 then Some (None, s) else check_program env (parse_command env command s))"

subsection \<open>Starting and ending\<close>

abbreviation (input) PROG_IMG :: u32 where "PROG_IMG \<equiv> 0x8048000"

definition take_number :: "kernel \<Rightarrow> nat \<times> kernel" where
  "take_number s =
    (let count = length (takeWhile (\<lambda>x. x \<noteq> 0) (take 6 (PID_arr s)));
         s = (if count < 6 then s\<lparr>PID_arr := (PID_arr s)[count := 1], process_counter := int count + 1\<rparr> else s)
     in (count, if count > 5 then s\<lparr>process_counter := 7\<rparr> else s))"

definition load_program :: "u32 \<Rightarrow> kernel \<Rightarrow> u32 \<times> kernel" where
  "load_program inode_num s =
    (let s = remap (of_int (MB_4 + process_counter s * MB_4)) s;
         (_, m) = read_data inode_num 24 PROG_IMG 4 (view_mem s) (fs s);
         eip_val = load32 m PROG_IMG;
         (_, m) = read_data inode_num 0 PROG_IMG 0x400000 m (fs s)
     in (eip_val, put_mem m s))"

definition upd_pcb :: "u32 \<Rightarrow> (PCB \<Rightarrow> PCB) \<Rightarrow> kernel \<Rightarrow> kernel" where
  "upd_pcb p f s = s\<lparr>pcbs := (pcbs s)(p := f (pcbs s p))\<rparr>"

definition enter_terminal :: "kernel \<Rightarrow> kernel" where
  "enter_terminal s =
    (let t = active_term s;
         T = term_arr s t;
         k = process_counter s;
         s = (if term_flag T = 0
              then upd_pcb (PCB_ptr s) (\<lambda>p. p\<lparr>Parent_PID := 0\<rparr>) (s\<lparr>term_arr := (term_arr s)(t := T\<lparr>term_flag := 1\<rparr>)\<rparr>)
              else upd_pcb (PCB_ptr s) (\<lambda>p. p\<lparr>Parent_PID := of_int (last_active_pro T)\<rparr>) s);
         s = s\<lparr>term_arr := (term_arr s)(t := (term_arr s t)\<lparr>last_active_pro := k\<rparr>)\<rparr>;
         s = upd_pcb (PCB_ptr s) (\<lambda>p. p\<lparr>PID := of_int k, term_num := of_int t, ESP0 := of_int (MB_8 - k * KB_8 - 4)\<rparr>) s
     in s\<lparr>tss_esp0 := of_int (MB_8 - KB_8 * k - 4)\<rparr>)"

definition start_program :: "(kernel \<Rightarrow> (control \<times> kernel) option) \<Rightarrow> env \<Rightarrow> u32 \<Rightarrow> kernel \<Rightarrow> (control \<times> kernel) option" where
  "start_program halt env inode_num s =
    (let (count, s) = take_number s;
         (eip_val, s) = load_program inode_num s;
         s = s\<lparr>PCB_ptr := pcb_addr (process_counter s)\<rparr>;
         s = upd_pcb (PCB_ptr s) (\<lambda>p. p\<lparr>parent_ebp := reg_ebp env, parent_esp := reg_esp env\<rparr>) s;
         s = upd_pcb (PCB_ptr s) (c_pcb (process_counter s)) s
     in if count > 5 then do {
          n \<leftarrow> strlen (view_mem s) (error_msg env);
          (_, m, c) \<leftarrow> terminal_write (view_mem s) 0 (error_msg env) (sint n) (con (keyb s));
          let s = set_console c (put_mem m s);
          halt (s\<lparr>flagger := 1\<rparr>)
        }
        else Some (Enter_user eip_val 0x83FFFFC, enter_terminal s))"

definition execute_with :: "(kernel \<Rightarrow> (control \<times> kernel) option) \<Rightarrow> env \<Rightarrow> u32 \<Rightarrow> kernel \<Rightarrow> (control \<times> kernel) option" where
  "execute_with halt env command s = do {
     (found, s) \<leftarrow> find_program env command s;
     case found of None \<Rightarrow> Some (Returned (-1), s) | Some inode_num \<Rightarrow> start_program halt env inode_num s
   }"

text \<open>Closing the descriptors of a process that ends.\<close>

primrec close_all :: "u32 \<Rightarrow> nat list \<Rightarrow> kernel \<Rightarrow> kernel option" where
  "close_all p [] s = Some s"
| "close_all p (i # is) s =
    (if flags (get_fd p i s) = 1 then do {
       ops \<leftarrow> operations (get_fd p i s);
       (_, s) \<leftarrow> dev_close ops (int i) s;
       close_all p is s
     } else close_all p is s)"

definition leave_process :: "kernel \<Rightarrow> int \<times> u32 \<times> kernel" where
  "leave_process s =
    (let t = active_term s in
     if flagger s = 1 then (last_active_pro (term_arr s t), pcb_addr 7, s\<lparr>flagger := 0\<rparr>)
     else
       let current_PCB = pcb_addr (last_active_pro (term_arr s t));
           parent_num = sint (Parent_PID (pcbs s current_PCB))
       in (parent_num, current_PCB,
           s\<lparr>term_arr := (term_arr s)(t := (term_arr s t)\<lparr>last_active_pro := parent_num\<rparr>),
             PID_arr := (PID_arr s)[unat (PID (pcbs s current_PCB) - 1) := 0]\<rparr>))"

definition halt_with :: "(u32 \<Rightarrow> kernel \<Rightarrow> (control \<times> kernel) option) \<Rightarrow> env \<Rightarrow> u8 \<Rightarrow> kernel \<Rightarrow> (control \<times> kernel) option" where
  "halt_with execute env status s =
    (let (parent_num, current_PCB, s) = leave_process s;
         finish = (\<lambda>s. do {
           let s = s\<lparr>tss_esp0 := of_int (MB_8 - parent_num * KB_8 - 4)\<rparr>;
           let s = remap (of_int (MB_4 + MB_4 * parent_num)) s;
           s \<leftarrow> close_all current_PCB [2..<8] s;
           Some (Resume (parent_esp (pcbs s current_PCB)) (parent_ebp (pcbs s current_PCB)) (ucast status), s)
         })
     in if parent_num = 0 then do {
          (c, s) \<leftarrow> execute (shell_name env) s;
          case c of Returned _ \<Rightarrow> finish s | _ \<Rightarrow> Some (c, s)
        }
        else finish s)"

primrec c_halt :: "nat \<Rightarrow> env \<Rightarrow> u8 \<Rightarrow> kernel \<Rightarrow> (control \<times> kernel) option" where
  "c_halt 0 env status s = None"
| "c_halt (Suc n) env status s = halt_with (execute_with (c_halt n env 0) env) env status s"

definition c_execute :: "nat \<Rightarrow> env \<Rightarrow> u32 \<Rightarrow> kernel \<Rightarrow> (control \<times> kernel) option" where
  "c_execute n env command s = execute_with (c_halt n env 0) env command s"

end
