(* ===== verification/Pit.thy ===== *)
theory Pit
  imports Process
begin

text \<open>
  The timer, \<^verbatim>\<open>src/student-distrib/pit.c\<close>: its initialisation and its interrupt handler, which saves the
  stack registers of the running process and resumes the process of the next terminal
  that has one.  The registers at the time of the interrupt are arguments of the handler.  The search
  for the next terminal is a loop that ends only if some terminal is in use; a search
  that does not end is \<open>None\<close>.
\<close>

subsection \<open>The driver\<close>

record cont_t =
  ESP :: u32
  EBP :: u32

text \<open>The context array and the accesses to the ports so far.\<close>

record pit_state =
  processes :: "int \<Rightarrow> cont_t"
  pit_ports :: trace

text \<open>\<open>(temp_term+1) % POSSIBLE_TERMS\<close>, with the sign of the C operator.\<close>

definition next_term :: "int \<Rightarrow> int" where
  "next_term t = sgn (t + 1) * (\<bar>t + 1\<bar> mod 3)"

partial_function (option) find_term :: "(int \<Rightarrow> term_t) \<Rightarrow> int \<Rightarrow> int option" where
  "find_term T t = (if term_flag (T t) = 1 then Some t else find_term T (next_term t))"

text \<open>The handler: nothing to resume where it returns at once, or else the registers to resume with.\<close>

definition PIT_handler :: "cont_t \<Rightarrow> pit_state \<Rightarrow> kernel \<Rightarrow> (cont_t option \<times> pit_state \<times> kernel) option" where
  "PIT_handler regs p s =
    (let p = p\<lparr>pit_ports := send_eoi 0 (pit_ports p)\<rparr>;
         curr_process = get_process_num s
     in if curr_process \<le> 0 then Some (None, p, s)
        else
          let p = p\<lparr>processes := (processes p)(curr_process - 1 := regs)\<rparr>;
              temp_term = sint (term_num (pcbs s (pcb_addr curr_process)))
          in do {
            temp_term \<leftarrow> find_term (get_term_arr s) (next_term temp_term);
            let s = set_console (change_active_term temp_term (con (keyb s))) s;
            let curr_process = last_active_pro (get_term_arr s temp_term);
            let s = s\<lparr>tss_esp0 := of_int (MB_8 - KB_8 * curr_process - 4)\<rparr>;
            let s = remap (of_int (MB_4 + curr_process * MB_4)) s;
            Some (Some (processes p (curr_process - 1)), p, s)
          })"

text \<open>The arguments of \<open>outb\<close> are the data and then the port, here as in the source.\<close>

definition PIT_init :: "device \<Rightarrow> u32 \<Rightarrow> trace \<Rightarrow> trace option" where
  "PIT_init dev hz tr =
    (let tr = enable_irq dev 0 tr in
     if hz = 0 then None
     else
       let divisor = 119318 div hz;
           a = (ucast (divisor AND 0xFF) :: u8);
           b = (ucast (drop_bit 8 divisor AND 0xFF) :: u8);
           tr = outb 0x43 0x36 tr;
           tr = outb 0x40 (ucast a) tr
       in Some (outb 0x40 (ucast b) tr))"

subsection \<open>The search\<close>

lemma next_term_simps [simp]: "next_term 0 = 1" "next_term 1 = 2" "next_term 2 = 0"
  by (simp_all add: next_term_def)

lemma next_term_range: "t \<in> {0, 1, 2} \<Longrightarrow> next_term t \<in> {0, 1, 2}"
  by auto

text \<open>The first terminal after \<open>t\<close> in cyclic order that is in use, \<open>t\<close> itself last.\<close>

definition next_used :: "(int \<Rightarrow> bool) \<Rightarrow> int \<Rightarrow> int" where
  "next_used used t =
    (if used (next_term t) then next_term t else if used (next_term (next_term t)) then next_term (next_term t) else t)"

lemma find_term_next:
  assumes "t \<in> {0, 1, 2}" "term_flag (T t) = 1"
  shows "find_term T (next_term t) = Some (next_used (\<lambda>u. term_flag (T u) = 1) t)"
proof -
  have "next_term (next_term (next_term t)) = t" using assms(1) by auto
  then show ?thesis
    using assms(2) by (simp add: next_used_def find_term.simps [of T "next_term t"]
        find_term.simps [of T "next_term (next_term t)"] find_term.simps [of T t])
qed

lemma next_used_in: "t \<in> {0, 1, 2} \<Longrightarrow> next_used used t \<in> {0, 1, 2}"
  by (auto simp: next_used_def)

lemma next_used_used: "used t \<Longrightarrow> used (next_used used t)"
  by (simp add: next_used_def)

end
