(* ===== verification/Process_Table.thy ===== *)
theory Process_Table
  imports Execute Pit
begin

text \<open>
  What starting and ending programs do to the kernel's processes.  The specification is a
  stack of process numbers per terminal: a program that is started is pushed with the
  lowest free number, one that ends is popped, and a root shell that ends is replaced.
  \<open>represents\<close> says how the arrays, parent links and flags of the kernel hold such stacks, and the
  lemmas show that \<open>c_execute\<close> and \<open>c_halt\<close> move from one representation to the next.
\<close>

subsection \<open>The specification\<close>

type_synonym stacks = "int \<Rightarrow> nat list"

definition procs_of :: "stacks \<Rightarrow> nat list" where
  "procs_of st = st 0 @ st 1 @ st 2"

definition lowest_free :: "stacks \<Rightarrow> nat \<Rightarrow> bool" where
  "lowest_free st k \<longleftrightarrow> 1 \<le> k \<and> k \<le> 6 \<and> k \<notin> set (procs_of st) \<and> (\<forall>j. 1 \<le> j \<and> j < k \<longrightarrow> j \<in> set (procs_of st))"

definition full :: "stacks \<Rightarrow> bool" where
  "full st \<longleftrightarrow> (\<forall>k. 1 \<le> k \<and> k \<le> 6 \<longrightarrow> k \<in> set (procs_of st))"

inductive proc_step :: "stacks \<Rightarrow> stacks \<Rightarrow> bool" where
  push: "t \<in> {0, 1, 2} \<Longrightarrow> lowest_free st k \<Longrightarrow> proc_step st (st(t := k # st t))"
| pop: "t \<in> {0, 1, 2} \<Longrightarrow> st t = k # j # ks \<Longrightarrow> proc_step st (st(t := j # ks))"
| respawn: "t \<in> {0, 1, 2} \<Longrightarrow> st t = [k] \<Longrightarrow> lowest_free (st(t := [])) k' \<Longrightarrow> proc_step st (st(t := [k']))"

subsection \<open>How the kernel holds the stacks\<close>

fun linked :: "(nat \<Rightarrow> u32) \<Rightarrow> nat list \<Rightarrow> bool" where
  "linked par [] = True"
| "linked par [k] = (par k = 0)"
| "linked par (k # j # ks) = (par k = of_nat j \<and> linked par (j # ks))"

definition parent_of :: "kernel \<Rightarrow> nat \<Rightarrow> u32" where
  "parent_of s k = Parent_PID (pcbs s (pcb_addr (int k)))"

definition top_of :: "nat list \<Rightarrow> int" where
  "top_of ks = (case ks of [] \<Rightarrow> 0 | k # _ \<Rightarrow> int k)"

definition on_terminals :: "kernel \<Rightarrow> stacks \<Rightarrow> bool" where
  "on_terminals s st \<longleftrightarrow> (\<forall>t \<in> {0, 1, 2}. \<forall>k \<in> set (st t). term_num (pcbs s (pcb_addr (int k))) = of_int t)"

definition holds :: "kernel \<Rightarrow> stacks \<Rightarrow> bool" where
  "holds s st \<longleftrightarrow> distinct (procs_of st) \<and> set (procs_of st) \<subseteq> {1..6} \<and>
    PID_arr s = map (\<lambda>i. if Suc i \<in> set (procs_of st) then 1 else 0) [0..<6] \<and>
    (\<forall>t \<in> {0, 1, 2}. linked (parent_of s) (st t) \<and> last_active_pro (term_arr s t) = top_of (st t)) \<and>
    (\<forall>k \<in> set (procs_of st). PID (pcbs s (pcb_addr (int k))) = of_nat k) \<and>
    on_terminals s st \<and> active_term s \<in> {0, 1, 2} \<and> inti_flag s \<noteq> 0"

definition flags_match :: "kernel \<Rightarrow> stacks \<Rightarrow> bool" where
  "flags_match s st \<longleftrightarrow> (\<forall>t \<in> {0, 1, 2}. term_flag (term_arr s t) = (if st t = [] then 0 else 1))"

definition represents :: "kernel \<Rightarrow> stacks \<Rightarrow> bool" where
  "represents s st \<longleftrightarrow> holds s st \<and> flags_match s st \<and> flagger s = 0"

lemma holds_top: "holds s st \<Longrightarrow> t \<in> {0, 1, 2} \<Longrightarrow> last_active_pro (term_arr s t) = top_of (st t)"
  unfolding holds_def by blast

lemma holds_linked: "holds s st \<Longrightarrow> t \<in> {0, 1, 2} \<Longrightarrow> linked (parent_of s) (st t)"
  unfolding holds_def by blast

lemma pcb_addr_inj: "j \<le> 7 \<Longrightarrow> k \<le> 7 \<Longrightarrow> pcb_addr (int j) = pcb_addr (int k) \<longleftrightarrow> j = k"
proof -
  assume "j \<le> 7" "k \<le> 7"
  then have "j \<in> {0, 1, 2, 3, 4, 5, 6, 7}" "k \<in> {0, 1, 2, 3, 4, 5, 6, 7}" by auto
  then show ?thesis by (elim insertE emptyE) (simp_all add: pcb_addr_def)
qed

lemma linked_cong: "(\<And>k. k \<in> set ks \<Longrightarrow> par' k = par k) \<Longrightarrow> linked par' ks = linked par ks"
  by (induction par ks rule: linked.induct) auto

lemma linked_Cons: "linked par (k # ks) \<longleftrightarrow> par k = of_int (top_of ks) \<and> linked par ks"
  by (cases ks) (auto simp: top_of_def)

lemma procs_in: "t \<in> {0, 1, 2} \<Longrightarrow> set (st t) \<subseteq> set (procs_of st)"
  by (auto simp: procs_of_def)

lemma procs_push:
  assumes "t \<in> {0, 1, 2}"
  shows "set (procs_of (st(t := k # st t))) = insert k (set (procs_of st))"
    "distinct (procs_of (st(t := k # st t))) \<longleftrightarrow> k \<notin> set (procs_of st) \<and> distinct (procs_of st)"
  using assms by (auto simp: procs_of_def)

lemma procs_pop:
  assumes "t \<in> {0, 1, 2}" "st t = k # ks" "distinct (procs_of st)"
  shows "set (procs_of (st(t := ks))) = set (procs_of st) - {k}" "distinct (procs_of (st(t := ks)))"
  using assms by (auto simp: procs_of_def)

lemma holds_cong:
  assumes "holds s st" "PID_arr s' = PID_arr s" "\<forall>t \<in> {0, 1, 2}. last_active_pro (term_arr s' t) = last_active_pro (term_arr s t)"
    "\<forall>k \<in> set (procs_of st). pcbs s' (pcb_addr (int k)) = pcbs s (pcb_addr (int k))"
    "active_term s' = active_term s" "inti_flag s' = inti_flag s"
  shows "holds s' st"
proof -
  have "linked (parent_of s') (st t) = linked (parent_of s) (st t)" if "t \<in> {0, 1, 2}" for t
    using assms(4) procs_in [OF that, of st] by (intro linked_cong) (auto simp: parent_of_def)
  moreover have "on_terminals s' st"
    unfolding on_terminals_def
  proof (intro ballI)
    fix t k assume "t \<in> {0, 1, 2 :: int}" "k \<in> set (st t)"
    then show "term_num (pcbs s' (pcb_addr (int k))) = of_int t"
      using assms(1,4) procs_in [of t st] unfolding holds_def on_terminals_def by (metis subsetD)
  qed
  ultimately show ?thesis using assms unfolding holds_def by simp
qed

subsection \<open>Taking a number\<close>

lemma takeWhile_count:
  assumes "c = length (takeWhile P (map f [0..<n]))"
  shows "c \<le> n" "\<forall>j < c. P (f j)" "c < n \<Longrightarrow> \<not> P (f c)"
proof -
  have le: "length (takeWhile P (map f [0..<n])) \<le> length (map f [0..<n])" by (rule length_takeWhile_le)
  then show "c \<le> n" using assms by simp
  show "\<forall>j < c. P (f j)"
  proof (intro allI impI)
    fix j assume "j < c"
    then have "takeWhile P (map f [0..<n]) ! j \<in> set (takeWhile P (map f [0..<n]))" using assms by simp
    then have "P (takeWhile P (map f [0..<n]) ! j)" using set_takeWhileD by metis
    moreover have "takeWhile P (map f [0..<n]) ! j = map f [0..<n] ! j" using \<open>j < c\<close> assms by (simp add: takeWhile_nth)
    ultimately show "P (f j)" using \<open>j < c\<close> \<open>c \<le> n\<close> by simp
  qed
  show "\<not> P (f c)" if "c < n"
    using nth_length_takeWhile [of P "map f [0..<n]"] that assms by simp
qed

lemma take_number_eq:
  assumes "holds s st"
  shows "(full st \<and> take_number s = (6, s\<lparr>process_counter := 7\<rparr>)) \<or>
    (\<exists>k. lowest_free st k \<and> take_number s = (k - 1, s\<lparr>PID_arr := (PID_arr s)[k - 1 := 1], process_counter := int k\<rparr>))"
proof -
  let ?f = "\<lambda>i. if Suc i \<in> set (procs_of st) then 1 else 0 :: int"
  define c where "c = length (takeWhile (\<lambda>x. x \<noteq> 0) (map ?f [0..<6]))"
  have arr: "PID_arr s = map ?f [0..<6]" using assms by (simp add: holds_def)
  have "take 6 (map ?f [0..<6]) = map ?f [0..<6]" by simp
  then have run: "take_number s =
      (c, if c > 5 then (if c < 6 then s\<lparr>PID_arr := (PID_arr s)[c := 1], process_counter := int c + 1\<rparr> else s)\<lparr>process_counter := 7\<rparr>
          else if c < 6 then s\<lparr>PID_arr := (PID_arr s)[c := 1], process_counter := int c + 1\<rparr> else s)"
    unfolding take_number_def c_def arr Let_def by (simp only:)
  note count = takeWhile_count [OF c_def]
  have below: "Suc j \<in> set (procs_of st)" if "j < c" for j using count(2) that by (auto split: if_splits)
  show ?thesis
  proof (cases "c < 6")
    case True
    have "lowest_free st (Suc c)"
    proof -
      have "Suc c \<notin> set (procs_of st)" using count(3) [OF True] by (auto split: if_splits)
      moreover have "j \<in> set (procs_of st)" if "1 \<le> j" "j < Suc c" for j
        using below [of "j - 1"] that by simp
      ultimately show ?thesis using True by (simp add: lowest_free_def)
    qed
    then show ?thesis using run True by (intro disjI2 exI [of _ "Suc c"]) simp
  next
    case False
    then have "c = 6" using count(1) by simp
    moreover have "full st" unfolding full_def
    proof (intro allI impI)
      fix k :: nat assume "1 \<le> k \<and> k \<le> 6"
      then show "k \<in> set (procs_of st)" using \<open>c = 6\<close> by (cases k) (auto intro: below)
    qed
    ultimately show ?thesis using run by simp
  qed
qed

subsection \<open>The parts of the kernel an operation touches\<close>

lemma upd_pcb_simps [simp]:
  "PID_arr (upd_pcb p f s) = PID_arr s" "term_arr (upd_pcb p f s) = term_arr s" "PCB_ptr (upd_pcb p f s) = PCB_ptr s"
  "process_counter (upd_pcb p f s) = process_counter s" "keyb (upd_pcb p f s) = keyb s" "inti_flag (upd_pcb p f s) = inti_flag s"
  "flagger (upd_pcb p f s) = flagger s" "frames (upd_pcb p f s) = frames s" "kernel_mem (upd_pcb p f s) = kernel_mem s"
  "fs (upd_pcb p f s) = fs s" "tss_esp0 (upd_pcb p f s) = tss_esp0 s" "pcbs (upd_pcb p f s) = (pcbs s)(p := f (pcbs s p))"
  "active_term (upd_pcb p f s) = active_term s" "window_page (upd_pcb p f s) = window_page s"
  by (simp_all add: upd_pcb_def active_term_def window_page_def)

lemma remap_simps [simp]:
  "PID_arr (remap b s) = PID_arr s" "term_arr (remap b s) = term_arr s" "PCB_ptr (remap b s) = PCB_ptr s"
  "process_counter (remap b s) = process_counter s" "inti_flag (remap b s) = inti_flag s"
  "flagger (remap b s) = flagger s" "frames (remap b s) = frames s" "kernel_mem (remap b s) = kernel_mem s"
  "fs (remap b s) = fs s" "tss_esp0 (remap b s) = tss_esp0 s" "pcbs (remap b s) = pcbs s" "active_term (remap b s) = active_term s"
  by (simp_all add: remap_def active_term_def get_active_term_def)

lemma window_page_remap: "take_bit 22 b = 0 \<Longrightarrow> window_page (remap b s) = b"
proof -
  assume "take_bit 22 b = 0"
  moreover have "drop_bit 22 (b OR 0x87) = drop_bit 22 b" by simp
  ultimately show ?thesis by (simp add: window_page_def remap_def remap_paging_def aligned_ident)
qed

lemma put_mem_other [simp]:
  "active_term (put_mem m s) = active_term s" "b \<noteq> window_page s \<Longrightarrow> frames (put_mem m s) b = frames s b"
  by (simp_all add: active_term_def put_mem_def)

lemma window_page_fields [simp]:
  "window_page (s\<lparr>fs := a1\<rparr>) = window_page s" "window_page (s\<lparr>PID_arr := a2\<rparr>) = window_page s"
  "window_page (s\<lparr>process_counter := a3\<rparr>) = window_page s" "window_page (s\<lparr>PCB_ptr := a4\<rparr>) = window_page s"
  "window_page (s\<lparr>term_arr := a5\<rparr>) = window_page s" "window_page (s\<lparr>tss_esp0 := a6\<rparr>) = window_page s"
  "window_page (s\<lparr>flagger := a7\<rparr>) = window_page s" "window_page (s\<lparr>rtc := a8\<rparr>) = window_page s"
  by (simp_all add: window_page_def)

lemma active_term_fields [simp]:
  "active_term (s\<lparr>fs := a1\<rparr>) = active_term s" "active_term (s\<lparr>PID_arr := a2\<rparr>) = active_term s"
  "active_term (s\<lparr>process_counter := a3\<rparr>) = active_term s" "active_term (s\<lparr>PCB_ptr := a4\<rparr>) = active_term s"
  "active_term (s\<lparr>term_arr := a5\<rparr>) = active_term s" "active_term (s\<lparr>tss_esp0 := a6\<rparr>) = active_term s"
  "active_term (s\<lparr>flagger := a7\<rparr>) = active_term s" "active_term (s\<lparr>rtc := a8\<rparr>) = active_term s"
  "active_term (s\<lparr>get_args := a9\<rparr>) = active_term s" "active_term (s\<lparr>arg_size := a10\<rparr>) = active_term s"
  by (simp_all add: active_term_def)

lemma process_page_int: "1 \<le> k \<Longrightarrow> k \<le> 7 \<Longrightarrow> of_int (MB_4 + int k * MB_4) = process_page (of_nat k) \<and> take_bit 22 (process_page (of_nat k)) = 0"
proof -
  assume "1 \<le> k" "k \<le> 7"
  then have "k \<in> {1, 2, 3, 4, 5, 6, 7}" by auto
  then show ?thesis by (elim insertE emptyE) (simp_all add: process_page_def)
qed

lemma load_program_simps:
  assumes "load_program ino s = (eip, s')"
  shows "PID_arr s' = PID_arr s" "term_arr s' = term_arr s" "PCB_ptr s' = PCB_ptr s" "process_counter s' = process_counter s"
    "inti_flag s' = inti_flag s" "flagger s' = flagger s" "pcbs s' = pcbs s" "active_term s' = active_term s" "fs s' = fs s"
    "1 \<le> k \<Longrightarrow> k \<le> 7 \<Longrightarrow> process_counter s = int k \<Longrightarrow> window_page s' = process_page (of_nat k)"
    "1 \<le> k \<Longrightarrow> k \<le> 7 \<Longrightarrow> process_counter s = int k \<Longrightarrow> b \<noteq> process_page (of_nat k) \<Longrightarrow> frames s' b = frames s b"
  using assms process_page_int [of k]
  by (auto simp: load_program_def Let_def window_page_remap split: prod.splits)

lemma enter_terminal_eq:
  assumes "t = active_term s" "T = term_arr s t" "k = process_counter s" "p = PCB_ptr s" "s' = enter_terminal s"
  shows "term_arr s' = (term_arr s)(t := T\<lparr>term_flag := (if term_flag T = 0 then 1 else term_flag T), last_active_pro := k\<rparr>)"
    "pcbs s' = (pcbs s)(p := (pcbs s p)\<lparr>Parent_PID := (if term_flag T = 0 then 0 else of_int (last_active_pro T)),
       PID := of_int k, term_num := of_int t, ESP0 := of_int (MB_8 - k * KB_8 - 4)\<rparr>)"
    "PID_arr s' = PID_arr s" "PCB_ptr s' = PCB_ptr s" "active_term s' = active_term s" "inti_flag s' = inti_flag s"
    "flagger s' = flagger s" "window_page s' = window_page s" "frames s' = frames s" "process_counter s' = process_counter s"
    "tss_esp0 s' = of_int (MB_8 - KB_8 * k - 4)"
  using assms by (auto simp: enter_terminal_def Let_def)

subsection \<open>Starting a program pushes it\<close>

lemma holds_push:
  assumes "holds s st" "lowest_free st k" "t \<in> {0, 1, 2}" "active_term s' = t"
    "PID_arr s' = (PID_arr s)[k - 1 := 1]"
    "\<forall>u \<in> {0, 1, 2}. u \<noteq> t \<longrightarrow> term_arr s' u = term_arr s u" "last_active_pro (term_arr s' t) = int k"
    "\<forall>j \<in> set (procs_of st). pcbs s' (pcb_addr (int j)) = pcbs s (pcb_addr (int j))"
    "Parent_PID (pcbs s' (pcb_addr (int k))) = of_int (top_of (st t))" "PID (pcbs s' (pcb_addr (int k))) = of_nat k"
    "inti_flag s' \<noteq> 0" "term_num (pcbs s' (pcb_addr (int k))) = of_int t"
  shows "holds s' (st(t := k # st t))"
proof -
  note h = assms(1) [unfolded holds_def]
  have k: "k \<notin> set (procs_of st)" "1 \<le> k" "k \<le> 6" using assms(2) by (simp_all add: lowest_free_def)
  have old: "linked (parent_of s') (st u)" if "u \<in> {0, 1, 2}" for u
  proof -
    have "linked (parent_of s') (st u) = linked (parent_of s) (st u)"
      using assms(8) procs_in [OF that, of st] by (intro linked_cong) (auto simp: parent_of_def)
    then show ?thesis using h that by blast
  qed
  have "linked (parent_of s') ((st(t := k # st t)) u) \<and> last_active_pro (term_arr s' u) = top_of ((st(t := k # st t)) u)"
    if "u \<in> {0, 1, 2}" for u
  proof (cases "u = t")
    case True
    then show ?thesis using old [OF assms(3)] assms(7,9) by (simp add: linked_Cons parent_of_def) (simp add: top_of_def)
  next
    case False
    then have "term_arr s' u = term_arr s u" using assms(6) that by blast
    moreover have "last_active_pro (term_arr s u) = top_of (st u)" by (rule holds_top [OF assms(1) that])
    ultimately show ?thesis using old [OF that] False by simp
  qed
  moreover have "PID_arr s' = map (\<lambda>i. if Suc i \<in> insert k (set (procs_of st)) then 1 else 0) [0..<6]"
  proof (rule nth_equalityI)
    fix i assume "i < length (PID_arr s')"
    then have "i < 6" using h assms(5) by simp
    then show "PID_arr s' ! i = map (\<lambda>i. if Suc i \<in> insert k (set (procs_of st)) then 1 else 0) [0..<6] ! i"
      using h assms(5) k by (auto simp: nth_list_update)
  qed (use h assms(5) in simp)
  moreover have "on_terminals s' (st(t := k # st t))"
    unfolding on_terminals_def
  proof (intro ballI)
    fix u j assume u: "u \<in> {0, 1, 2 :: int}" and j: "j \<in> set ((st(t := k # st t)) u)"
    show "term_num (pcbs s' (pcb_addr (int j))) = of_int u"
    proof (cases "u = t \<and> j = k")
      case False
      then have "j \<in> set (st u)" using j by (auto split: if_splits)
      then show ?thesis using h u assms(8) procs_in [OF u, of st] unfolding on_terminals_def by (metis subsetD)
    qed (use assms(12) in simp)
  qed
  ultimately show ?thesis
    using h k assms(3,4,8,10,11) procs_push [OF assms(3), of st k] unfolding holds_def by simp
qed

lemma start_program_pushes:
  assumes "holds s st" "t = active_term s" "st t \<noteq> [] \<longrightarrow> term_flag (term_arr s t) \<noteq> 0" "lowest_free st k"
  shows "\<exists>eip s'. start_program halt env ino s = Some (Enter_user eip 0x83FFFFC, s') \<and> holds s' (st(t := k # st t)) \<and>
    term_flag (term_arr s' t) = (if term_flag (term_arr s t) = 0 then 1 else term_flag (term_arr s t)) \<and>
    (\<forall>u. u \<noteq> t \<longrightarrow> term_arr s' u = term_arr s u) \<and> flagger s' = flagger s \<and> PCB_ptr s' = pcb_addr (int k) \<and>
    window_page s' = process_page (of_nat k) \<and> tss_esp0 s' = pcb_addr (int k) - 4 \<and>
    (\<forall>b. b \<noteq> process_page (of_nat k) \<longrightarrow> frames s' b = frames s b) \<and>
    (\<forall>p. p \<noteq> pcb_addr (int k) \<longrightarrow> pcbs s' p = pcbs s p) \<and>
    parent_esp (pcbs s' (pcb_addr (int k))) = reg_esp env \<and> parent_ebp (pcbs s' (pcb_addr (int k))) = reg_ebp env \<and>
    (\<forall>i < 8. fd_ok i (FDArray (pcbs s' (pcb_addr (int k))) i))"
proof -
  let ?p = "pcb_addr (int k)"
  have t: "t \<in> {0, 1, 2}" and init: "inti_flag s \<noteq> 0" using assms(1,2) by (simp_all add: holds_def)
  have k: "k \<notin> set (procs_of st)" "1 \<le> k" "k \<le> 6" using assms(4) by (simp_all add: lowest_free_def)
  have "\<not> full st" using k by (auto simp: full_def)
  moreover have uniq: "j = k" if "lowest_free st j" for j
    using that assms(4) unfolding lowest_free_def by (metis linorder_neqE_nat)
  ultimately have n: "take_number s = (k - 1, s\<lparr>PID_arr := (PID_arr s)[k - 1 := 1], process_counter := int k\<rparr>)"
    using take_number_eq [OF assms(1)] by blast
  let ?s1 = "s\<lparr>PID_arr := (PID_arr s)[k - 1 := 1], process_counter := int k\<rparr>"
  obtain eip s2 where l: "load_program ino ?s1 = (eip, s2)" by (cases "load_program ino ?s1")
  note ls = load_program_simps [OF l, simplified]
  define s3 where "s3 = upd_pcb ?p (c_pcb (int k)) (upd_pcb ?p (\<lambda>p. p\<lparr>parent_ebp := reg_ebp env, parent_esp := reg_esp env\<rparr>) (s2\<lparr>PCB_ptr := ?p\<rparr>))"
  define s4 where "s4 = enter_terminal s3"
  have run: "start_program halt env ino s = Some (Enter_user eip 0x83FFFFC, s4)"
  proof -
    have "\<not> 5 < k - 1" using k by simp
    then show ?thesis using n l by (simp add: start_program_def Let_def ls s4_def s3_def)
  qed
  note e = enter_terminal_eq [OF refl refl refl refl s4_def]
  have c: "parent_esp (c_pcb (int k) q) = parent_esp q" "parent_ebp (c_pcb (int k) q) = parent_ebp q" for q
    by (simp_all add: c_pcb_def)
  have s3: "active_term s3 = t" "term_arr s3 = term_arr s" "PCB_ptr s3 = ?p" "process_counter s3 = int k" "flagger s3 = flagger s"
    "PID_arr s3 = (PID_arr s)[k - 1 := 1]" "window_page s3 = process_page (of_nat k)" "inti_flag s3 = inti_flag s"
    "b \<noteq> process_page (of_nat k) \<Longrightarrow> frames s3 b = frames s b" "q \<noteq> ?p \<Longrightarrow> pcbs s3 q = pcbs s q" for b q
    using k assms(2) by (simp_all add: s3_def ls)
  have last: "last_active_pro (term_arr s t) = top_of (st t)" by (rule holds_top [OF assms(1) t])
  have parent: "Parent_PID (pcbs s4 ?p) = of_int (top_of (st t))"
    using assms(3) by (auto simp: e s3 last top_of_def)
  have others: "\<forall>q. q \<noteq> ?p \<longrightarrow> pcbs s4 q = pcbs s q" by (simp add: e s3)
  have "holds s4 (st(t := k # st t))"
  proof (rule holds_push [OF assms(1,4) t])
    show "\<forall>j \<in> set (procs_of st). pcbs s4 (pcb_addr (int j)) = pcbs s (pcb_addr (int j))"
    proof
      fix j assume j: "j \<in> set (procs_of st)"
      then have "j \<le> 7" "j \<noteq> k" using assms(1) k by (auto simp: holds_def)
      then show "pcbs s4 (pcb_addr (int j)) = pcbs s (pcb_addr (int j))" using others k pcb_addr_inj [of j k] by simp
    qed
    show "Parent_PID (pcbs s4 ?p) = of_int (top_of (st t))" by (rule parent)
  qed (use init in \<open>simp_all add: e s3\<close>)
  moreover have "fd_ok i (FDArray (pcbs s4 ?p) i)" if "i < 8" for i
  proof -
    have "FDArray (pcbs s4 ?p) = FDArray (c_pcb (int k) ((pcbs s ?p)\<lparr>parent_ebp := reg_ebp env, parent_esp := reg_esp env\<rparr>))"
      by (simp add: e s3) (simp add: s3_def ls)
    then show ?thesis using c_pcb_fds [of "int k" i] k that by simp
  qed
  moreover have "parent_esp (pcbs s4 ?p) = reg_esp env" "parent_ebp (pcbs s4 ?p) = reg_ebp env"
    by (simp_all add: e s3) (simp_all add: s3_def c)
  moreover have "tss_esp0 s4 = ?p - 4" by (simp add: e s3 pcb_addr_def)
  ultimately show ?thesis using run others s3 by (intro exI [of _ eip] exI [of _ s4]) (simp add: e)
qed

lemma start_active:
  assumes "represents s st" "t = active_term s" "lowest_free st k" "start_program halt env ino s = Some (Enter_user eip 0x83FFFFC, s')"
  shows "active_term s' = t"
proof -
  have "holds s st" using assms(1) by (simp add: represents_def)
  moreover have "\<not> full st" using assms(3) by (auto simp: full_def lowest_free_def)
  ultimately obtain j where j: "take_number s = (j - 1, s\<lparr>PID_arr := (PID_arr s)[j - 1 := 1], process_counter := int j\<rparr>)" "lowest_free st j"
    using take_number_eq by blast
  let ?s1 = "s\<lparr>PID_arr := (PID_arr s)[j - 1 := 1], process_counter := int j\<rparr>"
  obtain e s2 where l: "load_program ino ?s1 = (e, s2)" by (cases "load_program ino ?s1")
  have "\<not> 5 < j - 1" using j(2) by (auto simp: lowest_free_def)
  then have "\<exists>f. s' = enter_terminal (f s2) \<and> active_term (f s2) = active_term s2"
    using assms(4) j(1) l by (auto simp: start_program_def Let_def)
  then show ?thesis using enter_terminal_eq(5) [OF refl refl refl refl refl] load_program_simps(8) [OF l] assms(2) by auto
qed

lemma start_represents:
  assumes "represents s st" "t = active_term s" "lowest_free st k"
  shows "\<exists>eip s'. start_program halt env ino s = Some (Enter_user eip 0x83FFFFC, s') \<and> represents s' (st(t := k # st t)) \<and>
    PCB_ptr s' = pcb_addr (int k) \<and> window_page s' = process_page (of_nat k) \<and> tss_esp0 s' = pcb_addr (int k) - 4 \<and>
    parent_esp (pcbs s' (pcb_addr (int k))) = reg_esp env \<and> parent_ebp (pcbs s' (pcb_addr (int k))) = reg_ebp env \<and> fds_ok s' \<and>
    (\<forall>b. b \<noteq> process_page (of_nat k) \<longrightarrow> frames s' b = frames s b) \<and> (\<forall>p. p \<noteq> pcb_addr (int k) \<longrightarrow> pcbs s' p = pcbs s p)"
proof -
  have r: "holds s st" "flags_match s st" "flagger s = 0" using assms(1) by (simp_all add: represents_def)
  have t: "t \<in> {0, 1, 2}" using r(1) assms(2) by (simp add: holds_def)
  have flag: "st t \<noteq> [] \<longrightarrow> term_flag (term_arr s t) \<noteq> 0" using r(2) t unfolding flags_match_def by auto
  obtain eip s' where s': "start_program halt env ino s = Some (Enter_user eip 0x83FFFFC, s')" "holds s' (st(t := k # st t))"
    "term_flag (term_arr s' t) = (if term_flag (term_arr s t) = 0 then 1 else term_flag (term_arr s t))"
    "\<forall>u. u \<noteq> t \<longrightarrow> term_arr s' u = term_arr s u" "flagger s' = flagger s" "PCB_ptr s' = pcb_addr (int k)"
    "window_page s' = process_page (of_nat k)" "tss_esp0 s' = pcb_addr (int k) - 4"
    "\<forall>b. b \<noteq> process_page (of_nat k) \<longrightarrow> frames s' b = frames s b" "\<forall>p. p \<noteq> pcb_addr (int k) \<longrightarrow> pcbs s' p = pcbs s p"
    "parent_esp (pcbs s' (pcb_addr (int k))) = reg_esp env" "parent_ebp (pcbs s' (pcb_addr (int k))) = reg_ebp env"
    "\<forall>i < 8. fd_ok i (FDArray (pcbs s' (pcb_addr (int k))) i)"
    using start_program_pushes [OF r(1) assms(2) flag assms(3), of halt env ino] by blast
  have "flags_match s' (st(t := k # st t))" using s'(3,4) r(2) t unfolding flags_match_def by auto
  then have "represents s' (st(t := k # st t))" using s'(2,5) r(3) by (simp add: represents_def)
  moreover have "fds_ok s'" using s'(6,13) by (simp add: fds_ok_def get_fd_def)
  ultimately show ?thesis using s' by (intro exI [of _ eip] exI [of _ s']) simp
qed

subsection \<open>Looking for a program leaves the processes alone\<close>

definition same_procs :: "kernel \<Rightarrow> kernel \<Rightarrow> bool" where
  "same_procs s s' \<longleftrightarrow> PID_arr s' = PID_arr s \<and> term_arr s' = term_arr s \<and> pcbs s' = pcbs s \<and> keyb s' = keyb s \<and>
    flagger s' = flagger s \<and> PCB_ptr s' = PCB_ptr s \<and> inti_flag s' = inti_flag s \<and> tss_esp0 s' = tss_esp0 s"

lemma find_program_keeps:
  assumes "inti_flag s \<noteq> 0" "find_program env command s = Some (r, s')"
  shows "same_procs s s'"
proof (cases "command = 0")
  case True
  then show ?thesis using assms by (simp add: find_program_def same_procs_def)
next
  case False
  have "same_procs s (parse_command env command s)"
    by (auto simp: parse_command_def Let_def same_procs_def split: prod.splits)
  moreover have "same_procs x y" if "check_program env x = Some (q, y)" for x y q
    using that unfolding check_program_def Let_def by (auto simp: same_procs_def split: prod.splits bind_splits if_splits)
  ultimately show ?thesis using assms False by (fastforce simp: find_program_def same_procs_def)
qed

lemma holds_same_procs: "same_procs s s' \<Longrightarrow> holds s st \<Longrightarrow> holds s' st"
  by (rule holds_cong) (simp_all add: same_procs_def active_term_def)

subsection \<open>Ending a program pops it\<close>

lemma dev_close_eq: "dev_close ops fd s = (if ops = stdinTable \<or> ops = stdoutTable then None else Some (0, s))"
  by (cases ops) (auto simp: file_close_def direct_close_def rtc_close_def)

lemma close_all_same: "close_all p is s = Some s' \<Longrightarrow> s' = s"
  by (induction "is") (auto simp: dev_close_eq simp del: dev_close.simps split: if_splits bind_splits)

lemma close_all_ok:
  assumes "\<forall>i \<in> set is. 2 \<le> i \<and> fd_ok i (get_fd p i s)"
  shows "close_all p is s = Some s"
  using assms
proof (induction "is")
  case (Cons i "is")
  then have "flags (get_fd p i s) = 0 \<or> flags (get_fd p i s) = 1 \<and> operations (get_fd p i s) \<in> {Some file_dev, Some directory_dev, Some rtc_dev}"
    by (auto simp: fd_ok_def split: if_splits)
  then show ?case using Cons by (auto simp: dev_close_eq simp del: dev_close.simps)
qed simp

lemma sint_of_small: "0 \<le> k \<Longrightarrow> k \<le> 6 \<Longrightarrow> sint (of_int k :: u32) = k"
  using sint_small [of "nat k"] by simp

lemma top_of_bound: "set ks \<subseteq> {1..6} \<Longrightarrow> 0 \<le> top_of ks \<and> top_of ks \<le> 6"
  by (cases ks) (auto simp: top_of_def)

lemma leave_process_pops:
  assumes "holds s st" "flagger s = 0" "t = active_term s" "st t = k # ks"
  shows "\<exists>s1. leave_process s = (top_of ks, pcb_addr (int k), s1) \<and> holds s1 (st(t := ks)) \<and>
    s1 = s\<lparr>term_arr := (term_arr s)(t := (term_arr s t)\<lparr>last_active_pro := top_of ks\<rparr>), PID_arr := (PID_arr s)[k - 1 := 0]\<rparr>"
proof -
  note h = assms(1) [unfolded holds_def]
  have t: "t \<in> {0, 1, 2}" using h assms(3) by blast
  have mem: "set (st t) \<subseteq> set (procs_of st)" by (rule procs_in [OF t])
  have k: "k \<in> set (procs_of st)" "1 \<le> k" "k \<le> 6" "k \<notin> set ks"
    using mem h assms(4) t by (auto simp: procs_of_def)
  have sub: "set ks \<subseteq> {1..6}" using mem h assms(4) by auto
  have last: "last_active_pro (term_arr s t) = int k" using holds_top [OF assms(1) t] assms(4) by (simp add: top_of_def)
  have "linked (parent_of s) (k # ks)" using holds_linked [OF assms(1) t] assms(4) by simp
  then have link: "Parent_PID (pcbs s (pcb_addr (int k))) = of_int (top_of ks)" "linked (parent_of s) ks"
    by (simp_all add: linked_Cons parent_of_def)
  have pid: "unat (PID (pcbs s (pcb_addr (int k))) - 1) = k - 1"
  proof -
    have eq: "PID (pcbs s (pcb_addr (int k))) - 1 = of_nat (k - 1)" using h k by simp
    show ?thesis unfolding eq using k by (intro unat_of_nat32) simp
  qed
  let ?s1 = "s\<lparr>term_arr := (term_arr s)(t := (term_arr s t)\<lparr>last_active_pro := top_of ks\<rparr>), PID_arr := (PID_arr s)[k - 1 := 0]\<rparr>"
  have run: "leave_process s = (top_of ks, pcb_addr (int k), ?s1)"
    using assms(2,3) last link sint_of_small [of "top_of ks"] top_of_bound [OF sub] pid
    by (simp add: leave_process_def Let_def)
  note pop = procs_pop [OF t assms(4) conjunct1 [OF h]]
  have arr: "(PID_arr s)[k - 1 := 0] = map (\<lambda>i. if Suc i \<in> set (procs_of (st(t := ks))) then 1 else 0) [0..<6]"
  proof (rule nth_equalityI)
    fix i assume "i < length ((PID_arr s)[k - 1 := 0])"
    then have "i < 6" using h by simp
    then show "(PID_arr s)[k - 1 := 0] ! i = map (\<lambda>i. if Suc i \<in> set (procs_of (st(t := ks))) then 1 else 0) [0..<6] ! i"
      using h k pop(1) by (auto simp: nth_list_update)
  qed (use h in simp)
  have par: "parent_of ?s1 = parent_of s" by (simp add: parent_of_def fun_eq_iff)
  have terms: "linked (parent_of ?s1) ((st(t := ks)) u) \<and> last_active_pro (term_arr ?s1 u) = top_of ((st(t := ks)) u)"
    if "u \<in> {0, 1, 2}" for u
    unfolding par using holds_top [OF assms(1) that] holds_linked [OF assms(1) that] link(2) by (cases "u = t") simp_all
  have "holds ?s1 (st(t := ks))"
    unfolding holds_def
  proof (intro conjI)
    show "\<forall>u \<in> {0, 1, 2}. linked (parent_of ?s1) ((st(t := ks)) u) \<and> last_active_pro (term_arr ?s1 u) = top_of ((st(t := ks)) u)"
      using terms by blast
    show "set (procs_of (st(t := ks))) \<subseteq> {1..6}" using h pop(1) by blast
    show "on_terminals ?s1 (st(t := ks))"
      using h assms(4) unfolding on_terminals_def by auto
  qed (use h pop arr in auto)
  then show ?thesis using run by blast
qed

text \<open>The end of \<open>c_halt\<close>: back to the parent's stack and page.\<close>

definition back_to :: "int \<Rightarrow> kernel \<Rightarrow> kernel" where
  "back_to j s = remap (of_int (MB_4 + MB_4 * j)) (s\<lparr>tss_esp0 := of_int (MB_8 - j * KB_8 - 4)\<rparr>)"

lemma back_to_simps [simp]:
  "PID_arr (back_to j s) = PID_arr s" "term_arr (back_to j s) = term_arr s" "PCB_ptr (back_to j s) = PCB_ptr s"
  "inti_flag (back_to j s) = inti_flag s" "flagger (back_to j s) = flagger s" "frames (back_to j s) = frames s"
  "pcbs (back_to j s) = pcbs s" "active_term (back_to j s) = active_term s" "get_fd p i (back_to j s) = get_fd p i s"
  by (simp_all add: back_to_def get_fd_def)

lemma back_to_represents: "represents s st \<Longrightarrow> represents (back_to j s) st"
  unfolding represents_def by (auto intro: holds_cong simp: flags_match_def)

lemma halt_with_eq:
  assumes "leave_process s = (j, p, s1)"
  shows "halt_with execute env status s =
    (let finish = (\<lambda>s. close_all p [2..<8] (back_to j s) \<bind> (\<lambda>s. Some (Resume (parent_esp (pcbs s p)) (parent_ebp (pcbs s p)) (ucast status), s)))
     in if j = 0 then execute (shell_name env) s1 \<bind> (\<lambda>(c, s). case c of Returned _ \<Rightarrow> finish s | _ \<Rightarrow> Some (c, s)) else finish s1)"
  unfolding halt_with_def assms Let_def back_to_def by (simp only: prod.case)

lemma halt_pops:
  assumes "represents s st" "t = active_term s" "st t = k # j # ks" "\<forall>i \<in> {2..<8}. fd_ok i (get_fd (pcb_addr (int k)) i s)"
  shows "\<exists>s'. halt_with execute env status s =
      Some (Resume (parent_esp (pcbs s (pcb_addr (int k)))) (parent_ebp (pcbs s (pcb_addr (int k)))) (ucast status), s') \<and>
    represents s' (st(t := j # ks)) \<and> window_page s' = process_page (of_nat j) \<and> tss_esp0 s' = pcb_addr (int j) - 4 \<and>
    PCB_ptr s' = PCB_ptr s \<and> pcbs s' = pcbs s \<and> frames s' = frames s \<and> (\<exists>pg. con (keyb s') = (con (keyb s))\<lparr>pages := pg\<rparr>)"
proof -
  have r: "holds s st" "flags_match s st" "flagger s = 0" using assms(1) by (simp_all add: represents_def)
  obtain s1 where l: "leave_process s = (int j, pcb_addr (int k), s1)" "holds s1 (st(t := j # ks))"
    "s1 = s\<lparr>term_arr := (term_arr s)(t := (term_arr s t)\<lparr>last_active_pro := int j\<rparr>), PID_arr := (PID_arr s)[k - 1 := 0]\<rparr>"
    using leave_process_pops [OF r(1,3) assms(2,3)] by (auto simp: top_of_def)
  have t: "t \<in> {0, 1, 2}" using r(1) assms(2) by (simp add: holds_def)
  have "j \<in> set (procs_of st)" using procs_in [OF t, of st] assms(3) by auto
  then have j: "1 \<le> j" "j \<le> 6" using r(1) by (auto simp: holds_def)
  have close: "close_all (pcb_addr (int k)) [2..<8] (back_to (int j) s1) = Some (back_to (int j) s1)"
    using assms(4) l(3) by (intro close_all_ok) (simp add: get_fd_def)
  have "flags_match s1 (st(t := j # ks))"
    using r(2) t assms(3) l(3) by (auto simp: flags_match_def)
  then have "represents s1 (st(t := j # ks))" using l(2,3) r(3) by (simp add: represents_def)
  moreover have "window_page (back_to (int j) s1) = process_page (of_nat j)"
    using process_page_int [of j] j by (simp add: back_to_def window_page_remap mult.commute)
  moreover have "tss_esp0 (back_to (int j) s1) = pcb_addr (int j) - 4"
    by (simp add: back_to_def pcb_addr_def mult.commute)
  moreover have "\<exists>pg. con (keyb (back_to (int j) s1)) = (con (keyb s))\<lparr>pages := pg\<rparr>"
    by (auto simp: back_to_def remap_def l(3))
  moreover have "PCB_ptr s1 = PCB_ptr s" "pcbs s1 = pcbs s" "frames s1 = frames s" by (simp_all add: l(3))
  moreover have "halt_with execute env status s = Some (Resume (parent_esp (pcbs s1 (pcb_addr (int k))))
      (parent_ebp (pcbs s1 (pcb_addr (int k)))) (ucast status), back_to (int j) s1)"
    using close j by (simp add: halt_with_eq [OF l(1)] Let_def)
  ultimately show ?thesis using back_to_represents by (intro exI [of _ "back_to (int j) s1"]) simp
qed

lemma not_full_free: "holds s st \<Longrightarrow> \<not> full st \<Longrightarrow> \<exists>k. lowest_free st k"
  using take_number_eq by blast

lemma halt_respawns:
  assumes "represents s st" "t = active_term s" "st t = [k]" "leave_process s = (j, p, s1)"
    "find_program env (shell_name env) s1 = Some (Some ino, s2)"
  shows "\<exists>eip s' k'. halt_with (execute_with h env) env status s = Some (Enter_user eip 0x83FFFFC, s') \<and>
    lowest_free (st(t := [])) k' \<and> represents s' (st(t := [k'])) \<and> window_page s' = process_page (of_nat k') \<and>
    PCB_ptr s' = pcb_addr (int k')"
proof -
  have r: "holds s st" "flags_match s st" "flagger s = 0" using assms(1) by (simp_all add: represents_def)
  have l: "j = 0" "holds s1 (st(t := []))"
    "s1 = s\<lparr>term_arr := (term_arr s)(t := (term_arr s t)\<lparr>last_active_pro := 0\<rparr>), PID_arr := (PID_arr s)[k - 1 := 0]\<rparr>"
    using leave_process_pops [OF r(1,3) assms(2,3)] assms(4) by (auto simp: top_of_def)
  have t: "t \<in> {0, 1, 2}" using r(1) assms(2) by (simp add: holds_def)
  have init: "inti_flag s1 \<noteq> 0" using l(2) by (simp add: holds_def)
  have same: "same_procs s1 s2" by (rule find_program_keeps [OF init assms(5)])
  have h2: "holds s2 (st(t := []))" by (rule holds_same_procs [OF same l(2)])
  have "k \<notin> set (procs_of (st(t := [])))" "1 \<le> k" "k \<le> 6"
    using procs_pop(1) [of t st k "[]", OF t assms(3)] r(1) procs_in [OF t, of st] assms(3) by (auto simp: holds_def)
  then have "\<not> full (st(t := []))" by (auto simp: full_def)
  then obtain k' where k': "lowest_free (st(t := [])) k'" using not_full_free [OF h2] by blast
  have act: "t = active_term s2" using same l(3) assms(2) by (simp add: same_procs_def active_term_def)
  have terms: "term_arr s2 = (term_arr s)(t := (term_arr s t)\<lparr>last_active_pro := 0\<rparr>)" "flagger s2 = 0"
    using same l(3) r(3) by (simp_all add: same_procs_def)
  have flag: "term_flag (term_arr s t) = 1" using r(2) t assms(3) unfolding flags_match_def by auto
  obtain eip s' where s': "start_program h env ino s2 = Some (Enter_user eip 0x83FFFFC, s')"
    "holds s' ((st(t := []))(t := k' # (st(t := [])) t))" "term_flag (term_arr s' t) = 1"
    "\<forall>u. u \<noteq> t \<longrightarrow> term_arr s' u = term_arr s2 u" "flagger s' = 0" "PCB_ptr s' = pcb_addr (int k')"
    "window_page s' = process_page (of_nat k')"
    using start_program_pushes [OF h2 act _ k', of h env ino] terms flag by auto
  have "flags_match s' (st(t := [k']))"
    using r(2) s'(3,4) terms unfolding flags_match_def by auto
  then have "represents s' (st(t := [k']))" using s' by (simp add: represents_def)
  moreover have "halt_with (execute_with h env) env status s = Some (Enter_user eip 0x83FFFFC, s')"
    using assms(5) s'(1) l(1) by (simp add: halt_with_eq [OF assms(4)] execute_with_def)
  ultimately show ?thesis using k' s' by blast
qed

subsection \<open>One program too many\<close>

lemma start_program_full:
  assumes "holds s st" "flags_match s st" "full st" "start_program halt env ino s = Some (c, s')"
  shows "\<exists>s1. halt s1 = Some (c, s') \<and> holds s1 st \<and> flags_match s1 st \<and> flagger s1 = 1"
proof -
  have "\<not> lowest_free st k" for k using assms(3) by (auto simp: lowest_free_def full_def)
  then have n: "take_number s = (6, s\<lparr>process_counter := 7\<rparr>)" using take_number_eq [OF assms(1)] by blast
  obtain eip s2 where l: "load_program ino (s\<lparr>process_counter := 7\<rparr>) = (eip, s2)" by (cases "load_program ino (s\<lparr>process_counter := 7\<rparr>)")
  note ls = load_program_simps [OF l, simplified]
  let ?p = "pcb_addr 7"
  define s3 where "s3 = upd_pcb ?p (c_pcb 7) (upd_pcb ?p (\<lambda>p. p\<lparr>parent_ebp := reg_ebp env, parent_esp := reg_esp env\<rparr>) (s2\<lparr>PCB_ptr := ?p\<rparr>))"
  obtain m d r r' where w: "terminal_write (view_mem s3) 0 (error_msg env) r (con (keyb s3)) = Some (r', m, d)" and
    run: "halt ((set_console d (put_mem m s3))\<lparr>flagger := 1\<rparr>) = Some (c, s')"
    using assms(4) n l by (auto simp: start_program_def Let_def ls s3_def split: bind_splits)
  let ?s4 = "(set_console d (put_mem m s3))\<lparr>flagger := 1\<rparr>"
  have act: "active_term ?s4 = active_term s"
  proof -
    have "active_term ?s4 = active_term s3"
      using terminal_write_same [OF w] by (simp add: active_term_def get_active_term_def same_console_def)
    then show ?thesis by (simp add: s3_def ls)
  qed
  have "holds ?s4 st"
  proof (rule holds_cong [OF assms(1)])
    show "\<forall>k \<in> set (procs_of st). pcbs ?s4 (pcb_addr (int k)) = pcbs s (pcb_addr (int k))"
    proof
      fix k assume "k \<in> set (procs_of st)"
      then have "k \<le> 6" using assms(1) by (auto simp: holds_def)
      then have "pcb_addr (int k) \<noteq> pcb_addr 7" using pcb_addr_inj [of k 7] by simp
      then show "pcbs ?s4 (pcb_addr (int k)) = pcbs s (pcb_addr (int k))" by (simp add: s3_def ls)
    qed
  qed (use act in \<open>simp_all add: s3_def ls set_console_def\<close>)
  moreover have "flags_match ?s4 st" using assms(2) by (simp add: flags_match_def s3_def ls)
  ultimately show ?thesis using run by auto
qed

lemma finish_state: "close_all p is s \<bind> (\<lambda>s. Some (f s, s)) = Some (c, s') \<Longrightarrow> s' = s"
  by (cases "close_all p is s") (auto dest: close_all_same)

lemma halt_full:
  "holds s st \<Longrightarrow> flags_match s st \<Longrightarrow> full st \<Longrightarrow> flagger s = 1 \<Longrightarrow> c_halt n env status s = Some (c, s') \<Longrightarrow> represents s' st"
proof (induction n arbitrary: s status c s')
  case (Suc n)
  let ?j = "last_active_pro (term_arr s (active_term s))" and ?s1 = "s\<lparr>flagger := 0\<rparr>"
  have l: "leave_process s = (?j, pcb_addr 7, ?s1)" using Suc.prems(4) by (simp add: leave_process_def Let_def)
  have h1: "holds ?s1 st" "flags_match ?s1 st"
    using Suc.prems(1,2) by (auto intro: holds_cong simp: flags_match_def)
  have fin: "represents s2' st" if "represents s2 st"
    "close_all (pcb_addr 7) [2..<8] (back_to ?j s2) \<bind> (\<lambda>s. Some (f s, s)) = Some (c2, s2')" for s2 s2' c2 and f :: "kernel \<Rightarrow> control"
    using back_to_represents [OF that(1)] finish_state [OF that(2)] by simp
  have r1: "represents ?s1 st" using h1 by (simp add: represents_def)
  show ?case
  proof (cases "?j = 0")
    case False
    then show ?thesis using Suc.prems(5) fin [OF r1] by (simp add: halt_with_eq [OF l] Let_def del: upt_rec_numeral)
  next
    case True
    then obtain c1 s2 where e: "execute_with (c_halt n env 0) env (shell_name env) ?s1 = Some (c1, s2)"
      and rest: "(case c1 of Returned _ \<Rightarrow> close_all (pcb_addr 7) [2..<8] (back_to ?j s2) \<bind>
          (\<lambda>s. Some (Resume (parent_esp (pcbs s (pcb_addr 7))) (parent_ebp (pcbs s (pcb_addr 7))) (ucast status), s)) | _ \<Rightarrow> Some (c1, s2)) = Some (c, s')"
      using Suc.prems(5) by (auto simp: halt_with_eq [OF l] Let_def simp del: upt_rec_numeral split: bind_splits)
    obtain found s3 where f: "find_program env (shell_name env) ?s1 = Some (found, s3)"
      and g: "(case found of None \<Rightarrow> Some (Returned (-1), s3) | Some ino \<Rightarrow> start_program (c_halt n env 0) env ino s3) = Some (c1, s2)"
      using e by (auto simp: execute_with_def split: bind_splits)
    have init: "inti_flag ?s1 \<noteq> 0" using h1(1) by (simp add: holds_def)
    have same: "same_procs ?s1 s3" by (rule find_program_keeps [OF init f])
    have h3: "holds s3 st" "flags_match s3 st" "flagger s3 = 0"
      using holds_same_procs [OF same h1(1)] h1(2) same by (simp_all add: flags_match_def same_procs_def)
    have r2: "represents s2 st"
    proof (cases found)
      case None
      then show ?thesis using g h3 by (simp add: represents_def)
    next
      case (Some ino)
      then have "start_program (c_halt n env 0) env ino s3 = Some (c1, s2)" using g by simp
      from start_program_full [OF h3(1,2) Suc.prems(3) this] show ?thesis using Suc.IH [OF _ _ Suc.prems(3)] by blast
    qed
    show ?thesis using rest fin [OF r2] r2 by (cases c1) (simp_all del: upt_rec_numeral)
  qed
qed simp

subsection \<open>The kernel refines the stacks\<close>

text \<open>A program is started, the running program ends (while the shell can be found, if it was the
  last of its terminal), or another terminal's program runs.\<close>

inductive kernel_step :: "env \<Rightarrow> kernel \<Rightarrow> kernel \<Rightarrow> bool" for env where
  step_execute: "c_execute n env command s = Some (c, s') \<Longrightarrow> kernel_step env s s'"
| step_halt: "c_halt n env status s = Some (c, s') \<Longrightarrow> get_process_num s \<noteq> 0 \<Longrightarrow>
    (\<And>p s1. leave_process s = (0, p, s1) \<Longrightarrow> \<exists>ino s2. find_program env (shell_name env) s1 = Some (Some ino, s2)) \<Longrightarrow>
    kernel_step env s s'"
| step_switch: "t \<in> {0, 1, 2} \<Longrightarrow> kernel_step env s (set_console (change_active_term t (con (keyb s))) s)"
| step_timer: "PIT_handler regs p s = Some (r, p', s') \<Longrightarrow> kernel_step env s s'"

lemma execute_simulates:
  assumes "represents s st" "c_execute n env command s = Some (c, s')"
  shows "\<exists>st'. (st' = st \<or> proc_step st st') \<and> represents s' st'"
proof -
  have r: "holds s st" "flags_match s st" "flagger s = 0" using assms(1) by (simp_all add: represents_def)
  obtain found s1 where f: "find_program env command s = Some (found, s1)"
    and g: "(case found of None \<Rightarrow> Some (Returned (-1), s1) | Some ino \<Rightarrow> start_program (c_halt n env 0) env ino s1) = Some (c, s')"
    using assms(2) by (auto simp: c_execute_def execute_with_def split: bind_splits)
  have init: "inti_flag s \<noteq> 0" using r(1) by (simp add: holds_def)
  have same: "same_procs s s1" by (rule find_program_keeps [OF init f])
  have h: "holds s1 st" "flags_match s1 st" "flagger s1 = 0"
    using holds_same_procs [OF same r(1)] r(2,3) same by (simp_all add: flags_match_def same_procs_def)
  show ?thesis
  proof (cases found)
    case None
    then show ?thesis using g h by (auto simp: represents_def)
  next
    case (Some ino)
    then have run: "start_program (c_halt n env 0) env ino s1 = Some (c, s')" using g by simp
    show ?thesis
    proof (cases "full st")
      case True
      obtain s2 where "c_halt n env 0 s2 = Some (c, s')" "holds s2 st" "flags_match s2 st" "flagger s2 = 1"
        using start_program_full [OF h(1,2) True run] by blast
      then have "represents s' st" using halt_full [OF _ _ True] by blast
      then show ?thesis by blast
    next
      case False
      then obtain k where k: "lowest_free st k" using not_full_free [OF h(1)] by blast
      let ?t = "active_term s1"
      have t: "?t \<in> {0, 1, 2}" using h(1) by (simp add: holds_def)
      have "st ?t \<noteq> [] \<longrightarrow> term_flag (term_arr s1 ?t) \<noteq> 0" using h(2) t unfolding flags_match_def by auto
      from start_program_pushes [OF h(1) refl this k, of "c_halt n env 0" env ino]
      have p: "holds s' (st(?t := k # st ?t))" "term_flag (term_arr s' ?t) = (if term_flag (term_arr s1 ?t) = 0 then 1 else term_flag (term_arr s1 ?t))"
        "\<forall>u. u \<noteq> ?t \<longrightarrow> term_arr s' u = term_arr s1 u" "flagger s' = flagger s1"
        using run by auto
      have "flags_match s' (st(?t := k # st ?t))" using p(2,3) h(2) t unfolding flags_match_def by auto
      then have "represents s' (st(?t := k # st ?t))" using p h(3) by (simp add: represents_def)
      then show ?thesis using push [OF t k] by blast
    qed
  qed
qed

lemma halt_simulates:
  assumes "represents s st" "c_halt n env status s = Some (c, s')" "get_process_num s \<noteq> 0"
    "\<And>p s1. leave_process s = (0, p, s1) \<Longrightarrow> \<exists>ino s2. find_program env (shell_name env) s1 = Some (Some ino, s2)"
  shows "\<exists>st'. proc_step st st' \<and> represents s' st'"
proof -
  have r: "holds s st" "flags_match s st" "flagger s = 0" using assms(1) by (simp_all add: represents_def)
  let ?t = "active_term s"
  have t: "?t \<in> {0, 1, 2}" using r(1) by (simp add: holds_def)
  obtain n' where n: "n = Suc n'" using assms(2) by (cases n) simp_all
  have "st ?t \<noteq> []" using assms(3) holds_top [OF r(1) t] by (auto simp: get_process_num_def top_of_def)
  then obtain k ks where k: "st ?t = k # ks" by (cases "st ?t") simp_all
  obtain s1 where l: "leave_process s = (top_of ks, pcb_addr (int k), s1)" "holds s1 (st(?t := ks))"
    "s1 = s\<lparr>term_arr := (term_arr s)(?t := (term_arr s ?t)\<lparr>last_active_pro := top_of ks\<rparr>), PID_arr := (PID_arr s)[k - 1 := 0]\<rparr>"
    using leave_process_pops [OF r(1,3) refl k] by blast
  show ?thesis
  proof (cases ks)
    case Nil
    then obtain ino s2 where "find_program env (shell_name env) s1 = Some (Some ino, s2)"
      using assms(4) l(1) by (auto simp: top_of_def)
    then show ?thesis using halt_respawns [OF assms(1) refl _ l(1), of k env ino s2 "c_halt n' env 0" status] assms(2) n k Nil respawn [OF t] by fastforce
  next
    case (Cons j js)
    have "set (st ?t) \<subseteq> {1..6}" using r(1) procs_in [OF t, of st] by (auto simp: holds_def)
    then have j: "top_of ks = int j" "int j \<noteq> 0" using Cons k by (auto simp: top_of_def)
    have "close_all (pcb_addr (int k)) [2..<8] (back_to (int j) s1) \<bind>
        (\<lambda>s. Some (Resume (parent_esp (pcbs s (pcb_addr (int k)))) (parent_ebp (pcbs s (pcb_addr (int k)))) (ucast status), s)) = Some (c, s')"
      using assms(2) j by (simp add: n halt_with_eq [OF l(1)] Let_def del: upt_rec_numeral)
    then have s': "s' = back_to (int j) s1" by (rule finish_state)
    have "flags_match s1 (st(?t := ks))"
      using r(2) t k Cons unfolding flags_match_def l(3) by auto
    then have "represents s1 (st(?t := ks))" using l(2,3) r(3) by (simp add: represents_def)
    then have "represents s' (st(?t := ks))" unfolding s' by (rule back_to_represents)
    moreover have "proc_step st (st(?t := ks))" using pop [OF t] k Cons by simp
    ultimately show ?thesis by blast
  qed
qed

lemma switch_represents:
  assumes "represents s st" "t \<in> {0, 1, 2}"
  shows "represents (set_console (change_active_term t (con (keyb s))) s) st"
proof -
  let ?s = "set_console (change_active_term t (con (keyb s))) s"
  have "active_term ?s = t" by (simp add: active_term_def get_active_term_def change_active_term_def)
  moreover have "inti_flag ?s = inti_flag s" "flagger ?s = flagger s" "parent_of ?s = parent_of s"
    by (simp_all add: set_console_def parent_of_def fun_eq_iff)
  ultimately show ?thesis using assms unfolding represents_def holds_def flags_match_def on_terminals_def by simp
qed

text \<open>The timer interrupt: the process on top of the next stack that is not empty runs on, and
  the interrupted one's registers are kept.\<close>

lemma PIT_handler_eq:
  assumes "represents s st" "t = active_term s" "st t = k # ks" "u = next_used (\<lambda>u. st u \<noteq> []) t" "j = hd (st u)"
    "p1 = p\<lparr>pit_ports := send_eoi 0 (pit_ports p), processes := (processes p)(int k - 1 := regs)\<rparr>"
    "s1 = back_to (int j) (set_console (change_active_term u (con (keyb s))) s)"
  shows "PIT_handler regs p s = Some (Some (processes p1 (int j - 1)), p1, s1)"
proof -
  have h: "holds s st" and f: "flags_match s st" using assms(1) by (simp_all add: represents_def)
  have t: "t \<in> {0, 1, 2}" using h assms(2) by (simp add: holds_def)
  have flag: "term_flag (term_arr s v) = 1 \<longleftrightarrow> st v \<noteq> []" if "v \<in> {0, 1, 2}" for v
    using f that unfolding flags_match_def by auto
  have u: "u \<in> {0, 1, 2}" "st u \<noteq> []"
    using next_used_in [OF t] next_used_used [of "\<lambda>u. st u \<noteq> []" t] assms(3,4) by simp_all
  have top: "last_active_pro (term_arr s t) = int k" "last_active_pro (term_arr s u) = int j"
    using holds_top [OF h t] holds_top [OF h u(1)] assms(3,5) u(2) by (simp_all add: top_of_def split: list.splits)
  have "int k > 0" using h t assms(3) procs_in [OF t, of st] by (auto simp: holds_def)
  moreover have "sint (term_num (pcbs s (pcb_addr (int k)))) = t"
  proof -
    have "term_num (pcbs s (pcb_addr (int k))) = of_int t"
      using h t assms(3) unfolding holds_def on_terminals_def by (metis list.set_intros(1))
    then show ?thesis using sint_of_small [of t] t by auto
  qed
  moreover have "find_term (term_arr s) (next_term t) = Some u"
  proof -
    have "next_used (\<lambda>v. term_flag (term_arr s v) = 1) t = u"
      using flag [OF next_term_range [OF t]] flag [OF next_term_range [OF next_term_range [OF t]]] assms(4)
      by (simp add: next_used_def)
    then show ?thesis using find_term_next [OF t, of "term_arr s"] flag [OF t] assms(3) by simp
  qed
  moreover have "term_arr (set_console c s) = term_arr s" for c by (simp add: set_console_def)
  ultimately show ?thesis
    using assms(2,6,7) top by (simp add: PIT_handler_def Let_def get_process_num_def get_term_arr_def back_to_def mult.commute)
qed

lemma timer_represents:
  assumes "represents s st" "PIT_handler regs p s = Some (r, p', s')"
  shows "represents s' st"
proof (cases "st (active_term s)")
  case Nil
  have "last_active_pro (term_arr s (active_term s)) = 0"
    using holds_top [of s st "active_term s"] assms(1) Nil by (simp add: represents_def holds_def top_of_def)
  then show ?thesis using assms by (simp add: PIT_handler_def get_process_num_def)
next
  case (Cons k ks)
  have "active_term s \<in> {0, 1, 2}" using assms(1) by (simp add: represents_def holds_def)
  then have "represents (set_console (change_active_term (next_used (\<lambda>u. st u \<noteq> []) (active_term s)) (con (keyb s))) s) st"
    using switch_represents [OF assms(1) next_used_in] by blast
  then show ?thesis
    using PIT_handler_eq [OF assms(1) refl Cons refl refl refl refl, of regs p] assms(2) back_to_represents by auto
qed

lemma step_simulates: "kernel_step env s s' \<Longrightarrow> represents s st \<Longrightarrow> \<exists>st'. proc_step\<^sup>*\<^sup>* st st' \<and> represents s' st'"
proof (induction rule: kernel_step.induct)
  case (step_execute n command s c s')
  then show ?case using execute_simulates by (metis r_into_rtranclp rtranclp.rtrancl_refl)
next
  case (step_halt n status s c s')
  then show ?case using halt_simulates by (metis r_into_rtranclp)
next
  case (step_switch t s)
  then show ?case using switch_represents by blast
next
  case (step_timer regs p s r p' s')
  then show ?case using timer_represents by blast
qed

subsection \<open>Properties\<close>

text \<open>The sample kernel: process 1 on the first terminal.\<close>

definition one_shell :: stacks where
  "one_shell = (\<lambda>_. [])(0 := [1])"

lemma shell_running_represents: "represents shell_running one_shell" "active_term shell_running = 0"
proof -
  show act: "active_term shell_running = 0"
    by (simp add: active_term_def get_active_term_def shell_running_def line_ready_def boot_console_def)
  have "PID_arr shell_running = [1, 0, 0, 0, 0, 0]" "inti_flag shell_running = 1" "flagger shell_running = 0"
    "term_arr shell_running = (\<lambda>t. if t = 0 then \<lparr>last_active_pro = 1, term_flag = 1, term_view = 0\<rparr>
       else \<lparr>last_active_pro = 0, term_flag = 0, term_view = 0\<rparr>)"
    by (simp_all add: shell_running_def)
  moreover have "procs_of one_shell = [1]" by (simp add: procs_of_def one_shell_def)
  moreover have "parent_of shell_running 1 = 0" by (simp add: parent_of_def c_pcb_def blank_pcb_def)
  ultimately show "represents shell_running one_shell"
    using act by (simp add: represents_def holds_def flags_match_def one_shell_def top_of_def c_pcb_def upt_rec
      on_terminals_def blank_pcb_def)
qed

lemma one_shell_free: "lowest_free one_shell 2"
  by (auto simp: lowest_free_def procs_of_def one_shell_def)

text \<open>C1: however programs are started and ended and terminals take turns, the kernel's arrays,
  parent links and flags hold a stack of processes per terminal, and each operation does to
  the stacks what the specification says: push the lowest free number, pop, or replace a
  root shell.  In particular every number is in one stack only and at most six are in use.\<close>

theorem process_stacks_refined:
  assumes "represents s st" "(kernel_step env)\<^sup>*\<^sup>* s s'"
  shows "\<exists>st'. proc_step\<^sup>*\<^sup>* st st' \<and> represents s' st' \<and> distinct (procs_of st') \<and> length (procs_of st') \<le> 6"
proof -
  have "\<exists>st'. proc_step\<^sup>*\<^sup>* st st' \<and> represents s' st'"
    using assms(2,1)
  proof (induction rule: rtranclp_induct)
    case (step s1 s2)
    then obtain st1 where "proc_step\<^sup>*\<^sup>* st st1" "represents s1 st1" by blast
    then show ?case using step_simulates [OF step.hyps(2)] by (meson rtranclp_trans)
  qed blast
  then obtain st' where st': "proc_step\<^sup>*\<^sup>* st st'" "represents s' st'" by blast
  then have d: "distinct (procs_of st')" "set (procs_of st') \<subseteq> {1..6}" by (simp_all add: represents_def holds_def)
  have "length (procs_of st') = card (set (procs_of st'))" using d(1) by (simp add: distinct_card)
  also have "\<dots> \<le> card {1..6 :: nat}" using d(2) by (intro card_mono) simp_all
  finally show ?thesis using st' d(1) by auto
qed

theorem process_stacks_refined_witness:
  "\<exists>st'. proc_step\<^sup>*\<^sup>* one_shell st' \<and> represents (set_console (change_active_term 1 (con (keyb shell_running))) shell_running) st' \<and>
     distinct (procs_of st') \<and> length (procs_of st') \<le> 6"
proof -
  have "kernel_step sample_env shell_running (set_console (change_active_term 1 (con (keyb shell_running))) shell_running)"
    by (rule step_switch) simp
  from process_stacks_refined [OF shell_running_represents(1) r_into_rtranclp [of "kernel_step sample_env", OF this]] show ?thesis .
qed

text \<open>C7: a program that is started gets the lowest free process number, its own physical page in
  the window, its own kernel stack, a fresh descriptor table with the terminal on 0 and 1,
  and the caller's stack registers to come back to; the control block and the page of every
  other process stay as they were.\<close>

theorem start_program_correct:
  assumes "represents s st" "t = active_term s" "lowest_free st k"
  shows "\<exists>eip s'. start_program halt env ino s = Some (Enter_user eip 0x83FFFFC, s') \<and> represents s' (st(t := k # st t)) \<and>
    PCB_ptr s' = pcb_addr (int k) \<and> window_page s' = process_page (of_nat k) \<and> tss_esp0 s' = pcb_addr (int k) - 4 \<and>
    parent_esp (pcbs s' (pcb_addr (int k))) = reg_esp env \<and> parent_ebp (pcbs s' (pcb_addr (int k))) = reg_ebp env \<and> fds_ok s' \<and>
    (\<forall>b. b \<noteq> process_page (of_nat k) \<longrightarrow> frames s' b = frames s b) \<and> (\<forall>p. p \<noteq> pcb_addr (int k) \<longrightarrow> pcbs s' p = pcbs s p)"
  using start_represents [OF assms] .

theorem start_program_correct_witness:
  "\<exists>eip s'. start_program (\<lambda>_. None) sample_env 0 shell_running = Some (Enter_user eip 0x83FFFFC, s') \<and>
     represents s' (one_shell(0 := [2, 1])) \<and> window_page s' = 0xC00000"
proof -
  have "one_shell(0 := 2 # one_shell 0) = one_shell(0 := [2, 1])" by (simp add: one_shell_def)
  moreover have "process_page (of_nat 2) = 0xC00000" by (simp add: process_page_def)
  ultimately show ?thesis
    using start_program_correct [OF shell_running_represents(1) shell_running_represents(2) [symmetric] one_shell_free, of "\<lambda>_. None" sample_env 0]
    by metis
qed

text \<open>C8: a program that was started from another and then ends takes the kernel back: the number is
  free again and the stacks are the old ones, the parent's page is in the window and its
  kernel stack in the task state, and control resumes where the parent made the call.  (The
  global pointer \<open>PCB\<close> still names the program that ended.)\<close>

theorem start_halt_roundtrip:
  assumes "represents s st" "t = active_term s" "lowest_free st k" "st t = j # js"
  shows "\<exists>eip s' s''. start_program halt env ino s = Some (Enter_user eip 0x83FFFFC, s') \<and>
    c_halt (Suc n) env' status s' = Some (Resume (reg_esp env) (reg_ebp env) (ucast status), s'') \<and> represents s'' st \<and>
    window_page s'' = process_page (of_nat j) \<and> tss_esp0 s'' = pcb_addr (int j) - 4 \<and> PCB_ptr s'' = pcb_addr (int k)"
proof -
  obtain eip s' where s': "start_program halt env ino s = Some (Enter_user eip 0x83FFFFC, s')" "represents s' (st(t := k # st t))"
    "PCB_ptr s' = pcb_addr (int k)" "parent_esp (pcbs s' (pcb_addr (int k))) = reg_esp env"
    "parent_ebp (pcbs s' (pcb_addr (int k))) = reg_ebp env" "fds_ok s'" "active_term s' = t"
    using start_represents [OF assms(1-3)] start_active [OF assms(1-3)] by metis
  have "\<forall>i \<in> {2..<8}. fd_ok i (get_fd (pcb_addr (int k)) i s')" using s'(3,6) by (simp add: fds_ok_def)
  then obtain s'' where "c_halt (Suc n) env' status s' = Some (Resume (reg_esp env) (reg_ebp env) (ucast status), s'')"
    "represents s'' ((st(t := k # st t))(t := j # js))" "window_page s'' = process_page (of_nat j)"
    "tss_esp0 s'' = pcb_addr (int j) - 4" "PCB_ptr s'' = PCB_ptr s'"
    using halt_pops [OF s'(2) s'(7) [symmetric], of k j js] s'(4,5) assms(4) by fastforce
  moreover have "(st(t := k # st t))(t := j # js) = st" using assms(4) by (auto simp: fun_eq_iff)
  ultimately show ?thesis using s'(1,3) by metis
qed

theorem start_halt_roundtrip_witness:
  "\<exists>eip s' s''. start_program (\<lambda>_. None) sample_env 0 shell_running = Some (Enter_user eip 0x83FFFFC, s') \<and>
     c_halt 1 sample_env 0 s' = Some (Resume 0x7FD000 0x7FD040 0, s'') \<and> represents s'' one_shell"
proof -
  have "one_shell 0 = [1]" "reg_esp sample_env = 0x7FD000" "reg_ebp sample_env = 0x7FD040"
    by (simp_all add: one_shell_def sample_env_def)
  then show ?thesis
    using start_halt_roundtrip [OF shell_running_represents(1) shell_running_represents(2) [symmetric] one_shell_free,
        of 1 "[]" "\<lambda>_. None" sample_env 0 0 sample_env 0] by auto
qed

end
