(* ===== verification/Scheduler.thy ===== *)
theory Scheduler
  imports Process_Table
begin

text \<open>
  What the timer interrupt does to the processes of the terminals: it goes round the
  terminals that have one, it brings every process back with the stack registers it was
  interrupted with, and no terminal waits for more than three interrupts.
\<close>

text \<open>A series of timer interrupts, each with the registers it finds.\<close>

primrec ticks :: "cont_t list \<Rightarrow> pit_state \<Rightarrow> kernel \<Rightarrow> (cont_t option \<times> pit_state \<times> kernel) option" where
  "ticks [] p s = Some (None, p, s)"
| "ticks (r # rs) p s = do {
     (c, p, s) \<leftarrow> PIT_handler r p s;
     if rs = [] then Some (c, p, s) else ticks rs p s
   }"

text \<open>The scheduler's view: the terminal that runs, and the process on top of it with its page
  and kernel stack in place.\<close>

definition running :: "stacks \<Rightarrow> kernel \<Rightarrow> int \<Rightarrow> bool" where
  "running st s t \<longleftrightarrow> represents s st \<and> active_term s = t \<and> st t \<noteq> [] \<and>
    window_page s = process_page (of_nat (hd (st t))) \<and> tss_esp0 s = pcb_addr (int (hd (st t))) - 4"

abbreviation (input) next_of :: "stacks \<Rightarrow> int \<Rightarrow> int" where
  "next_of st \<equiv> next_used (\<lambda>u. st u \<noteq> [])"

lemma tick:
  assumes "represents s st" "t = active_term s" "st t \<noteq> []"
  shows "\<exists>p' s'. PIT_handler r p s = Some (Some (processes p' (int (hd (st (next_of st t))) - 1)), p', s') \<and>
    running st s' (next_of st t) \<and> processes p' = (processes p)(int (hd (st t)) - 1 := r) \<and>
    PCB_ptr s' = PCB_ptr s \<and> pcbs s' = pcbs s \<and> frames s' = frames s \<and> kernel_mem s' = kernel_mem s"
proof -
  let ?u = "next_of st t"
  obtain k ks where k: "st t = k # ks" using assms(3) by (cases "st t") auto
  have h: "holds s st" using assms(1) by (simp add: represents_def)
  then have t: "t \<in> {0, 1, 2}" using assms(2) by (simp add: holds_def)
  then have u: "?u \<in> {0, 1, 2}" "st ?u \<noteq> []"
    using next_used_in next_used_used [of "\<lambda>u. st u \<noteq> []" t] assms(3) by auto
  define s0 where "s0 = set_console (change_active_term ?u (con (keyb s))) s"
  have "set (st ?u) \<subseteq> {1..6}" using h procs_in [OF u(1), of st] by (auto simp: holds_def)
  then have hd: "1 \<le> hd (st ?u)" "hd (st ?u) \<le> 6" using hd_in_set [OF u(2)] by auto
  have "represents s0 st" using switch_represents [OF assms(1) u(1)] by (simp add: s0_def)
  moreover have "active_term s0 = ?u" by (simp add: s0_def active_term_def get_active_term_def change_active_term_def)
  moreover have "window_page (back_to (int (hd (st ?u))) s0) = process_page (of_nat (hd (st ?u)))"
    using process_page_int [of "hd (st ?u)"] hd by (simp add: back_to_def window_page_remap mult.commute)
  moreover have "tss_esp0 (back_to (int (hd (st ?u))) s0) = pcb_addr (int (hd (st ?u))) - 4"
    by (simp add: back_to_def pcb_addr_def mult.commute)
  ultimately have "running st (back_to (int (hd (st ?u))) s0) ?u"
    using u(2) back_to_represents by (simp add: running_def)
  moreover have "kernel_mem (back_to j x) = kernel_mem x" for j x by (simp add: back_to_def remap_def)
  ultimately show ?thesis
    using PIT_handler_eq [OF assms(1,2) k refl refl refl refl, of r p] k
    by (simp add: s0_def [symmetric]) (simp add: s0_def set_console_def)
qed

lemma tick_running:
  assumes "running st s t"
  shows "\<exists>p' s'. PIT_handler r p s = Some (Some (processes p' (int (hd (st (next_of st t))) - 1)), p', s') \<and>
    running st s' (next_of st t) \<and> processes p' = (processes p)(int (hd (st t)) - 1 := r) \<and> pcbs s' = pcbs s \<and> frames s' = frames s"
proof -
  have "represents s st" "t = active_term s" "st t \<noteq> []" using assms by (simp_all add: running_def)
  from tick [OF this, of r p] show ?thesis by blast
qed

text \<open>Going round: from a terminal in use, every terminal in use comes up within three steps.\<close>

lemma next_used_reaches:
  assumes "t \<in> {0, 1, 2}" "u \<in> {0, 1, 2}" "used t" "used u"
  shows "u = next_used used t \<or> u = next_used used (next_used used t) \<or> u = next_used used (next_used used (next_used used t))"
  using assms by (auto simp: next_used_def)

lemma next_used_cycle:
  assumes "t \<in> {0, 1, 2}" "used t"
  shows "next_used used t = t \<or> next_used used t \<noteq> t \<and> next_used used (next_used used t) = t \<or>
    next_used used t \<noteq> t \<and> next_used used (next_used used t) \<noteq> t \<and> next_used used (next_used used (next_used used t)) = t"
  using assms by (auto simp: next_used_def)

lemma hd_apart:
  assumes "represents s st" "t \<in> {0, 1, 2}" "st u \<noteq> []" "st t \<noteq> []" "u \<noteq> t" "u \<in> {0, 1, 2}"
  shows "hd (st u) \<noteq> hd (st t)"
proof -
  have "distinct (procs_of st)" using assms(1) by (simp add: represents_def holds_def)
  moreover have "hd (st u) \<in> set (st u)" "hd (st t) \<in> set (st t)" using assms(3,4) by simp_all
  ultimately show ?thesis using assms(2,5,6) by (auto simp: procs_of_def)
qed

subsection \<open>Properties\<close>

text \<open>C18: a timer interrupt saves the registers of the running process, resumes the process of the
  next terminal in use with the registers saved for it, with its page in the window and
  its kernel stack in the task state, and leaves all processes as they are.  (It does
  not switch the global pointer \<open>PCB\<close>.)\<close>

theorem timer_switches:
  assumes "represents s st" "t = active_term s" "st t \<noteq> []" "u = next_used (\<lambda>u. st u \<noteq> []) t"
  shows "\<exists>p' s'. PIT_handler r p s = Some (Some (processes p' (int (hd (st u)) - 1)), p', s') \<and> active_term s' = u \<and>
    represents s' st \<and> window_page s' = process_page (of_nat (hd (st u))) \<and> tss_esp0 s' = pcb_addr (int (hd (st u))) - 4 \<and>
    processes p' = (processes p)(int (hd (st t)) - 1 := r) \<and> PCB_ptr s' = PCB_ptr s \<and> pcbs s' = pcbs s \<and> frames s' = frames s"
  using tick [OF assms(1-3), of r p] assms(4) unfolding running_def by blast

theorem timer_switches_witness:
  "\<exists>p' s'. PIT_handler \<lparr>ESP = 0x7FDF00, EBP = 0x7FDF40\<rparr> \<lparr>processes = (\<lambda>_. \<lparr>ESP = 0, EBP = 0\<rparr>), pit_ports = []\<rparr> shell_running =
     Some (Some \<lparr>ESP = 0x7FDF00, EBP = 0x7FDF40\<rparr>, p', s') \<and> active_term s' = 0"
proof -
  have "one_shell 0 = [1]" "next_used (\<lambda>u. one_shell u \<noteq> []) 0 = 0" by (simp_all add: one_shell_def next_used_def)
  then show ?thesis
    using timer_switches [OF shell_running_represents(1) shell_running_represents(2) [symmetric], of 0
        "\<lparr>ESP = 0x7FDF00, EBP = 0x7FDF40\<rparr>" "\<lparr>processes = (\<lambda>_. \<lparr>ESP = 0, EBP = 0\<rparr>), pit_ports = []\<rparr>"] by auto
qed

text \<open>C17: no terminal starves: a terminal with a process runs after one, two or three timer
  interrupts, whatever the registers were at each.\<close>

theorem no_terminal_starves:
  assumes "represents s st" "st (active_term s) \<noteq> []" "u \<in> {0, 1, 2}" "st u \<noteq> []" "length rs = 3"
  shows "\<exists>n c p' s'. 1 \<le> n \<and> n \<le> 3 \<and> ticks (take n rs) p s = Some (Some c, p', s') \<and> active_term s' = u \<and>
    represents s' st \<and> window_page s' = process_page (of_nat (hd (st u)))"
proof -
  let ?t = "active_term s"
  have t: "?t \<in> {0, 1, 2}" using assms(1) by (simp add: represents_def holds_def)
  obtain r1 r2 r3 where rs: "rs = [r1, r2, r3]" using assms(5) by (auto simp: length_Suc_conv numeral_3_eq_3)
  obtain c1 p1 s1 where 1: "PIT_handler r1 p s = Some (Some c1, p1, s1)" "running st s1 (next_of st ?t)"
    using tick [OF assms(1) refl assms(2), of r1 p] by blast
  obtain c2 p2 s2 where 2: "PIT_handler r2 p1 s1 = Some (Some c2, p2, s2)" "running st s2 (next_of st (next_of st ?t))"
    using tick_running [OF 1(2), of r2 p1] by blast
  obtain c3 p3 s3 where 3: "PIT_handler r3 p2 s2 = Some (Some c3, p3, s3)"
    "running st s3 (next_of st (next_of st (next_of st ?t)))"
    using tick_running [OF 2(2), of r3 p2] by blast
  have runs: "ticks (take 1 rs) p s = Some (Some c1, p1, s1)" "ticks (take 2 rs) p s = Some (Some c2, p2, s2)"
    "ticks (take 3 rs) p s = Some (Some c3, p3, s3)"
    by (simp_all add: rs 1(1) 2(1) 3(1))
  have "\<exists>n c p' s'. 1 \<le> n \<and> n \<le> 3 \<and> ticks (take n rs) p s = Some (Some c, p', s') \<and> running st s' u"
    using next_used_reaches [of ?t u "\<lambda>u. st u \<noteq> []", OF t assms(3,2,4)]
  proof (elim disjE)
    assume "u = next_of st ?t" then show ?thesis using runs(1) 1(2) by (intro exI [of _ 1]) auto
  next
    assume "u = next_of st (next_of st ?t)" then show ?thesis using runs(2) 2(2) by (intro exI [of _ 2]) auto
  next
    assume "u = next_of st (next_of st (next_of st ?t))" then show ?thesis using runs(3) 3(2) by (intro exI [of _ 3]) auto
  qed
  then show ?thesis unfolding running_def by blast
qed

text \<open>The sample kernel with a second shell, process 2, on the second terminal.\<close>

definition two_shells :: kernel where
  "two_shells = shell_running\<lparr>pcbs := (pcbs shell_running)(pcb_addr 2 := (c_pcb 2 blank_pcb)\<lparr>term_num := 1\<rparr>),
     PID_arr := [1, 1, 0, 0, 0, 0],
     term_arr := (term_arr shell_running)(1 := \<lparr>last_active_pro = 2, term_flag = 1, term_view = 0\<rparr>)\<rparr>"

lemma two_shells_represents: "represents two_shells (one_shell(1 := [2]))" "active_term two_shells = 0"
proof -
  show act: "active_term two_shells = 0"
    using shell_running_represents(2) by (simp add: two_shells_def active_term_def)
  have "pcb_addr 1 \<noteq> pcb_addr 2" by (simp add: pcb_addr_def)
  then have p: "pcbs two_shells (pcb_addr 1) = c_pcb 1 blank_pcb" "pcbs two_shells (pcb_addr 2) = (c_pcb 2 blank_pcb)\<lparr>term_num := 1\<rparr>"
    by (simp_all add: two_shells_def shell_running_def)
  have t: "PID_arr two_shells = [1, 1, 0, 0, 0, 0]" "inti_flag two_shells = 1" "flagger two_shells = 0"
    "term_arr two_shells 0 = \<lparr>last_active_pro = 1, term_flag = 1, term_view = 0\<rparr>"
    "term_arr two_shells 1 = \<lparr>last_active_pro = 2, term_flag = 1, term_view = 0\<rparr>"
    "term_arr two_shells 2 = \<lparr>last_active_pro = 0, term_flag = 0, term_view = 0\<rparr>"
    by (simp_all add: two_shells_def shell_running_def)
  have "procs_of (one_shell(1 := [2])) = [1, 2]" by (simp add: procs_of_def one_shell_def)
  moreover have "parent_of two_shells 1 = 0" "parent_of two_shells 2 = 0" by (simp_all add: parent_of_def p c_pcb_def blank_pcb_def)
  ultimately show "represents two_shells (one_shell(1 := [2]))"
    using act t by (simp add: represents_def holds_def flags_match_def one_shell_def top_of_def upt_rec p
        on_terminals_def c_pcb_def blank_pcb_def)
qed

theorem no_terminal_starves_witness:
  "\<exists>n c p' s'. 1 \<le> n \<and> n \<le> 3 \<and>
     ticks (take n (replicate 3 \<lparr>ESP = 0, EBP = 0\<rparr>)) \<lparr>processes = (\<lambda>_. \<lparr>ESP = 0, EBP = 0\<rparr>), pit_ports = []\<rparr> two_shells = Some (Some c, p', s') \<and>
     active_term s' = 1 \<and> represents s' (one_shell(1 := [2])) \<and> window_page s' = process_page (of_nat (hd ((one_shell(1 := [2])) 1)))"
  by (rule no_terminal_starves [OF two_shells_represents(1)]) (simp_all add: two_shells_represents(2) one_shell_def)

text \<open>C4: a process that is interrupted is resumed with the very registers it was interrupted
  with, after one, two or three interrupts, and in its own page: the others' interrupts in
  between do not touch what was saved for it.\<close>

theorem interrupted_process_resumes:
  assumes "represents s st" "t = active_term s" "st t \<noteq> []" "length rs = 3"
  shows "\<exists>n p' s'. 1 \<le> n \<and> n \<le> 3 \<and> ticks (take n rs) p s = Some (Some (hd rs), p', s') \<and> active_term s' = t \<and>
    window_page s' = process_page (of_nat (hd (st t))) \<and> frames s' = frames s \<and> pcbs s' = pcbs s"
proof -
  let ?n = "next_of st" and ?i = "\<lambda>u. int (hd (st u)) - 1"
  have t: "t \<in> {0, 1, 2}" using assms(1,2) by (simp add: represents_def holds_def)
  obtain r1 r2 r3 where rs: "rs = [r1, r2, r3]" using assms(4) by (auto simp: length_Suc_conv numeral_3_eq_3)
  obtain p1 s1 where 1: "PIT_handler r1 p s = Some (Some (processes p1 (?i (?n t))), p1, s1)" "running st s1 (?n t)"
    "processes p1 = (processes p)(?i t := r1)" "frames s1 = frames s" "pcbs s1 = pcbs s"
    using tick [OF assms(1-3), of r1 p] by blast
  obtain p2 s2 where 2: "PIT_handler r2 p1 s1 = Some (Some (processes p2 (?i (?n (?n t)))), p2, s2)" "running st s2 (?n (?n t))"
    "processes p2 = (processes p1)(?i (?n t) := r2)" "frames s2 = frames s" "pcbs s2 = pcbs s"
    using tick_running [OF 1(2), of r2 p1] 1(4,5) by metis
  obtain p3 s3 where 3: "PIT_handler r3 p2 s2 = Some (Some (processes p3 (?i (?n (?n (?n t))))), p3, s3)" "running st s3 (?n (?n (?n t)))"
    "processes p3 = (processes p2)(?i (?n (?n t)) := r3)" "frames s3 = frames s" "pcbs s3 = pcbs s"
    using tick_running [OF 2(2), of r3 p2] 2(4,5) by metis
  have apart: "?i u \<noteq> ?i t" if "u \<noteq> t" "running st x u" for u x
    using hd_apart [of x st t u] t assms(3) that unfolding running_def represents_def holds_def by auto
  have "\<exists>n p' s'. 1 \<le> n \<and> n \<le> 3 \<and> ticks (take n rs) p s = Some (Some r1, p', s') \<and> running st s' t \<and> frames s' = frames s \<and> pcbs s' = pcbs s"
    using next_used_cycle [of t "\<lambda>u. st u \<noteq> []", OF t assms(3)]
  proof (elim disjE conjE)
    assume e: "?n t = t"
    show ?thesis using 1 e by (intro exI [of _ 1]) (auto simp: rs)
  next
    assume e: "?n t \<noteq> t" "?n (?n t) = t"
    show ?thesis using 1 2 e apart [OF e(1) 1(2)] by (intro exI [of _ 2]) (auto simp: rs)
  next
    assume e: "?n t \<noteq> t" "?n (?n t) \<noteq> t" "?n (?n (?n t)) = t"
    show ?thesis using 1 2 3 e apart [OF e(1) 1(2)] apart [OF e(2) 2(2)] by (intro exI [of _ 3]) (auto simp: rs)
  qed
  then show ?thesis using rs unfolding running_def by (metis list.sel(1))
qed

theorem interrupted_process_resumes_witness:
  "\<exists>n p' s'. 1 \<le> n \<and> n \<le> 3 \<and>
     ticks (take n [\<lparr>ESP = 0x7FDF00, EBP = 0x7FDF40\<rparr>, \<lparr>ESP = 0x7FBF00, EBP = 0x7FBF40\<rparr>, \<lparr>ESP = 0, EBP = 0\<rparr>])
       \<lparr>processes = (\<lambda>_. \<lparr>ESP = 0, EBP = 0\<rparr>), pit_ports = []\<rparr> two_shells = Some (Some \<lparr>ESP = 0x7FDF00, EBP = 0x7FDF40\<rparr>, p', s') \<and> active_term s' = 0"
  using interrupted_process_resumes [OF two_shells_represents(1) two_shells_represents(2) [symmetric],
      of "[\<lparr>ESP = 0x7FDF00, EBP = 0x7FDF40\<rparr>, \<lparr>ESP = 0x7FBF00, EBP = 0x7FBF40\<rparr>, \<lparr>ESP = 0, EBP = 0\<rparr>]"
      "\<lparr>processes = (\<lambda>_. \<lparr>ESP = 0, EBP = 0\<rparr>), pit_ports = []\<rparr>"]
  by (auto simp: one_shell_def)

end
