(* ===== verification/Idt.thy ===== *)
theory Idt
  imports Process_Table
begin

text \<open>
  The interrupt descriptor table and the exception handlers: \<^verbatim>\<open>src/student-distrib/idt.c\<close> and the
  descriptor format of \<^verbatim>\<open>x86_desc.h\<close>.  Where the linker puts the handlers and the string literals
  is not in the sources: both are parameters.  The contents of the table before
  \<open>init_idt\<close> are a parameter as well, since \<open>init_idt\<close> does not set every field of every entry.
\<close>

subsection \<open>The table\<close>

record idt_desc_t =
  offset_15_00 :: u16
  seg_selector :: u16
  reserved4 :: u8
  reserved3 :: "1 word"
  reserved2 :: "1 word"
  reserved1 :: "1 word"
  gate_size :: "1 word"
  reserved0 :: "1 word"
  dpl :: "2 word"
  present :: "1 word"
  offset_31_16 :: u16

text \<open>The other member of the union: the two words the processor reads.\<close>

definition idt_val :: "idt_desc_t \<Rightarrow> u32 \<times> u32" where
  "idt_val d =
    (ucast (offset_15_00 d) OR push_bit 16 (ucast (seg_selector d)),
     ucast (reserved4 d) OR push_bit 8 (ucast (reserved3 d)) OR push_bit 9 (ucast (reserved2 d)) OR
     push_bit 10 (ucast (reserved1 d)) OR push_bit 11 (ucast (gate_size d)) OR push_bit 12 (ucast (reserved0 d)) OR
     push_bit 13 (ucast (dpl d)) OR push_bit 15 (ucast (present d)) OR push_bit 16 (ucast (offset_31_16 d)))"

definition SET_IDT_ENTRY :: "u32 \<Rightarrow> idt_desc_t \<Rightarrow> idt_desc_t" where
  "SET_IDT_ENTRY handler d =
    d\<lparr>offset_31_16 := ucast (drop_bit 16 (handler AND 0xFFFF0000)), offset_15_00 := ucast (handler AND 0xFFFF)\<rparr>"

datatype handler =
  div_by_zero | debugger | nmi | breakpoint | overflow | bounds | invalid_opcode | coprocessor |
  double_fault | coprocessor_segment | inv_tss | segment_not_present | stack_fault | general_fault |
  page_fault | reserved | math_fault | alignment_check | machine_check | SIMD | sys_handler |
  undefined_interrupt | system_wrapper | rtc_wrapper | keyboard_wrapper | PIT_wrapper

definition entry_table :: "handler list" where
  "entry_table =
    [div_by_zero, debugger, nmi, breakpoint, overflow, bounds, invalid_opcode, coprocessor,
     double_fault, coprocessor_segment, inv_tss, segment_not_present, stack_fault, general_fault,
     page_fault, reserved, math_fault, alignment_check, machine_check, SIMD]"

text \<open>One round of the first loop of \<open>init_idt\<close>.\<close>

definition init_gate :: "(handler \<Rightarrow> u32) \<Rightarrow> nat \<Rightarrow> idt_desc_t \<Rightarrow> idt_desc_t" where
  "init_gate addr i d =
    (let d = d\<lparr>present := 1, dpl := 0, seg_selector := 0x10, reserved0 := 0, reserved1 := 1, reserved2 := 1,
               reserved3 := 1, reserved4 := 0, gate_size := 1\<rparr>;
         d = (if i > 32 then SET_IDT_ENTRY (addr undefined_interrupt) (d\<lparr>reserved3 := 0\<rparr>) else d);
         d = (if i = 0x80 then SET_IDT_ENTRY (addr system_wrapper) (d\<lparr>dpl := 3, reserved3 := 1\<rparr>) else d);
         d = (if i = 40 then SET_IDT_ENTRY (addr rtc_wrapper) (d\<lparr>reserved3 := 0\<rparr>) else d);
         d = (if i = 33 then SET_IDT_ENTRY (addr keyboard_wrapper) (d\<lparr>reserved3 := 0\<rparr>) else d)
     in if i = 32 then SET_IDT_ENTRY (addr PIT_wrapper) (d\<lparr>reserved3 := 0\<rparr>) else d)"

definition init_idt :: "(handler \<Rightarrow> u32) \<Rightarrow> (nat \<Rightarrow> idt_desc_t) \<Rightarrow> nat \<Rightarrow> idt_desc_t" where
  "init_idt addr idt =
    (let idt = fold (\<lambda>i idt. idt(i := init_gate addr i (idt i))) [0..<256] idt
     in fold (\<lambda>i idt. idt(i := SET_IDT_ENTRY (addr (entry_table ! i)) (idt i))) [0..<20] idt)"

subsection \<open>The handlers\<close>

text \<open>The message each handler prints; the four wrappers are assembly and print nothing.\<close>

fun message :: "handler \<Rightarrow> string" where
  "message div_by_zero = ''Divide by zero error''"
| "message debugger = ''debugger''"
| "message nmi = ''non-maskable interrupt''"
| "message breakpoint = ''breakpoint''"
| "message overflow = ''overflow''"
| "message bounds = ''bounds''"
| "message invalid_opcode = ''invalid opcode''"
| "message coprocessor = ''Coprocessor not available''"
| "message double_fault = ''Double fault''"
| "message coprocessor_segment = ''Coprocessor segment overrun''"
| "message inv_tss = ''Invalid task state segment''"
| "message segment_not_present = ''Segment not present''"
| "message stack_fault = ''Stack fault''"
| "message general_fault = ''General protection fault''"
| "message page_fault = ''page fault''"
| "message reserved = ''reserved''"
| "message math_fault = ''Math fault''"
| "message alignment_check = ''Alignment check''"
| "message machine_check = ''Machine check''"
| "message SIMD = ''SIMD''"
| "message sys_handler = ''System handler''"
| "message undefined_interrupt = ''undefined_interrupt''"
| "message _ = ''''"

text \<open>The bytes of the literal, with its newline.\<close>

definition literal :: "handler \<Rightarrow> u8 list" where
  "literal h = map of_char (message h) @ [10]"

text \<open>A handler prints its message, found at \<open>lit h\<close>, and ends the program with status 2.\<close>

definition run_handler :: "(handler \<Rightarrow> u32) \<Rightarrow> nat \<Rightarrow> env \<Rightarrow> handler \<Rightarrow> kernel \<Rightarrow> (control \<times> kernel) option" where
  "run_handler lit n env h s = do {
     (_, c) \<leftarrow> puts (view_mem s) (lit h) (con (keyb s));
     c_halt n env 2 (set_console c s)
   }"

subsection \<open>Gates\<close>

lemma offset_fields:
  "push_bit 16 (ucast (ucast (drop_bit 16 (h AND 0xFFFF0000)) :: u16)) = (h :: u32) AND 0xFFFF0000"
  "ucast (ucast ((h :: u32) AND 0xFFFF) :: u16) = h AND 0xFFFF"
proof -
  have hi: "(0xFFFF0000 :: u32) = push_bit 16 (mask 16)" and lo: "(0xFFFF :: u32) = mask 16" by (simp_all add: mask_eq_exp_minus_1)
  show "push_bit 16 (ucast (ucast (drop_bit 16 (h AND 0xFFFF0000)) :: u16)) = (h :: u32) AND 0xFFFF0000"
    unfolding hi by (rule bit_eqI) (auto simp: bit_simps)
  show "ucast (ucast ((h :: u32) AND 0xFFFF) :: u16) = h AND 0xFFFF"
    unfolding lo by (rule bit_eqI) (auto simp: bit_simps)
qed

text \<open>The loops set the entries one by one.\<close>

lemma fold_upd_nth:
  "fold (\<lambda>i f. f(i := g i (f i))) [0..<n] f v = (if v < n then g v (f v) else f v)"
  by (induction n) auto

text \<open>The address a gate leads to: vectors 20 to 31 keep the one they had.\<close>

definition gate_target :: "(handler \<Rightarrow> u32) \<Rightarrow> (nat \<Rightarrow> idt_desc_t) \<Rightarrow> nat \<Rightarrow> u32" where
  "gate_target addr idt v =
    (if v < 20 then addr (entry_table ! v)
     else if v < 32 then ucast (offset_15_00 (idt v)) OR push_bit 16 (ucast (offset_31_16 (idt v)))
     else addr (if v = 32 then PIT_wrapper else if v = 33 then keyboard_wrapper else if v = 40 then rtc_wrapper
                else if v = 0x80 then system_wrapper else undefined_interrupt))"

definition gate_access :: "nat \<Rightarrow> u32" where
  "gate_access v = (if v = 0x80 then 0xEF00 else if v < 32 then 0x8F00 else 0x8E00)"

lemma idt_val_set:
  "idt_val (SET_IDT_ENTRY a d) = ((a AND 0xFFFF) OR push_bit 16 (ucast (seg_selector d)),
     (ucast (reserved4 d) OR push_bit 8 (ucast (reserved3 d)) OR push_bit 9 (ucast (reserved2 d)) OR
     push_bit 10 (ucast (reserved1 d)) OR push_bit 11 (ucast (gate_size d)) OR push_bit 12 (ucast (reserved0 d)) OR
     push_bit 13 (ucast (dpl d)) OR push_bit 15 (ucast (present d))) OR (a AND 0xFFFF0000))"
proof -
  have "push_bit 16 (ucast (offset_31_16 (SET_IDT_ENTRY a d))) = a AND 0xFFFF0000"
    "ucast (offset_15_00 (SET_IDT_ENTRY a d)) = a AND 0xFFFF"
    using offset_fields [of a] by (simp_all add: SET_IDT_ENTRY_def)
  moreover have "seg_selector (SET_IDT_ENTRY a d) = seg_selector d" "reserved4 (SET_IDT_ENTRY a d) = reserved4 d"
    "reserved3 (SET_IDT_ENTRY a d) = reserved3 d" "reserved2 (SET_IDT_ENTRY a d) = reserved2 d"
    "reserved1 (SET_IDT_ENTRY a d) = reserved1 d" "gate_size (SET_IDT_ENTRY a d) = gate_size d"
    "reserved0 (SET_IDT_ENTRY a d) = reserved0 d" "dpl (SET_IDT_ENTRY a d) = dpl d" "present (SET_IDT_ENTRY a d) = present d"
    by (simp_all add: SET_IDT_ENTRY_def)
  ultimately show ?thesis by (simp only: idt_val_def or.assoc)
qed

lemma init_idt_nth:
  "v < 256 \<Longrightarrow> init_idt addr idt v =
    (if v < 20 then SET_IDT_ENTRY (addr (entry_table ! v)) (init_gate addr v (idt v)) else init_gate addr v (idt v))"
  by (simp add: init_idt_def Let_def fold_upd_nth [of "init_gate addr"]
      fold_upd_nth [of "\<lambda>i. SET_IDT_ENTRY (addr (entry_table ! i))"] del: upt_rec_numeral)

text \<open>Setting an entry to the address it has changes nothing.\<close>

lemma target_fields:
  "(ucast (lo :: u16) OR push_bit 16 (ucast (hi :: u16)) :: u32) AND 0xFFFF = ucast lo"
  "(ucast (lo :: u16) OR push_bit 16 (ucast (hi :: u16)) :: u32) AND 0xFFFF0000 = push_bit 16 (ucast hi)"
proof -
  have hi: "(0xFFFF0000 :: u32) = push_bit 16 (mask 16)" and lo: "(0xFFFF :: u32) = mask 16" by (simp_all add: mask_eq_exp_minus_1)
  show "(ucast (lo :: u16) OR push_bit 16 (ucast (hi :: u16)) :: u32) AND 0xFFFF = ucast lo"
    unfolding lo by (rule bit_eqI) (auto simp: bit_simps dest: bit_imp_le_length)
  show "(ucast (lo :: u16) OR push_bit 16 (ucast (hi :: u16)) :: u32) AND 0xFFFF0000 = push_bit 16 (ucast hi)"
    unfolding hi by (rule bit_eqI) (auto simp: bit_simps dest: bit_imp_le_length)
qed

lemma set_target: "SET_IDT_ENTRY (ucast (offset_15_00 d) OR push_bit 16 (ucast (offset_31_16 d))) d = d"
proof -
  have "drop_bit 16 (push_bit 16 (ucast (offset_31_16 d)) :: u32) = ucast (offset_31_16 d)"
    by (rule bit_eqI) (auto simp: bit_simps dest: bit_imp_le_length)
  moreover have "ucast (ucast (x :: u16) :: u32) = x" for x by (rule bit_eqI) (auto simp: bit_simps)
  ultimately show ?thesis unfolding SET_IDT_ENTRY_def target_fields by (cases d) simp
qed

text \<open>Every entry is the same frame with the address of \<open>gate_target\<close> in it.\<close>

lemma init_idt_gate:
  assumes "v < 256"
  shows "\<exists>d. init_idt addr idt v = SET_IDT_ENTRY (gate_target addr idt v) d \<and> seg_selector d = 0x10 \<and> reserved4 d = 0 \<and>
    reserved3 d = (if v < 32 \<or> v = 0x80 then 1 else 0) \<and> reserved2 d = 1 \<and> reserved1 d = 1 \<and> gate_size d = 1 \<and> reserved0 d = 0 \<and>
    dpl d = (if v = 0x80 then 3 else 0) \<and> present d = 1"
proof -
  let ?g = "init_gate addr v (idt v)"
  have g: "seg_selector ?g = 0x10 \<and> reserved4 ?g = 0 \<and> reserved3 ?g = (if v < 32 \<or> v = 0x80 then 1 else 0) \<and>
    reserved2 ?g = 1 \<and> reserved1 ?g = 1 \<and> gate_size ?g = 1 \<and> reserved0 ?g = 0 \<and> dpl ?g = (if v = 0x80 then 3 else 0) \<and> present ?g = 1"
    by (auto simp: init_gate_def Let_def SET_IDT_ENTRY_def)
  have "SET_IDT_ENTRY (gate_target addr idt v) ?g = init_idt addr idt v"
  proof (cases "v < 20")
    case False
    have "SET_IDT_ENTRY (gate_target addr idt v) ?g = ?g"
    proof (cases "v < 32")
      case True
      then have "offset_15_00 ?g = offset_15_00 (idt v)" "offset_31_16 ?g = offset_31_16 (idt v)"
        by (simp_all add: init_gate_def Let_def)
      then show ?thesis using set_target [of ?g] True False by (simp add: gate_target_def)
    qed (auto simp: gate_target_def init_gate_def Let_def SET_IDT_ENTRY_def)
    then show ?thesis using False assms by (simp add: init_idt_nth)
  qed (simp add: init_idt_nth gate_target_def)
  then show ?thesis using g by metis
qed

lemma message_line: "set (map of_char (message h)) \<inter> {10, 13 :: u8} = {}"
  by (cases h) simp_all

subsection \<open>Properties\<close>


definition zero_idt :: "nat \<Rightarrow> idt_desc_t" where
  "zero_idt = (\<lambda>_. \<lparr>offset_15_00 = 0, seg_selector = 0, reserved4 = 0, reserved3 = 0, reserved2 = 0, reserved1 = 0,
     gate_size = 0, reserved0 = 0, dpl = 0, present = 0, offset_31_16 = 0\<rparr>)"



text \<open>The sample kernel with a program, process 2, that the shell started, and a message in memory.\<close>

definition child_running :: kernel where
  "child_running = put_mem (store_bytes user_disk 0x50000 (literal page_fault @ [0]))
    (shell_running\<lparr>pcbs := (pcbs shell_running)(pcb_addr 2 := (c_pcb 2 blank_pcb)\<lparr>Parent_PID := 1\<rparr>),
     PID_arr := [1, 1, 0, 0, 0, 0],
     term_arr := (term_arr shell_running)(0 := \<lparr>last_active_pro = 2, term_flag = 1, term_view = 0\<rparr>)\<rparr>)"

lemma child_running_parts:
  "pcbs child_running = (\<lambda>_. c_pcb 1 blank_pcb)(pcb_addr 2 := (c_pcb 2 blank_pcb)\<lparr>Parent_PID := 1\<rparr>)"
  "view_mem child_running = store_bytes user_disk 0x50000 (literal page_fault @ [0])"
  "con (keyb child_running) = boot_console" "active_term child_running = 0"
  "PID_arr child_running = [1, 1, 0, 0, 0, 0]" "inti_flag child_running = 1" "flagger child_running = 0"
  "term_arr child_running 0 = \<lparr>last_active_pro = 2, term_flag = 1, term_view = 0\<rparr>"
  "term_arr child_running 1 = \<lparr>last_active_pro = 0, term_flag = 0, term_view = 0\<rparr>"
  "term_arr child_running 2 = \<lparr>last_active_pro = 0, term_flag = 0, term_view = 0\<rparr>"
  unfolding child_running_def running_memory.get_put
  by (simp_all add: put_mem_def shell_running_def active_term_def get_active_term_def line_ready_def boot_console_def)

lemma child_running_represents: "represents child_running (one_shell(0 := [2, 1]))"
proof -
  have "pcb_addr 1 \<noteq> pcb_addr 2" by (simp add: pcb_addr_def)
  then have p: "pcbs child_running (pcb_addr 1) = c_pcb 1 blank_pcb" "pcbs child_running (pcb_addr 2) = (c_pcb 2 blank_pcb)\<lparr>Parent_PID := 1\<rparr>"
    by (simp_all add: child_running_parts)
  have "procs_of (one_shell(0 := [2, 1])) = [2, 1]" by (simp add: procs_of_def one_shell_def)
  moreover have "parent_of child_running 1 = 0" "parent_of child_running 2 = 1" by (simp_all add: parent_of_def p c_pcb_def blank_pcb_def)
  ultimately show ?thesis
    by (simp add: represents_def holds_def flags_match_def one_shell_def top_of_def upt_rec p child_running_parts(4-)
        on_terminals_def c_pcb_def blank_pcb_def)
qed


end
