(* ===== verification/Loading.thy ===== *)
theory Loading
  imports Process_Table
begin

text \<open>
  What \<open>c_execute\<close> makes of a command line and of a program file: the first word is the name of the
  program, what follows the blank are its arguments, only a file that starts with the ELF
  magic number is a program, and the whole file is in the process's own page, at
  0x8048000, when the program is entered at the address the file gives.
\<close>

subsection \<open>The two loops\<close>

abbreviation (input) first_word :: "u8 list \<Rightarrow> u8 list" where
  "first_word cs \<equiv> takeWhile (\<lambda>c. c \<noteq> 32) cs"

lemma clear_name_store: "clear_name name m = store_bytes m name (replicate 101 0)"
  using fold_store_bytes [of name "\<lambda>_. 0" 101 m] by (simp add: clear_name_def map_replicate_const del: upt_rec_numeral)

lemma parse_name_word:
  assumes "cstr m command cs" "length cs < 100" "w = first_word cs" "i \<le> length w"
    "disjoint_regions name 101 command (Suc (length cs))"
  shows "parse_name (100 - i) i (0 < i \<and> i = length w \<and> length w < length cs) command name (store_bytes m name (take i w)) =
    (length w, 0 < length w \<and> length w < length cs, store_bytes m name w)"
  using assms(4)
proof (induction "length w - i" arbitrary: i)
  case 0
  then have i: "i = length w" by simp
  let ?m = "store_bytes m name w"
  have le: "length w \<le> length cs" using assms(3) by (simp add: length_takeWhile_le)
  have "?m (command + of_nat i) = m (command + of_nat i)"
    using assms(2,5) i le by (intro store_bytes_read_disjoint [OF disjoint_regions_sym [THEN iffD1, OF assms(5)]]) simp_all
  moreover have "m (command + of_nat i) = 32 \<or> m (command + of_nat i) = 0"
  proof (cases "length w < length cs")
    case True
    then have "cs ! length w = 32" using assms(3) nth_length_takeWhile [of "\<lambda>c. c \<noteq> 32" cs] by auto
    then show ?thesis using cstr_nth [OF assms(1), of i] True i by simp
  next
    case False
    then show ?thesis using cstr_end [OF assms(1)] le i by simp
  qed
  moreover obtain r where "100 - i = Suc r" using assms(2) le i by (cases "100 - i") auto
  ultimately show ?case using i by auto
next
  case (Suc d)
  then have i: "i < length w" by simp
  have le: "length w \<le> length cs" using assms(3) by (simp add: length_takeWhile_le)
  have read: "store_bytes m name (take n w) (command + of_nat j) = m (command + of_nat j)" if "j \<le> length cs" for n j
    using assms(2,5) le that by (intro store_bytes_read_disjoint [OF disjoint_regions_sym [THEN iffD1, OF assms(5)]]) simp_all
  have x: "m (command + of_nat i) = w ! i" "w ! i \<noteq> 32" "w ! i \<noteq> 0"
    using cstr_nth [OF assms(1), of i] cstr_nth_nz [OF assms(1), of i] nth_mem [OF i] i le assms(3)
    by (auto simp: takeWhile_nth dest: set_takeWhileD)
  have m: "(store_bytes m name (take i w))(name + of_nat i := w ! i) = store_bytes m name (take (Suc i) w)"
    using i store_bytes_snoc [of m name "take i w" "w ! i"] by (simp add: take_Suc_conv_app_nth)
  have blank: "m (command + of_nat (Suc i)) = 32 \<longleftrightarrow> Suc i = length w \<and> length w < length cs"
  proof (cases "Suc i < length w")
    case True
    then have "cs ! Suc i \<noteq> 32" using assms(3) nth_mem [OF True] by (metis (mono_tags, lifting) set_takeWhileD takeWhile_nth)
    then show ?thesis using cstr_nth [OF assms(1), of "Suc i"] True le by simp
  next
    case False
    then have s: "Suc i = length w" using i by simp
    show ?thesis
    proof (cases "length w < length cs")
      case True
      then have "cs ! length w = 32" using assms(3) nth_length_takeWhile [of "\<lambda>c. c \<noteq> 32" cs] by auto
      then show ?thesis using cstr_nth [OF assms(1), of "Suc i"] True s by simp
    next
      case False
      then show ?thesis using cstr_end [OF assms(1)] le s by simp
    qed
  qed
  obtain r where r: "100 - i = Suc r" "100 - Suc i = r" using assms(2) le i by (cases "100 - i") auto
  have "parse_name (Suc r) i (0 < i \<and> i = length w \<and> length w < length cs) command name (store_bytes m name (take i w)) =
      parse_name r (Suc i) (0 < Suc i \<and> Suc i = length w \<and> length w < length cs) command name (store_bytes m name (take (Suc i) w))"
    using x read [of i i] read [of "Suc i" "Suc i"] blank m i le by (simp add: Let_def)
  then show ?case using Suc(1) [of "Suc i"] Suc(2) i r by simp
qed

lemma parse_args_rest:
  assumes "cstr m command cs" "length cs < 100" "i + j \<le> length cs" "length args \<ge> length cs"
  shows "parse_args (100 - (i + j)) (i + j) j command m (take j (drop i cs) @ drop j args) (sz + int j) =
    (length cs - i, drop i cs @ drop (length cs - i) args, sz + int (length cs - i))"
  using assms(3)
proof (induction "length cs - (i + j)" arbitrary: j)
  case 0
  then have "i + j = length cs" by simp
  moreover from this obtain r where "100 - (i + j) = Suc r" using assms(2) by (cases "100 - (i + j)") auto
  moreover have "j = length cs - i" using calculation(1) by simp
  ultimately show ?case using cstr_end [OF assms(1)] by simp
next
  case (Suc d)
  then have lt: "i + j < length cs" by simp
  then obtain r where r: "100 - (i + j) = Suc r" "100 - (i + Suc j) = r" using assms(2) by (cases "100 - (i + j)") auto
  have x: "m (command + of_nat (i + j)) = cs ! (i + j)" "cs ! (i + j) \<noteq> 0"
    using cstr_nth [OF assms(1) lt] cstr_nth_nz [OF assms(1) lt] by simp_all
  have "length (take j (drop i cs)) = j" using lt by simp
  then have "(take j (drop i cs) @ drop j args)[j := cs ! (i + j)] = take (Suc j) (drop i cs) @ drop (Suc j) args"
    using lt assms(4) by (simp add: list_update_append take_Suc_conv_app_nth Cons_nth_drop_Suc [of j args, symmetric])
  then show ?case using Suc(1) [of "Suc j"] Suc(2) lt x r by (simp add: algebra_simps)
qed

subsection \<open>Splitting the command line\<close>

lemma command_split:
  assumes "cstr m command cs" "length cs < 100" "w = first_word cs" "disjoint_regions name 101 command (Suc (length cs))"
    "m1 = store_bytes (clear_name name m) name w"
  shows "parse_name 100 0 False command name (clear_name name m) = (length w, 0 < length w \<and> length w < length cs, m1)"
    "cstr m1 name w" "cstr m1 command cs"
proof -
  have le: "length w \<le> length cs" using assms(3) by (simp add: length_takeWhile_le)
  have apart: "disjoint_regions command (Suc (length cs)) name 101" by (rule disjoint_regions_sym [THEN iffD1, OF assms(4)])
  have c0: "cstr (clear_name name m) command cs"
    unfolding clear_name_store using assms(1,2) apart by (intro cstr_frame) simp_all
  show "parse_name 100 0 False command name (clear_name name m) = (length w, 0 < length w \<and> length w < length cs, m1)"
    using parse_name_word [OF c0 assms(2,3) _ assms(4), of 0] assms(5) by simp
  show "cstr m1 command cs"
    unfolding assms(5) using c0 assms(2) apart le by (intro cstr_frame) (simp_all add: disjoint_regions_mono)
  have "0 \<notin> set w" using assms(1,3) by (auto simp: cstr_def dest: set_takeWhileD)
  moreover have "m1 (name + of_nat (length w)) = 0"
    using le assms(2) by (simp add: assms(5) store_bytes_apply clear_name_store)
  ultimately show "cstr m1 name w" using le assms(2) by (simp add: cstr_def assms(5))
qed

subsection \<open>The program file\<close>

text \<open>The bytes of a file that lies on the disk image, outside the window: whatever is in the window,
  the driver reads these bytes.\<close>

definition program_file :: "kernel \<Rightarrow> u32 \<Rightarrow> u8 list \<Rightarrow> bool" where
  "program_file s ino bs \<longleftrightarrow> (\<forall>m. (\<forall>a. \<not> in_window a \<longrightarrow> m a = kernel_mem s a) \<longrightarrow>
    unat (get_length ino m (fs s)) = length bs \<and> file_readable m (fs s) ino 0 \<and> file_readable m (fs s) ino 24 \<and>
    file_bytes m (fs s) ino 0 (length bs) = bs)"

lemma image_in_window:
  assumes "in_region PROG_IMG n x" "n \<le> 0x3B8000"
  shows "in_window x"
proof -
  have d: "unat (x - PROG_IMG) < n" using assms(1) by (simp add: in_region_def)
  have "unat (PROG_IMG + (x - PROG_IMG)) = unat PROG_IMG + unat (x - PROG_IMG)"
    using d assms(2) by (subst unat_word_ariths) simp
  then have "unat x = 0x8048000 + unat (x - PROG_IMG)" by simp
  then have "unat x div 2 ^ 22 = 32" using d assms(2) by simp
  then have "unat (drop_bit 22 x) = unat (32 :: u32)" by (simp add: unat_drop32)
  then show ?thesis unfolding in_window_def using word_unat_eq_iff by blast
qed

lemma file_bytes_from:
  assumes "n + unat off \<le> k"
  shows "file_bytes m st ino off n = take n (drop (unat off) (file_bytes m st ino 0 k))"
  using assms by (auto simp: file_bytes_def intro!: nth_equalityI)

lemma load_program_image:
  assumes "program_file s ino bs" "28 \<le> length bs" "length bs \<le> 0x3B8000" "load_program ino s = (eip, s')"
  shows "bytes_of32 eip = take 4 (drop 24 bs)" "load_bytes (view_mem s') PROG_IMG (length bs) = bs"
proof -
  let ?s = "remap (of_int (MB_4 + process_counter s * MB_4)) s"
  have out: "view_mem ?s a = kernel_mem s a" if "\<not> in_window a" for a using that by (simp add: view_mem_def remap_def)
  have fs: "fs ?s = fs s" by (simp add: remap_def)
  define m1 where "m1 = store_bytes (view_mem ?s) PROG_IMG (take 4 (drop 24 bs))"
  have f: "unat (get_length ino (view_mem ?s) (fs s)) = length bs" "file_readable (view_mem ?s) (fs s) ino 24"
    "file_bytes (view_mem ?s) (fs s) ino 0 (length bs) = bs"
    using assms(1) out unfolding program_file_def by blast+
  have "min (get_length ino (view_mem ?s) (fs s)) 4 = 4"
    using f(1) assms(2) by (simp add: min_def word_le_nat_alt)
  then have r1: "snd (read_data ino 24 PROG_IMG 4 (view_mem ?s) (fs s)) = m1"
    using f file_bytes_from [of 4 24 "length bs" "view_mem ?s" "fs s" ino] assms(2)
    by (simp add: read_data_outcome m1_def)
  have "\<not> in_region PROG_IMG 4 a" if "\<not> in_window a" for a using image_in_window [of 4 a] that by auto
  then have out1: "m1 a = kernel_mem s a" if "\<not> in_window a" for a
    using out [OF that] that assms(2) by (simp add: m1_def store_bytes_outside)
  have g: "unat (get_length ino m1 (fs s)) = length bs" "file_readable m1 (fs s) ino 0" "file_bytes m1 (fs s) ino 0 (length bs) = bs"
    using assms(1) out1 unfolding program_file_def by blast+
  have "min (get_length ino m1 (fs s)) 0x400000 = get_length ino m1 (fs s)"
    using g(1) assms(3) by (simp add: min_def word_le_nat_alt)
  then have r2: "snd (read_data ino 0 PROG_IMG 0x400000 m1 (fs s)) = store_bytes m1 PROG_IMG bs"
    using g by (simp add: read_data_outcome)
  have "load_program ino s = (load32 m1 PROG_IMG, put_mem (store_bytes m1 PROG_IMG bs) ?s)"
    using r1 r2 fs by (auto simp: load_program_def Let_def split: prod.splits)
  then have e: "eip = load32 m1 PROG_IMG" "s' = put_mem (store_bytes m1 PROG_IMG bs) ?s" using assms(4) by simp_all
  show "bytes_of32 eip = take 4 (drop 24 bs)"
    unfolding e bytes_of32_load32 m1_def using assms(2) by (intro load_store_bytes) simp_all
  show "load_bytes (view_mem s') PROG_IMG (length bs) = bs"
    unfolding e running_memory.get_put using assms(3) by (intro load_store_bytes) simp_all
qed

text \<open>What comes after loading leaves memory alone.\<close>

lemma start_program_memory:
  assumes "take_number s = (count, s1)" "count \<le> 5" "load_program ino s1 = (eip, s2)"
  shows "\<exists>s'. start_program halt env ino s = Some (Enter_user eip 0x83FFFFC, s') \<and> view_mem s' = view_mem s2"
proof -
  have upd: "view_mem (upd_pcb p f x) = view_mem x" for p f x by (simp add: upd_pcb_def view_mem_def window_page_def cong: if_cong)
  have "view_mem (enter_terminal x) = view_mem x" for x
    by (simp add: enter_terminal_def Let_def upd_pcb_def view_mem_def window_page_def cong: if_cong)
  moreover have "view_mem (x\<lparr>PCB_ptr := p\<rparr>) = view_mem x" for x p by (simp add: view_mem_def window_page_def cong: if_cong)
  ultimately show ?thesis using assms upd by (simp add: start_program_def Let_def)
qed

lemma program_file_number: "program_file (s\<lparr>PID_arr := a, process_counter := k\<rparr>) ino bs = program_file s ino bs"
  by (simp add: program_file_def)

subsection \<open>Finding the program\<close>

lemma strncmp_bytes:
  assumes "load_bytes m s2 (length xs) = xs" "0 \<notin> set xs" "n = of_nat (length xs)" "length xs < 2 ^ 32"
  shows "strncmp m s1 s2 n = 0 \<longleftrightarrow> load_bytes m s1 (length xs) = xs"
proof -
  have len: "unat n = length xs" using assms(3,4) by simp
  have x: "m (s2 + of_nat j) = xs ! j" "xs ! j \<noteq> 0" if "j < length xs" for j
    using that assms(1,2) nth_load_bytes [of j "length xs" m s2] nth_mem [of j xs] by metis+
  have "strncmp m s1 s2 n = 0 \<longleftrightarrow> (\<forall>j < length xs. m (s1 + of_nat j) = xs ! j)"
  proof
    assume z: "strncmp m s1 s2 n = 0"
    have "m (s1 + of_nat j) = xs ! j" if "j < length xs" for j
      using that
    proof (induction j rule: less_induct)
      case (less j)
      then have "\<forall>k < j. m (s1 + of_nat k) \<noteq> 0" using x(2) by simp
      then show ?case using z less.prems x(1) unfolding strncmp_zero_iff len by simp
    qed
    then show "\<forall>j < length xs. m (s1 + of_nat j) = xs ! j" by simp
  qed (simp add: strncmp_zero_iff len x(1))
  then show ?thesis by (auto simp: list_eq_iff_nth_eq)
qed

abbreviation (input) ELF_MAGIC :: "u8 list" where "ELF_MAGIC \<equiv> [0x7F, 0x45, 0x4C, 0x46]"

text \<open>Memory when the directory is searched: the name and the magic number are in the local arrays.\<close>

definition search_mem :: "env \<Rightarrow> u8 list \<Rightarrow> mem \<Rightarrow> mem" where
  "search_mem env w m = store_bytes (store_bytes (clear_name (local_name env) m) (local_name env) w) (local_magic env) ELF_MAGIC"

text \<open>The first four bytes of a file, which filling in the directory entry does not change.\<close>

definition magic_of :: "env \<Rightarrow> mem \<Rightarrow> fs_state \<Rightarrow> u32 \<Rightarrow> u8 list \<Rightarrow> bool" where
  "magic_of env m st ino bs \<longleftrightarrow> length bs = 4 \<and> (\<forall>m'. changes_only (local_dentry env) 44 m m' \<longrightarrow>
     file_readable m' st ino 0 \<and> 4 \<le> get_length ino m' st \<and> file_bytes m' st ino 0 4 = bs)"

lemma check_program_outcome:
  assumes "m2 = store_bytes (view_mem s) (local_magic env) ELF_MAGIC"
    "lookup_ready (local_name env) (local_dentry env) w m2 (fs s)"
    "disjoint_regions (local_dentry env) 44 (local_magic env) 4" "disjoint_regions (local_check env) 4 (local_magic env) 4"
    "case map_of (directory_of m2 (fs s)) w of None \<Rightarrow> True | Some (ty, ino) \<Rightarrow> magic_of env m2 (fs s) ino bs"
  shows "\<exists>m3 a. check_program env s =
    Some (case map_of (directory_of m2 (fs s)) w of None \<Rightarrow> None | Some (ty, ino) \<Rightarrow> if bs = ELF_MAGIC then Some ino else None,
      put_mem m3 (s\<lparr>fs := (fs s)\<lparr>dentry_addr := a\<rparr>\<rparr>))"
proof (cases "map_of (directory_of m2 (fs s)) w")
  case None
  then obtain a where "read_dentry_by_name (local_name env) (local_dentry env) m2 (fs s) = Some (-1, m2, (fs s)\<lparr>dentry_addr := a\<rparr>)"
    using files.absent [OF assms(2)] by blast
  then show ?thesis using None assms(1) by (auto simp: check_program_def Let_def)
next
  case (Some e)
  obtain ty ino where e: "e = (ty, ino)" by (cases e)
  obtain m a where m: "read_dentry_by_name (local_name env) (local_dentry env) m2 (fs s) = Some (0, m, (fs s)\<lparr>dentry_addr := a\<rparr>)"
    "load32 m (local_dentry env + 36) = ino" "changes_only (local_dentry env) 44 m2 m"
    using files.found [OF assms(2), of ty ino] Some e by blast
  let ?st = "(fs s)\<lparr>dentry_addr := a\<rparr>"
  have bs: "length bs = 4" "file_readable m (fs s) ino 0" "4 \<le> get_length ino m (fs s)" "file_bytes m (fs s) ino 0 4 = bs"
    using assms(5) Some e m(3) by (auto simp: magic_of_def)
  have st: "file_readable m ?st ino 0 = file_readable m (fs s) ino 0" "get_length ino m ?st = get_length ino m (fs s)"
    "file_bytes m ?st ino 0 4 = file_bytes m (fs s) ino 0 4"
    by (simp_all add: file_readable_def get_length_def file_bytes_def file_byte_def block_base_def blocks_ok_def block_ok_def)
  have four: "length ELF_MAGIC = 4" by simp
  define m3 where "m3 = store_bytes m (local_check env) bs"
  have "min (get_length ino m (fs s)) 4 = 4" using bs(3) by (simp add: min_def)
  then have r: "read_data ino 0 (local_check env) 4 m ?st = (4, m3)"
    using bs st by (simp add: read_data_outcome m3_def)
  have "load_bytes m2 (local_magic env) 4 = ELF_MAGIC" unfolding assms(1) by (rule load_store_bytes) simp_all
  then have "load_bytes m (local_magic env) 4 = ELF_MAGIC"
    using changes_only_load_bytes [OF m(3) assms(3)] by simp
  then have "load_bytes m3 (local_magic env) (length ELF_MAGIC) = ELF_MAGIC"
    unfolding m3_def four using disjoint_regions_sym [THEN iffD1, OF assms(4)] bs(1) by (simp add: load_bytes_store_disjoint)
  then have "strncmp m3 (local_check env) (local_magic env) 4 = 0 \<longleftrightarrow> load_bytes m3 (local_check env) (length ELF_MAGIC) = ELF_MAGIC"
    by (rule strncmp_bytes) simp_all
  also have "load_bytes m3 (local_check env) (length ELF_MAGIC) = bs" unfolding four using bs(1) by (simp add: m3_def)
  finally have "strncmp m3 (local_check env) (local_magic env) 4 = 0 \<longleftrightarrow> bs = ELF_MAGIC" .
  moreover have "put_mem m3 (put_mem m x) = put_mem m3 x" for x by (rule running_memory.put_put)
  ultimately show ?thesis using m(1,2) r Some e assms(1) by (auto simp: check_program_def Let_def)
qed

lemma get_args_put [simp]: "get_args (put_mem m s) = get_args s" "arg_size (put_mem m s) = arg_size s" "fs (put_mem m s) = fs s"
  by (simp_all add: put_mem_def)

lemma view_upd_args: "view_mem (s\<lparr>get_args := xs, arg_size := k\<rparr>) = view_mem s"
  by (simp add: view_mem_def window_page_def cong: if_cong)

lemma parse_command_outcome:
  assumes "cstr (view_mem s) command cs" "length cs < 100" "w = first_word cs" "w \<noteq> []"
    "disjoint_regions (local_name env) 101 command (Suc (length cs))" "length (get_args s) = 1024"
    "m1 = store_bytes (clear_name (local_name env) (view_mem s)) (local_name env) w" "rest = drop (Suc (length w)) cs"
  shows "parse_command env command s = (if length w < length cs
    then (put_mem m1 s)\<lparr>get_args := rest @ 0 # drop (Suc (length rest)) (get_args s), arg_size := arg_size s + int (length rest)\<rparr>
    else put_mem m1 s)"
proof -
  note split = command_split [OF assms(1-3,5,7)]
  have "parse_args (100 - Suc (length w)) (Suc (length w)) 0 command m1 (get_args s) (arg_size s) =
      (length rest, rest @ drop (length rest) (get_args s), arg_size s + int (length rest))" if "length w < length cs"
    using parse_args_rest [OF split(3) assms(2), of "Suc (length w)" 0 "get_args s" "arg_size s"] assms(2,6,8) that by simp
  moreover have "(rest @ drop (length rest) (get_args s))[length rest := 0] = rest @ 0 # drop (Suc (length rest)) (get_args s)"
  proof -
    have "length rest < length (get_args s)" using assms(2,6,8) by simp
    then show ?thesis by (simp add: list_update_append Cons_nth_drop_Suc [symmetric])
  qed
  ultimately show ?thesis using split(1) assms(4) by (simp add: parse_command_def Let_def)
qed

subsection \<open>Properties\<close>

text \<open>C5: \<open>c_execute\<close> takes the first word of the command line as a file name and stores the rest of the
  line as the arguments.  If the name is in the directory and its file starts with the ELF
  magic number, it goes on to start the program of that inode; otherwise it returns -1.
  Either way no process, descriptor or terminal has been touched so far.\<close>

theorem execute_command:
  assumes "inti_flag s \<noteq> 0" "command \<noteq> 0" "cstr (view_mem s) command cs" "length cs < 100" "w = first_word cs"
    "disjoint_regions (local_name env) 101 command (Suc (length cs))" "length (get_args s) = 1024"
    "m2 = search_mem env w (view_mem s)" "lookup_ready (local_name env) (local_dentry env) w m2 (fs s)"
    "disjoint_regions (local_dentry env) 44 (local_magic env) 4" "disjoint_regions (local_check env) 4 (local_magic env) 4"
    "case map_of (directory_of m2 (fs s)) w of None \<Rightarrow> True | Some (ty, ino) \<Rightarrow> magic_of env m2 (fs s) ino bs"
    "rest = drop (Suc (length w)) cs"
  shows "\<exists>s1. same_procs s s1 \<and>
    c_execute n env command s =
      (case map_of (directory_of m2 (fs s)) w of
         None \<Rightarrow> Some (Returned (-1), s1)
       | Some (ty, ino) \<Rightarrow> if bs = ELF_MAGIC then start_program (c_halt n env 0) env ino s1 else Some (Returned (-1), s1)) \<and>
    (if length w < length cs then get_args s1 = rest @ 0 # drop (Suc (length rest)) (get_args s) \<and> arg_size s1 = arg_size s + int (length rest)
     else get_args s1 = get_args s \<and> arg_size s1 = arg_size s)"
proof -
  have w: "w \<noteq> []" using assms(9) by (simp add: lookup_ready_def)
  let ?p = "parse_command env command s"
  note p = parse_command_outcome [OF assms(3-5) w assms(6,7) refl assms(13)]
  have "view_mem ?p = store_bytes (clear_name (local_name env) (view_mem s)) (local_name env) w" "fs ?p = fs s"
    unfolding p by (auto simp: view_upd_args running_memory.get_put)
  then have m2: "m2 = store_bytes (view_mem ?p) (local_magic env) ELF_MAGIC" "fs ?p = fs s" using assms(8) by (simp_all add: search_mem_def)
  obtain m3 a where c: "check_program env ?p =
    Some (case map_of (directory_of m2 (fs s)) w of None \<Rightarrow> None | Some (ty, ino) \<Rightarrow> if bs = ELF_MAGIC then Some ino else None,
      put_mem m3 (?p\<lparr>fs := (fs s)\<lparr>dentry_addr := a\<rparr>\<rparr>))"
    using check_program_outcome [OF m2(1), unfolded m2(2), OF assms(9-12)] by blast
  let ?s1 = "put_mem m3 (?p\<lparr>fs := (fs s)\<lparr>dentry_addr := a\<rparr>\<rparr>)"
  have f: "find_program env command s =
    Some (case map_of (directory_of m2 (fs s)) w of None \<Rightarrow> None | Some (ty, ino) \<Rightarrow> if bs = ELF_MAGIC then Some ino else None, ?s1)"
    using assms(1,2) c by (simp add: find_program_def)
  have "c_execute n env command s =
      (case map_of (directory_of m2 (fs s)) w of
         None \<Rightarrow> Some (Returned (-1), ?s1)
       | Some (ty, ino) \<Rightarrow> if bs = ELF_MAGIC then start_program (c_halt n env 0) env ino ?s1 else Some (Returned (-1), ?s1))"
    unfolding c_execute_def execute_with_def f by (simp split: option.splits prod.splits)
  moreover have "get_args ?s1 = get_args ?p" "arg_size ?s1 = arg_size ?p" by simp_all
  ultimately show ?thesis using find_program_keeps [OF assms(1) f] p by (intro exI [of _ ?s1]) auto
qed

text \<open>A disk with the program \<open>a\<close> of 28 bytes, and the command line \<open>a x\<close> in memory.\<close>

definition elf_bytes :: "u8 list" where
  "elf_bytes = [0x7F, 0x45, 0x4C, 0x46] @ replicate 20 0 @ [0x00, 0x80, 0x04, 0x08]"

definition elf_disk :: mem where
  "elf_disk = store_bytes (store_bytes (store_bytes user_disk 0x401000 [28]) 0x402000 elf_bytes) 0x40000 [97, 32, 120, 0]"

definition shell_with_program :: kernel where
  "shell_with_program = put_mem elf_disk shell_running"

lemma shell_with_program_parts:
  "view_mem shell_with_program = elf_disk" "fs shell_with_program = mounted" "inti_flag shell_with_program = 1"
  "get_args shell_with_program = replicate 1024 0" "arg_size shell_with_program = 0"
  unfolding shell_with_program_def running_memory.get_put by (simp_all add: put_mem_def) (simp add: shell_running_def put_mem_def)

text \<open>What the file system driver needs to see of that disk.\<close>

definition elf_image :: "mem \<Rightarrow> bool" where
  "elf_image m \<longleftrightarrow> load_bytes m 0x10000 44 = 97 # replicate 31 0 @ 2 # replicate 11 0 \<and> load_bytes m 0x400000 12 = [1, 0, 0, 0, 1, 0, 0, 0, 1, 0, 0, 0] \<and>
    load_bytes m 0x401000 8 = [28, 0, 0, 0, 0, 0, 0, 0] \<and> load_bytes m 0x402000 28 = elf_bytes"

lemma elf_disk_image: "elf_image elf_disk"
  unfolding elf_image_def by (intro conjI; code_simp)

lemma elf_image_frame:
  assumes "elf_image m" "\<And>a. in_region 0x10000 44 a \<or> in_region 0x400000 0x3000 a \<Longrightarrow> m' a = m a"
  shows "elf_image m'"
proof -
  have "load_bytes m' 0x10000 44 = load_bytes m 0x10000 44" using assms(2) by (intro load_bytes_cong) auto
  moreover have "load_bytes m' (0x400000 + of_nat i) n = load_bytes m (0x400000 + of_nat i) n" if "i + n \<le> 0x3000" for i n
    using assms(2) in_region_offset [OF that, of "0x400000"] that by (intro load_bytes_cong) auto
  from this [of 0 12] this [of "0x1000" 8] this [of "0x2000" 28] calculation show ?thesis using assms(1) by (simp add: elf_image_def)
qed

lemma load32_from: "load_bytes m a n = bs \<Longrightarrow> i + 4 \<le> n \<Longrightarrow> bytes_of32 (load32 m (a + of_nat i)) = take 4 (drop i bs)"
  unfolding bytes_of32_load32 by (auto intro!: nth_equalityI simp: add.assoc)

lemma elf_image_words:
  assumes "elf_image m"
  shows "load32 m 0x10020 = 2" "load32 m 0x10024 = 0" "load32 m 0x400000 = 1" "load32 m 0x400004 = 1" "load32 m 0x400008 = 1"
    "load32 m 0x401000 = 28" "load32 m 0x401004 = 0"
proof -
  have b: "bytes_of32 v = bytes_of32 w \<Longrightarrow> v = w" for v w by (simp add: bytes_of32_inj)
  have r: "replicate 3 (0 :: u8) = [0, 0, 0]" "replicate 4 (0 :: u8) = [0, 0, 0, 0]" by (simp_all add: numeral_eq_Suc)
  note e = assms [unfolded elf_image_def]
  show "load32 m 0x10020 = 2" by (rule b) (use load32_from [of m "0x10000" 44 _ 32] e in \<open>simp add: bytes_of32_def r\<close>)
  show "load32 m 0x10024 = 0" by (rule b) (use load32_from [of m "0x10000" 44 _ 36] e in \<open>simp add: bytes_of32_def r\<close>)
  show "load32 m 0x400000 = 1" by (rule b) (use load32_from [of m "0x400000" 12 _ 0] e in \<open>simp add: bytes_of32_def r\<close>)
  show "load32 m 0x400004 = 1" by (rule b) (use load32_from [of m "0x400000" 12 _ 4] e in \<open>simp add: bytes_of32_def r\<close>)
  show "load32 m 0x400008 = 1" by (rule b) (use load32_from [of m "0x400000" 12 _ 8] e in \<open>simp add: bytes_of32_def r\<close>)
  show "load32 m 0x401000 = 28" by (rule b) (use load32_from [of m "0x401000" 8 _ 0] e in \<open>simp add: bytes_of32_def r\<close>)
  show "load32 m 0x401004 = 0" by (rule b) (use load32_from [of m "0x401000" 8 _ 4] e in \<open>simp add: bytes_of32_def r\<close>)
qed

lemma elf_image_file:
  assumes "elf_image m"
  shows "get_length 0 m mounted = 28" "file_readable m mounted 0 0" "file_readable m mounted 0 24" "file_bytes m mounted 0 0 28 = elf_bytes"
proof -
  note w = elf_image_words [OF assms]
  show "get_length 0 m mounted = 28" using w by (simp add: get_length_def mounted_def)
  show "file_readable m mounted 0 0" "file_readable m mounted 0 24"
    using w by (simp_all add: file_readable_def Let_def blocks_ok_def mounted_def block_number_def block_base_def)
  have "file_byte m mounted (inode_addr mounted + 0 * 4096) i = m (0x402000 + of_nat i)" if "i < 28" for i
    using w that by (simp add: file_byte_def mounted_def block_number_def block_base_def)
  then have "file_bytes m mounted 0 0 28 = load_bytes m 0x402000 28"
    by (simp add: file_bytes_def load_bytes_def del: upt_rec_numeral)
  then show "file_bytes m mounted 0 0 28 = elf_bytes" using assms by (simp add: elf_image_def)
qed

lemma elf_image_directory:
  assumes "elf_image m"
  shows "map_of (directory_of m mounted) [97] = Some (2, 0)" "directory_clear m mounted [97]"
    "unat (num_dentry m (fs_addr mounted)) = 1" "entry_at mounted 0 = 0x10000"
proof -
  note w = elf_image_words [OF assms]
  have "load_bytes m 0x10000 32 = take 32 (load_bytes m 0x10000 44)" by (auto intro: nth_equalityI)
  then have "load_bytes m 0x10000 32 = 97 # replicate 31 0" using assms by (simp add: elf_image_def)
  then have name: "entry_name m 0x10000 = [97]" by (simp add: entry_name_def)
  show n: "unat (num_dentry m (fs_addr mounted)) = 1" using w by (simp add: num_dentry_def mounted_def)
  show e: "entry_at mounted 0 = 0x10000" by (simp add: entry_at_def mounted_def)
  show "map_of (directory_of m mounted) [97] = Some (2, 0)" unfolding directory_of_def n by (simp add: e name w)
  show "directory_clear m mounted [97]" unfolding directory_clear_def n by (simp add: e name dentry_ok_def hides_def long_entry_def)
qed

lemma put_mem_represents: "represents s st \<Longrightarrow> represents (put_mem m s) st"
  unfolding represents_def by (auto intro: holds_cong simp: flags_match_def put_mem_def active_term_def)

lemma elf_search_image: "elf_image (search_mem sample_env [97] elf_disk)"
proof (rule elf_image_frame [OF elf_disk_image])
  fix a :: u32
  assume a: "in_region 0x10000 44 a \<or> in_region 0x400000 0x3000 a"
  have "disjoint_regions 0x10000 44 (0x30100 :: u32) 101" "disjoint_regions 0x10000 44 (0x30300 :: u32) 4"
    "disjoint_regions 0x30100 101 (0x400000 :: u32) 0x3000" "disjoint_regions 0x30300 4 (0x400000 :: u32) 0x3000"
    by (rule disjoint_regionsI; simp)+
  then have "\<not> in_region 0x30100 101 a" "\<not> in_region 0x30300 4 a" using a unfolding disjoint_regions_def by blast+
  moreover have "in_region 0x30100 101 a" if "in_region 0x30100 1 a" using that by (simp add: in_region_def)
  ultimately show "search_mem sample_env [97] elf_disk a = elf_disk a"
    by (simp only: search_mem_def clear_name_store sample_env_def env.simps) (auto simp: store_bytes_outside in_region_def)
qed

lemma elf_magic: "magic_of sample_env (search_mem sample_env [97] elf_disk) mounted 0 ELF_MAGIC"
  unfolding magic_of_def
proof (intro conjI allI impI)
  fix m
  assume ch: "changes_only (local_dentry sample_env) 44 (search_mem sample_env [97] elf_disk) m"
  have "elf_image m"
  proof (rule elf_image_frame [OF elf_search_image])
    fix a :: u32
    assume a: "in_region 0x10000 44 a \<or> in_region 0x400000 0x3000 a"
    have "disjoint_regions 0x10000 44 (0x30000 :: u32) 44" "disjoint_regions 0x30000 44 (0x400000 :: u32) 0x3000"
      by (rule disjoint_regionsI; simp)+
    then show "m a = search_mem sample_env [97] elf_disk a"
      using a ch unfolding disjoint_regions_def changes_only_def by (auto simp: sample_env_def)
  qed
  note f = elf_image_file [OF this]
  show "file_readable m mounted 0 0" "4 \<le> get_length 0 m mounted" using f by simp_all
  show "file_bytes m mounted 0 0 4 = ELF_MAGIC"
    using file_bytes_from [of 4 0 28 m mounted 0] f(4) by (simp add: elf_bytes_def)
qed simp

lemma sample_env_locals: "local_name sample_env = 0x30100" "local_dentry sample_env = 0x30000"
  by (simp_all add: sample_env_def)

lemma elf_lookup: "lookup_ready 0x30100 0x30000 [97] (search_mem sample_env [97] elf_disk) mounted"
proof -
  note d = elf_image_directory [OF elf_search_image]
  have "cstr elf_disk 0x40000 [97, 32, 120]" by (rule cstr_bytes) (code_simp, simp_all)
  from command_split(2) [OF this _ refl _ refl, of "0x30100"]
  have "cstr (store_bytes (clear_name 0x30100 elf_disk) 0x30100 [97]) 0x30100 [97]"
    by (simp add: disjoint_regionsI)
  then have "cstr (search_mem sample_env [97] elf_disk) 0x30100 [97]"
    unfolding search_mem_def sample_env_def env.simps by (rule cstr_frame) (simp_all add: disjoint_regionsI)
  moreover have "disjoint_regions 0x30000 44 (0x30100 :: u32) (Suc (length [97 :: u8]))" "disjoint_regions 0x30000 44 (fs_addr mounted) 4"
    by (rule disjoint_regionsI; simp add: mounted_def)+
  moreover have "disjoint_regions 0x30000 44 (0x10000 :: u32) 44"
    by (subst disjoint_regions_sym, rule disjoint_regionsI) simp_all
  ultimately show ?thesis unfolding lookup_ready_def d(3) using d(2,4) by simp
qed

theorem execute_command_witness:
  "\<exists>s1. same_procs shell_with_program s1 \<and>
     c_execute 1 sample_env 0x40000 shell_with_program = start_program (c_halt 1 sample_env 0) sample_env 0 s1 \<and>
     get_args s1 = [120] @ 0 # replicate 1022 0 \<and> arg_size s1 = 1"
proof -
  have c: "cstr (view_mem shell_with_program) 0x40000 [97, 32, 120]"
    unfolding shell_with_program_parts by (rule cstr_bytes) (code_simp, simp_all)
  have "disjoint_regions (local_name sample_env) 101 0x40000 (Suc (length [97, 32, 120 :: u8]))"
    "disjoint_regions (local_dentry sample_env) 44 (local_magic sample_env) 4"
    "disjoint_regions (local_check sample_env) 4 (local_magic sample_env) 4"
    by (rule disjoint_regionsI; simp add: sample_env_def)+
  moreover have "drop (Suc (Suc 0)) (replicate 1024 (0 :: u8)) = replicate 1022 0" by simp
  ultimately show ?thesis
    using execute_command [of shell_with_program "0x40000" "[97, 32, 120]" "[97]" sample_env _ ELF_MAGIC "[120]" 1, OF _ _ c _ _ _ _ refl]
      elf_lookup elf_magic elf_image_directory(1) [OF elf_search_image] shell_with_program_parts
    by (simp add: sample_env_locals)
qed

text \<open>C6: a program is entered with its whole file in its own page: the bytes at 0x8048000 are the bytes
  of the file, and the entry point is the word at offset 24 of the file.\<close>

theorem program_image_loaded:
  assumes "represents s st" "lowest_free st k" "program_file s ino bs" "28 \<le> length bs" "length bs \<le> 0x3B8000"
  shows "\<exists>eip s'. start_program halt env ino s = Some (Enter_user eip 0x83FFFFC, s') \<and> bytes_of32 eip = take 4 (drop 24 bs) \<and>
    load_bytes (view_mem s') 0x8048000 (length bs) = bs \<and> window_page s' = process_page (of_nat k)"
proof -
  have h: "holds s st" using assms(1) by (simp add: represents_def)
  have "\<not> full st" using assms(2) by (auto simp: full_def lowest_free_def)
  then obtain j where j: "take_number s = (j - 1, s\<lparr>PID_arr := (PID_arr s)[j - 1 := 1], process_counter := int j\<rparr>)" "lowest_free st j"
    using take_number_eq [OF h] by blast
  let ?s1 = "s\<lparr>PID_arr := (PID_arr s)[j - 1 := 1], process_counter := int j\<rparr>"
  obtain eip s2 where l: "load_program ino ?s1 = (eip, s2)" by (cases "load_program ino ?s1")
  have "j - 1 \<le> 5" using j(2) by (auto simp: lowest_free_def)
  from start_program_memory [OF j(1) this l] obtain s' where
    s': "start_program halt env ino s = Some (Enter_user eip 0x83FFFFC, s')" "view_mem s' = view_mem s2" by blast
  have "program_file ?s1 ino bs" using assms(3) by (simp add: program_file_number)
  note image = load_program_image [OF this assms(4,5) l]
  have "window_page s' = process_page (of_nat k)"
    using start_represents [OF assms(1) refl assms(2), of halt env ino] s'(1) by auto
  then show ?thesis using s' image by simp
qed

theorem program_image_loaded_witness:
  "\<exists>s'. start_program (\<lambda>_. None) sample_env 0 shell_with_program = Some (Enter_user 0x8048000 0x83FFFFC, s') \<and>
     load_bytes (view_mem s') 0x8048000 28 = elf_bytes \<and> window_page s' = process_page 2"
proof -
  have r: "represents shell_with_program one_shell"
    using shell_running_represents(1) put_mem_represents by (simp add: shell_with_program_def)
  have low: "\<not> in_window a" if "in_region 0x10000 44 a \<or> in_region 0x400000 0x3000 a" for a
  proof
    assume "in_window a"
    then have "unat (drop_bit 22 a) = unat (32 :: u32)" by (simp add: in_window_def)
    then have big: "0x8000000 \<le> unat a" by (simp add: unat_drop32)
    have "unat (b + (a - b)) \<le> unat b + unat (a - b)" for b :: u32 by (rule unat_word_ariths(1) [THEN eq_imp_le, THEN le_trans]) simp
    from this [of "0x10000"] this [of "0x400000"] show False using that big by (auto simp: in_region_def)
  qed
  have k: "kernel_mem shell_with_program a = elf_disk a" if "\<not> in_window a" for a
    using fun_cong [OF shell_with_program_parts(1), of a] that by (simp add: view_mem_def)
  have "program_file shell_with_program 0 elf_bytes"
    unfolding program_file_def shell_with_program_parts(2)
  proof (intro allI impI)
    fix m assume "\<forall>a. \<not> in_window a \<longrightarrow> m a = kernel_mem shell_with_program a"
    then have "elf_image m" using low k by (intro elf_image_frame [OF elf_disk_image]) auto
    from elf_image_file [OF this] show "unat (get_length 0 m mounted) = length elf_bytes \<and> file_readable m mounted 0 0 \<and>
        file_readable m mounted 0 24 \<and> file_bytes m mounted 0 0 (length elf_bytes) = elf_bytes"
      by (simp add: elf_bytes_def)
  qed
  from program_image_loaded [OF r one_shell_free this, of "\<lambda>_. None" sample_env]
  obtain eip s' where s': "start_program (\<lambda>_. None) sample_env 0 shell_with_program = Some (Enter_user eip 0x83FFFFC, s')"
    "bytes_of32 eip = take 4 (drop 24 elf_bytes)" "load_bytes (view_mem s') 0x8048000 28 = elf_bytes" "window_page s' = process_page 2"
    by (auto simp: elf_bytes_def)
  moreover have "bytes_of32 eip = bytes_of32 0x8048000" using s'(2) by (simp add: elf_bytes_def bytes_of32_def)
  then have "eip = 0x8048000" by (simp add: bytes_of32_inj)
  ultimately show ?thesis by blast
qed

end
