(* ===== verification/Printf.thy ===== *)
theory Printf
  imports Console_Frame Lib_String
begin

text \<open>
  \<open>printf\<close> of \<^verbatim>\<open>src/student-distrib/lib.c\<close>.  The arguments are the words on the stack from \<open>esp\<close> on; the
  local arrays that hold a number being printed, of which one is alive at a time, are the
  bytes at \<open>conv_buf\<close>.  The specification takes a format apart into items and says what
  text each item stands for; the theorem says that \<open>printf\<close> prints that text.
\<close>

subsection \<open>The routine\<close>

text \<open>The jump back to \<open>format_char_switch\<close>: where the conversion character is, and whether a \<open>#\<close> came before.\<close>

partial_function (option) skip_alternate :: "mem \<Rightarrow> u32 \<Rightarrow> bool \<Rightarrow> (u32 \<times> bool) option" where
  "skip_alternate m buf alternate = (if m buf = 35 then skip_alternate m (buf + 1) True else Some (buf, alternate))"

definition print_hex :: "u32 \<Rightarrow> bool \<Rightarrow> u32 \<Rightarrow> mem \<Rightarrow> console \<Rightarrow> (mem \<times> console) option" where
  "print_hex conv_buf alternate v m c =
    (if \<not> alternate then do {
       m \<leftarrow> itoa m v conv_buf 16;
       (_, c) \<leftarrow> puts m conv_buf c;
       Some (m, c)
     } else do {
       m \<leftarrow> itoa m v (conv_buf + 8) 16;
       starting_index \<leftarrow> strlen m (conv_buf + 8);
       let m = fold (\<lambda>i m. m(conv_buf + of_int i := 48)) [sint starting_index..7] m;
       (_, c) \<leftarrow> puts m (conv_buf + starting_index) c;
       Some (m, c)
     })"

definition print_unsigned :: "u32 \<Rightarrow> u32 \<Rightarrow> mem \<Rightarrow> console \<Rightarrow> (mem \<times> console) option" where
  "print_unsigned conv_buf v m c = do {
     m \<leftarrow> itoa m v conv_buf 10;
     (_, c) \<leftarrow> puts m conv_buf c;
     Some (m, c)
   }"

definition print_signed :: "u32 \<Rightarrow> u32 \<Rightarrow> mem \<Rightarrow> console \<Rightarrow> (mem \<times> console) option" where
  "print_signed conv_buf v m c = do {
     m \<leftarrow> (if sint v < 0 then itoa (m(conv_buf := 45)) (- v) (conv_buf + 1) 10 else itoa m v conv_buf 10);
     (_, c) \<leftarrow> puts m conv_buf c;
     Some (m, c)
   }"

text \<open>One conversion; the new argument pointer, memory and console.\<close>

definition convert :: "u32 \<Rightarrow> bool \<Rightarrow> u8 \<Rightarrow> u32 \<Rightarrow> mem \<Rightarrow> console \<Rightarrow> (u32 \<times> mem \<times> console) option" where
  "convert conv_buf alternate f esp m c =
    (if f = 37 then do { c \<leftarrow> putc 37 c; Some (esp, m, c) }
     else if f = 120 then do { (m, c) \<leftarrow> print_hex conv_buf alternate (load32 m esp) m c; Some (esp + 4, m, c) }
     else if f = 117 then do { (m, c) \<leftarrow> print_unsigned conv_buf (load32 m esp) m c; Some (esp + 4, m, c) }
     else if f = 100 then do { (m, c) \<leftarrow> print_signed conv_buf (load32 m esp) m c; Some (esp + 4, m, c) }
     else if f = 99 then do { c \<leftarrow> putc (ucast (load32 m esp)) c; Some (esp + 4, m, c) }
     else if f = 115 then do { (_, c) \<leftarrow> puts m (load32 m esp) c; Some (esp + 4, m, c) }
     else Some (esp, m, c))"

partial_function (option) printf_from :: "u32 \<Rightarrow> u32 \<Rightarrow> u32 \<Rightarrow> mem \<Rightarrow> console \<Rightarrow> (u32 \<times> mem \<times> console) option" where
  "printf_from conv_buf buf esp m c =
    (if m buf = 0 then Some (buf, m, c)
     else if m buf = 37 then do {
       (buf, alternate) \<leftarrow> skip_alternate m (buf + 1) False;
       (esp, m, c) \<leftarrow> convert conv_buf alternate (m buf) esp m c;
       printf_from conv_buf (buf + 1) esp m c
     }
     else do {
       c \<leftarrow> putc (m buf) c;
       printf_from conv_buf (buf + 1) esp m c
     })"

definition printf :: "u32 \<Rightarrow> u32 \<Rightarrow> u32 \<Rightarrow> mem \<Rightarrow> console \<Rightarrow> (u32 \<times> mem \<times> console) option" where
  "printf conv_buf format esp m c = do {
     (buf, m, c) \<leftarrow> printf_from conv_buf format esp m c;
     Some (buf - format, m, c)
   }"

subsection \<open>What a format stands for\<close>

definition show_num :: "nat \<Rightarrow> nat \<Rightarrow> u8 list" where
  "show_num r n = (if n = 0 then [48] else map digit_char (rev (digits_lsb r n)))"

datatype item = Plain u8 | Conv bool u8

text \<open>A format that ends within a conversion has no meaning: \<open>printf\<close> runs past its end.\<close>

function items :: "u8 list \<Rightarrow> item list option" where
  "items [] = Some []"
| "items (c # cs) =
    (if c \<noteq> 37 then map_option (Cons (Plain c)) (items cs)
     else case dropWhile (\<lambda>d. d = 35) cs of
       [] \<Rightarrow> None
     | f # cs' \<Rightarrow> map_option (Cons (Conv (hd cs = 35) f)) (items cs'))"
  by pat_completeness auto
termination
proof (relation "measure length")
  fix c f :: u8 and cs cs'
  assume "dropWhile (\<lambda>d. d = 35) cs = f # cs'"
  then show "(cs', c # cs) \<in> measure length"
    using length_dropWhile_le [of "\<lambda>d. d = 35" cs] by simp
qed auto

definition takes_arg :: "item \<Rightarrow> bool" where
  "takes_arg i \<longleftrightarrow> (case i of Plain _ \<Rightarrow> False | Conv _ f \<Rightarrow> f \<in> {120, 117, 100, 99, 115})"

definition arg_text :: "(u32 \<Rightarrow> u8 list) \<Rightarrow> bool \<Rightarrow> u8 \<Rightarrow> u32 \<Rightarrow> u8 list" where
  "arg_text str alternate f a =
    (if f = 120 then (let ds = show_num 16 (unat a) in if alternate then replicate (8 - length ds) 48 @ ds else ds)
     else if f = 117 then show_num 10 (unat a)
     else if f = 100 then (if sint a < 0 then 45 # show_num 10 (unat (- a)) else show_num 10 (unat a))
     else if f = 99 then [ucast a]
     else str a)"

fun text_of :: "(u32 \<Rightarrow> u8 list) \<Rightarrow> item list \<Rightarrow> u32 list \<Rightarrow> u8 list" where
  "text_of str [] as = []"
| "text_of str (Plain c # is) as = c # text_of str is as"
| "text_of str (Conv alternate f # is) as =
    (if takes_arg (Conv alternate f) then arg_text str alternate f (hd as) @ text_of str is (tl as)
     else (if f = 37 then [37] else []) @ text_of str is as)"

text \<open>The text of a call: \<open>str\<close> gives the string at an address.\<close>

definition bytes_of :: "string \<Rightarrow> u8 list" where
  "bytes_of fmt = map of_char fmt"

definition render :: "(u32 \<Rightarrow> u8 list) \<Rightarrow> string \<Rightarrow> u32 list \<Rightarrow> u8 list" where
  "render str fmt args = text_of str (the (items (bytes_of fmt))) args"

subsection \<open>Calls\<close>

text \<open>What the compiler decides about a call of \<open>printf\<close>: where each string literal is, where the
  arguments are pushed, and where the local array of \<open>printf\<close> is.\<close>

record print_env =
  literal_at :: "string \<Rightarrow> u32"
  arg_area :: u32
  conv_area :: u32

primrec push_args :: "u32 \<Rightarrow> u32 list \<Rightarrow> mem \<Rightarrow> mem" where
  "push_args a [] m = m"
| "push_args a (v # vs) m = push_args (a + 4) vs (store32 m a v)"

definition call_printf :: "print_env \<Rightarrow> string \<Rightarrow> u32 list \<Rightarrow> mem \<Rightarrow> console \<Rightarrow> (mem \<times> console) option" where
  "call_printf P fmt args m c = do {
     (_, m, c) \<leftarrow> printf (conv_area P) (literal_at P fmt) (arg_area P) (push_args (arg_area P) args m) c;
     Some (m, c)
   }"

text \<open>Calls write to the argument area and the local array only; \<open>clear_of\<close> is a region apart from both.\<close>

definition scratch :: "print_env \<Rightarrow> u32 \<Rightarrow> bool" where
  "scratch P a \<longleftrightarrow> in_region (arg_area P) 32 a \<or> in_region (conv_area P) 64 a"

definition scratch_only :: "print_env \<Rightarrow> mem \<Rightarrow> mem \<Rightarrow> bool" where
  "scratch_only P m m' \<longleftrightarrow> (\<forall>a. \<not> scratch P a \<longrightarrow> m' a = m a)"

definition clear_of :: "print_env \<Rightarrow> u32 \<Rightarrow> nat \<Rightarrow> bool" where
  "clear_of P a n \<longleftrightarrow> disjoint_regions (arg_area P) 32 a n \<and> disjoint_regions (conv_area P) 64 a n"

definition print_env_ok :: "print_env \<Rightarrow> bool" where
  "print_env_ok P \<longleftrightarrow> disjoint_regions (conv_area P) 64 (arg_area P) 32"

definition literal_ok :: "print_env \<Rightarrow> mem \<Rightarrow> string \<Rightarrow> bool" where
  "literal_ok P m fmt \<longleftrightarrow> cstr m (literal_at P fmt) (bytes_of fmt) \<and> clear_of P (literal_at P fmt) (Suc (length fmt))"

text \<open>The format and the arguments go together.\<close>

definition call_ok :: "print_env \<Rightarrow> mem \<Rightarrow> (u32 \<Rightarrow> u8 list) \<Rightarrow> string \<Rightarrow> u32 list \<Rightarrow> bool" where
  "call_ok P m str fmt args \<longleftrightarrow> literal_ok P m fmt \<and> length args \<le> 8 \<and>
    (case items (bytes_of fmt) of None \<Rightarrow> False | Some is \<Rightarrow>
      length args = length (filter takes_arg is) \<and>
      (\<forall>i \<in> set [0..<length args]. filter takes_arg is ! i \<in> {Conv False 115, Conv True 115} \<longrightarrow>
        cstr m (args ! i) (str (args ! i)) \<and> clear_of P (args ! i) (Suc (length (str (args ! i))))))"

subsection \<open>Numbers\<close>

lemma length_digits_power: "2 \<le> r \<Longrightarrow> n < r ^ k \<Longrightarrow> length (digits_lsb r n) \<le> k"
proof (induction k arbitrary: n)
  case 0
  then show ?case by (simp add: digits_lsb.simps)
next
  case (Suc k)
  then have "n div r < r ^ k" by (simp add: less_mult_imp_div_less mult.commute)
  then have "length (digits_lsb r (n div r)) \<le> k" using Suc by blast
  then show ?case by (subst digits_lsb.simps) simp
qed

lemma show_num_length:
  "length (show_num 16 (unat (v :: u32))) \<le> 8" "length (show_num 10 (unat v)) \<le> 10" "0 < length (show_num 16 (unat v))"
proof -
  have lt: "unat v < 4294967296" by simp
  from lt show "length (show_num 16 (unat v)) \<le> 8" using length_digits_power [of 16 "unat v" 8] by (simp add: show_num_def)
  have "unat v < 10 ^ 10" using lt by (rule less_trans) simp
  then show "length (show_num 10 (unat v)) \<le> 10" using length_digits_power [of 10 "unat v" 10] by (simp add: show_num_def)
  show "0 < length (show_num 16 (unat v))" using digits_lsb_last [of 16 "unat v"] by (simp add: show_num_def)
qed

lemma show_num_nonzero:
  assumes "2 \<le> r" "r \<le> 36"
  shows "0 \<notin> set (show_num r n)"
proof -
  have "d < 36" if "d \<in> set (digits_lsb r n)" for d using digits_lsb_less [OF assms(1) that] assms(2) by simp
  then have "digit_char d \<noteq> 0" if "d \<in> set (digits_lsb r n)" for d using digit_char_facts(2) that by blast
  then have "0 \<notin> digit_char ` set (digits_lsb r n)" by (metis imageE)
  then show ?thesis by (simp add: show_num_def)
qed

lemma itoa_show:
  assumes "2 \<le> unat radix" "unat radix \<le> 36"
  shows "itoa m v buf radix = Some (store_bytes m buf (show_num (unat radix) (unat v) @ [0]))"
  using itoa_eq(1) [OF assms, of v m buf] by (cases "v = 0") (auto simp: show_num_def itoa_def unat_eq_zero)

subsection \<open>Conversions\<close>

lemma skip_alternate_cstr:
  assumes "cstr m buf cs" "dropWhile (\<lambda>d. d = 35) cs = f # cs'"
  shows "skip_alternate m buf alt = Some (buf + of_nat (length cs - Suc (length cs')), alt \<or> hd cs = 35) \<and>
    cstr m (buf + of_nat (length cs - Suc (length cs'))) (f # cs')"
  using assms
proof (induction cs arbitrary: buf alt)
  case (Cons c cs)
  note c = cstr_Cons [OF Cons.prems(1)]
  show ?case
  proof (cases "c = 35")
    case True
    then have d: "dropWhile (\<lambda>d. d = 35) cs = f # cs'" using Cons.prems(2) by simp
    then have "length (f # cs') \<le> length cs" using length_dropWhile_le [of "\<lambda>d. d = 35" cs] by simp
    then have off: "buf + 1 + of_nat (length cs - Suc (length cs')) = buf + of_nat (length (c # cs) - Suc (length cs'))"
      by (simp add: Suc_diff_le [symmetric])
    have "skip_alternate m buf alt = skip_alternate m (buf + 1) True" using c True by (subst skip_alternate.simps) simp
    then show ?thesis using Cons.IH [of "buf + 1" True] c d True unfolding off [symmetric] by simp
  next
    case False
    then show ?thesis using Cons.prems c by (subst skip_alternate.simps) simp
  qed
qed simp

text \<open>The digits of a number in the local array.\<close>

lemma digits_at:
  assumes "i + Suc (length ds) \<le> 64" "0 \<notin> set ds" "m' = store_bytes m (conv + of_nat i) (ds @ [0])"
  shows "cstr m' (conv + of_nat i) ds" "changes_only conv 64 m m'"
  using assms cstr_store [of ds m "conv + of_nat i"] changes_only_store [of i "ds @ [0]" 64 conv m] by simp_all

lemma fold_pad:
  assumes "n \<le> 8"
  shows "fold (\<lambda>i m. m(conv + of_int i := 48)) [int n..7] m = store_bytes m (conv + of_nat n) (replicate (8 - n) 48)"
  using assms
proof (induction "8 - n" arbitrary: n m)
  case (Suc d)
  then have "[int n..7] = int n # [int (Suc n)..7]" by (simp add: upto_rec1 add.commute)
  moreover have "replicate (8 - n) (48 :: u8) = 48 # replicate (8 - Suc n) 48" using Suc(2) by (simp add: Suc_diff_Suc [symmetric] flip: replicate_Suc)
  ultimately show ?case using Suc(1) [of "Suc n"] Suc(2) by (simp add: algebra_simps)
qed simp

lemma pad_digits:
  assumes "n \<le> 8" "length hs = n"
  shows "store_bytes (store_bytes m (conv + 8) (hs @ [0])) (conv + of_nat n) (replicate (8 - n) 48) =
    store_bytes m (conv + of_nat n) ((replicate (8 - n) 48 @ hs) @ [0])"
proof -
  have "conv + of_nat n + of_nat (8 - n) = conv + 8" using assms(1) by (simp add: of_nat_diff)
  moreover have "disjoint_regions (conv + 8) (Suc n) (conv + of_nat n) (8 - n)"
    using disjoint_same_base [of n "8 - n" 8 "Suc n" conv] assms(1) by (simp add: disjoint_regions_sym)
  ultimately show ?thesis using assms store_bytes_swap [of "conv + 8" "hs @ [0]" "conv + of_nat n" "replicate (8 - n) 48" m]
    by (simp add: store_bytes_append add.assoc)
qed

subsection \<open>Formats\<close>

text \<open>The words on the stack are the arguments, a string argument points to its string, and the local
  array lies apart from the format, the arguments and the strings.\<close>

definition args_ok :: "u32 \<Rightarrow> mem \<Rightarrow> u32 \<Rightarrow> (u32 \<Rightarrow> u8 list) \<Rightarrow> item list \<Rightarrow> u32 list \<Rightarrow> bool" where
  "args_ok conv m esp str is as \<longleftrightarrow>
    (\<forall>i < length as. load32 m (esp + of_nat (4 * i)) = as ! i) \<and> length as = length (filter takes_arg is) \<and>
    4 * length as \<le> 2 ^ 32 \<and> disjoint_regions conv 64 esp (4 * length as) \<and>
    (\<forall>i < length as. \<forall>alt. filter takes_arg is ! i = Conv alt 115 \<longrightarrow>
      cstr m (as ! i) (str (as ! i)) \<and> disjoint_regions conv 64 (as ! i) (Suc (length (str (as ! i)))))"

lemma args_ok_frame:
  assumes "args_ok conv m esp str is as" "changes_only conv 64 m m'"
  shows "args_ok conv m' esp str is as"
  unfolding args_ok_def
proof (intro conjI allI impI)
  fix i assume i: "i < length as"
  then have "4 * i + 4 \<le> 4 * length as" by simp
  moreover have "disjoint_regions conv 64 esp (4 * length as)" "4 * length as \<le> 2 ^ 32" "load32 m (esp + of_nat (4 * i)) = as ! i"
    using assms(1) i unfolding args_ok_def by blast+
  ultimately show "load32 m' (esp + of_nat (4 * i)) = as ! i"
    using changes_only_load32 [OF assms(2), of esp "4 * length as" "4 * i"] by simp
next
  fix i alt assume "i < length as" "filter takes_arg is ! i = Conv alt 115"
  then show "cstr m' (as ! i) (str (as ! i))"
    using changes_only_cstr [OF assms(2)] assms(1) unfolding args_ok_def by blast
qed (use assms(1) in \<open>auto simp: args_ok_def\<close>)

lemma args_ok_next:
  assumes "args_ok conv m esp str (i # is) as" "takes_arg i"
  shows "\<exists>a as'. as = a # as' \<and> load32 m esp = a \<and> args_ok conv m (esp + 4) str is as' \<and>
    (\<forall>alt. i = Conv alt 115 \<longrightarrow> cstr m a (str a))"
proof -
  obtain a as' where as: "as = a # as'" using assms by (cases as) (auto simp: args_ok_def)
  have all: "load32 m (esp + of_nat (4 * j)) = as ! j" if "j < length as" for j using assms(1) that by (simp add: args_ok_def)
  have strs: "cstr m (as ! j) (str (as ! j)) \<and> disjoint_regions conv 64 (as ! j) (Suc (length (str (as ! j))))"
    if "j < length as" "filter takes_arg (i # is) ! j = Conv alt 115" for j alt
    using assms(1) that unfolding args_ok_def by blast
  have "disjoint_regions conv 64 (esp + 4) (4 * length as')"
    using disjoint_regions_offset [of conv 64 esp "4 * length as" 0 64 4 "4 * length as'"] assms(1) as by (simp add: args_ok_def)
  moreover have "load32 m (esp + 4 + of_nat (4 * j)) = as' ! j" if "j < length as'" for j
    using all [of "Suc j"] as that by (simp add: algebra_simps)
  moreover have "cstr m (as' ! j) (str (as' ! j)) \<and> disjoint_regions conv 64 (as' ! j) (Suc (length (str (as' ! j))))"
    if "j < length as'" "filter takes_arg is ! j = Conv alt 115" for j alt
    using strs [of "Suc j" alt] as that assms(2) by simp
  ultimately have "args_ok conv m (esp + 4) str is as'" using assms as by (auto simp: args_ok_def)
  then show ?thesis using as all [of 0] strs [of 0] assms(2) by auto
qed

lemma args_ok_skip: "args_ok conv m esp str (i # is) as \<Longrightarrow> \<not> takes_arg i \<Longrightarrow> args_ok conv m esp str is as"
  unfolding args_ok_def by (metis filter.simps(2))

subsection \<open>Frames of calls\<close>

lemma scratch_only_refl: "scratch_only P m m"
  by (simp add: scratch_only_def)

lemma scratch_only_trans: "scratch_only P m m' \<Longrightarrow> scratch_only P m' m'' \<Longrightarrow> scratch_only P m m''"
  by (simp add: scratch_only_def)

lemma scratch_only_load_bytes:
  assumes "scratch_only P m m'" "clear_of P a n" "n \<le> 2 ^ 32"
  shows "load_bytes m' a n = load_bytes m a n"
  using assms by (intro load_bytes_cong) (auto simp: scratch_only_def scratch_def clear_of_def disjoint_regions_def)

lemma clear_of_offset: "clear_of P a n \<Longrightarrow> i + k \<le> n \<Longrightarrow> n \<le> 2 ^ 32 \<Longrightarrow> clear_of P (a + of_nat i) k"
  using disjoint_regions_offset [of "arg_area P" 32 a n 0 32 i k] disjoint_regions_offset [of "conv_area P" 64 a n 0 64 i k]
  by (simp add: clear_of_def)

lemma scratch_only_load32:
  assumes "scratch_only P m m'" "clear_of P a n" "i + 4 \<le> n" "n \<le> 2 ^ 32"
  shows "load32 m' (a + of_nat i) = load32 m (a + of_nat i)"
  using scratch_only_load_bytes [OF assms(1) clear_of_offset [OF assms(2-4)]] by (intro load32_cong) simp

lemma scratch_only_cstr:
  assumes "scratch_only P m m'" "cstr m a xs" "clear_of P a (Suc (length xs))"
  shows "cstr m' a xs"
proof (rule cstr_bytes)
  show xs: "0 \<notin> set xs" "length xs < 2 ^ 32" using assms(2) by (simp_all add: cstr_def)
  show "load_bytes m' a (length xs + 1) = xs @ [0]"
    using scratch_only_load_bytes [OF assms(1,3)] cstr_load [OF assms(2)] xs(2) by simp
qed

lemma literal_ok_frame: "literal_ok P m fmt \<Longrightarrow> scratch_only P m m' \<Longrightarrow> literal_ok P m' fmt"
  using scratch_only_cstr [of P m m' "literal_at P fmt" "bytes_of fmt"] by (simp add: literal_ok_def bytes_of_def)

lemma push_args_outside:
  assumes "i + 4 * length vs \<le> n" "n \<le> 2 ^ 32"
  shows "changes_only a n m (push_args (a + of_nat i) vs m)"
  using assms(1)
proof (induction vs arbitrary: i m)
  case (Cons v vs)
  have "changes_only a n m (store32 m (a + of_nat i) v)"
    using changes_only_store [of i "bytes_of32 v" n a m] Cons.prems assms(2) by (simp add: store32_store_bytes)
  then show ?case using Cons.IH [of "i + 4" "store32 m (a + of_nat i) v"] Cons.prems changes_only_trans
    by (fastforce simp: add.assoc)
qed (simp add: changes_only_refl)

lemma push_args_at:
  assumes "4 * length vs \<le> 32" "j < length vs"
  shows "load32 (push_args a vs m) (a + of_nat (4 * j)) = vs ! j"
  using assms
proof (induction vs arbitrary: j a m)
  case (Cons v vs)
  show ?case
  proof (cases j)
    case 0
    have "changes_only (a + 4) (4 * length vs) (store32 m a v) (push_args (a + 4) vs (store32 m a v))"
      using push_args_outside [of 0 vs "4 * length vs" "a + 4"] Cons.prems(1) by simp
    moreover have "disjoint_regions (a + 4) (4 * length vs) a 4"
      using disjoint_same_base [of 0 4 4 "4 * length vs" a] Cons.prems(1) by (simp add: disjoint_regions_sym)
    ultimately show ?thesis
      using changes_only_load32 [of "a + 4" "4 * length vs" _ _ a 4 0] Cons.prems(1) 0 by (simp add: load32_store32)
  next
    case (Suc i)
    then show ?thesis using Cons.IH [of i "a + 4" "store32 m a v"] Cons.prems by (simp add: algebra_simps)
  qed
qed simp

text \<open>A call that is in order leaves \<open>printf\<close> its arguments as it expects them.\<close>

lemma pushed_args:
  assumes "print_env_ok P" "call_ok P m str fmt args"
  shows "\<exists>is. items (bytes_of fmt) = Some is \<and> args_ok (conv_area P) (push_args (arg_area P) args m) (arg_area P) str is args"
    "scratch_only P m (push_args (arg_area P) args m)" "literal_ok P (push_args (arg_area P) args m) fmt"
proof -
  let ?m = "push_args (arg_area P) args m"
  from assms(2) obtain "is" where i: "items (bytes_of fmt) = Some is" "length args = length (filter takes_arg is)"
    "\<forall>i < length args. filter takes_arg is ! i \<in> {Conv False 115, Conv True 115} \<longrightarrow>
        cstr m (args ! i) (str (args ! i)) \<and> clear_of P (args ! i) (Suc (length (str (args ! i))))"
    "length args \<le> 8" "literal_ok P m fmt"
    by (auto simp: call_ok_def split: option.splits)
  have ch: "changes_only (arg_area P) 32 m ?m" using push_args_outside [of 0 args 32 "arg_area P" m] i(4) by simp
  then show sc: "scratch_only P m ?m" by (auto simp: scratch_only_def scratch_def changes_only_def)
  then show "literal_ok P ?m fmt" using i(5) literal_ok_frame by blast
  have "disjoint_regions (conv_area P) 64 (arg_area P) (4 * length args)"
    using assms(1) i(4) disjoint_regions_mono [of "conv_area P" 64 "arg_area P" 32 64 "4 * length args"] by (simp add: print_env_ok_def)
  moreover have "load32 ?m (arg_area P + of_nat (4 * j)) = args ! j" if "j < length args" for j
    using push_args_at [of args j "arg_area P" m] i(4) that by simp
  moreover have "cstr ?m (args ! j) (str (args ! j)) \<and> disjoint_regions (conv_area P) 64 (args ! j) (Suc (length (str (args ! j))))"
    if "j < length args" "filter takes_arg is ! j = Conv alt 115" for j alt
    using i(3) that scratch_only_cstr [OF sc] by (cases alt) (auto simp: clear_of_def)
  ultimately show "\<exists>is. items (bytes_of fmt) = Some is \<and> args_ok (conv_area P) ?m (arg_area P) str is args"
    using i(1,2,4) by (auto simp: args_ok_def)
qed

text \<open>An example of how literals may lie in memory: one after the other, 128 bytes apart.\<close>

primrec literal_pool :: "u32 \<Rightarrow> string list \<Rightarrow> mem \<Rightarrow> mem" where
  "literal_pool a [] m = m"
| "literal_pool a (s # ss) m = literal_pool (a + 128) ss (store_bytes m a (bytes_of s @ [0]))"

primrec pool_at :: "u32 \<Rightarrow> string list \<Rightarrow> string \<Rightarrow> u32" where
  "pool_at a [] s = a"
| "pool_at a (t # ss) s = (if s = t then a else pool_at (a + 128) ss s)"

definition pool_string :: "string \<Rightarrow> bool" where
  "pool_string s \<longleftrightarrow> length s < 128 \<and> 0 \<notin> set (bytes_of s)"

lemma literal_pool_outside:
  assumes "i + 128 * length ss \<le> n" "n \<le> 2 ^ 32" "\<forall>s \<in> set ss. pool_string s"
  shows "changes_only a n m (literal_pool (a + of_nat i) ss m)"
  using assms(1,3)
proof (induction ss arbitrary: i m)
  case (Cons s ss)
  let ?m = "store_bytes m (a + of_nat i) (bytes_of s @ [0])"
  have "changes_only a n m ?m"
    using changes_only_store [of i "bytes_of s @ [0]" n a m] Cons.prems assms(2) by (simp add: bytes_of_def pool_string_def)
  moreover have "changes_only a n ?m (literal_pool (a + of_nat (i + 128)) ss ?m)" using Cons.IH [of "i + 128" ?m] Cons.prems by simp
  ultimately show ?case using changes_only_trans by (fastforce simp: add_ac)
qed (simp add: changes_only_refl)

lemma literal_pool_at:
  assumes "s \<in> set ss" "128 * length ss \<le> 2 ^ 31" "\<forall>s \<in> set ss. pool_string s"
  shows "cstr (literal_pool a ss m) (pool_at a ss s) (bytes_of s)"
  using assms
proof (induction ss arbitrary: a m)
  case (Cons t ss)
  let ?m = "store_bytes m a (bytes_of t @ [0])"
  show ?case
  proof (cases "s = t")
    case True
    have "changes_only (a + 128) (128 * length ss) ?m (literal_pool (a + 128) ss ?m)"
      using literal_pool_outside [of 0 ss "128 * length ss" "a + 128" ?m] Cons.prems by simp
    moreover have t: "length t < 128" "0 \<notin> set (bytes_of t)" using Cons.prems(3) by (simp_all add: pool_string_def)
    then have "cstr ?m a (bytes_of t)" using cstr_store [of "bytes_of t" m a] by (simp add: bytes_of_def)
    moreover have "disjoint_regions (a + 128) (128 * length ss) a (Suc (length (bytes_of t)))"
      using disjoint_same_base [of 0 "Suc (length t)" 128 "128 * length ss" a] Cons.prems(2) t(1)
      by (simp add: disjoint_regions_sym bytes_of_def)
    ultimately show ?thesis using True changes_only_cstr by simp
  next
    case False
    then show ?thesis using Cons by simp
  qed
qed simp

lemma pool_at_offset: "s \<in> set ss \<Longrightarrow> \<exists>k < length ss. pool_at a ss s = a + of_nat (128 * k)"
proof (induction ss arbitrary: a)
  case (Cons t ss)
  then show ?case
  proof (cases "s = t")
    case False
    then obtain k where "k < length ss" "pool_at (a + 128) ss s = a + 128 + of_nat (128 * k)" using Cons by auto
    then have "Suc k < length (t # ss)" "pool_at a (t # ss) s = a + of_nat (128 * Suc k)" using False by simp_all
    then show ?thesis by blast
  qed auto
qed simp

lemma literal_pool_ok:
  assumes "s \<in> set ss" "128 * length ss \<le> 2 ^ 31" "\<forall>s \<in> set ss. pool_string s" "literal_at P = pool_at a ss"
    "clear_of P a (128 * length ss)"
  shows "literal_ok P (literal_pool a ss m) s"
proof -
  obtain k where k: "k < length ss" "pool_at a ss s = a + of_nat (128 * k)" using pool_at_offset [OF assms(1)] by blast
  have "length s < 128" using assms(1,3) by (simp add: pool_string_def)
  then have "clear_of P (pool_at a ss s) (Suc (length s))"
    unfolding k(2) using assms(2) k(1) by (intro clear_of_offset [OF assms(5)]) simp_all
  then show ?thesis using literal_pool_at [OF assms(1-3)] assms(4) by (simp add: literal_ok_def)
qed

subsection \<open>Printing\<close>

text \<open>What a number, a conversion and a whole format print, for every console that can be printed on.\<close>

context printer
begin

lemma print_unsigned_shows:
  assumes "ready (show_num 10 (unat v) @ ys) c"
  shows "\<exists>m' c'. print_unsigned conv v m c = Some (m', c') \<and> changes_only conv 64 m m' \<and>
    shown (show_num 10 (unat v)) c c' \<and> ready ys c'"
proof -
  let ?ds = "show_num 10 (unat v)" and ?m = "store_bytes m conv (show_num 10 (unat v) @ [0])"
  have "cstr ?m conv ?ds" "changes_only conv 64 m ?m"
    using digits_at [of 0 ?ds ?m m conv] show_num_length(2) [of v] show_num_nonzero [of 10 "unat v"] by simp_all
  then show ?thesis using puts_shows [of ?m conv ?ds ys c] assms itoa_show [of 10 m v conv] by (auto simp: print_unsigned_def)
qed

lemma print_signed_shows:
  assumes "ds = (if sint v < 0 then 45 # show_num 10 (unat (- v)) else show_num 10 (unat v))" "ready (ds @ ys) c"
  shows "\<exists>m' c'. print_signed conv v m c = Some (m', c') \<and> changes_only conv 64 m m' \<and> shown ds c c' \<and> ready ys c'"
proof -
  let ?m = "store_bytes m conv (ds @ [0])"
  have "(if sint v < 0 then itoa (m(conv := 45)) (- v) (conv + 1) 10 else itoa m v conv 10) = Some ?m"
    using itoa_show [of 10 m v conv] itoa_show [of 10 "m(conv := 45)" "- v" "conv + 1"] assms(1) by simp
  moreover have "length ds \<le> 11" "0 \<notin> set ds"
    using show_num_length(2) [of v] show_num_length(2) [of "- v"] show_num_nonzero [of 10] assms(1) by auto
  then have "cstr ?m conv ds" "changes_only conv 64 m ?m" using digits_at [of 0 ds ?m m conv] by simp_all
  ultimately show ?thesis using puts_shows [of ?m conv ds ys c] assms(2) by (auto simp: print_signed_def)
qed

lemma print_hex_shows:
  assumes "ds = arg_text str alt 120 v" "ready (ds @ ys) c"
  shows "\<exists>m' c'. print_hex conv alt v m c = Some (m', c') \<and> changes_only conv 64 m m' \<and> shown ds c c' \<and> ready ys c'"
proof -
  let ?hs = "show_num 16 (unat v)"
  have hs: "length ?hs \<le> 8" "0 \<notin> set ?hs" using show_num_length(1) [of v] show_num_nonzero [of 16] by simp_all
  show ?thesis
  proof (cases alt)
    case False
    let ?m = "store_bytes m conv (?hs @ [0])"
    have "cstr ?m conv ?hs" "changes_only conv 64 m ?m" using digits_at [of 0 ?hs ?m m conv] hs by simp_all
    then show ?thesis using puts_shows [of ?m conv ?hs ys c] assms False itoa_show [of 16 m v conv]
      by (auto simp: print_hex_def arg_text_def)
  next
    case True
    let ?n = "length ?hs" and ?m = "store_bytes m (conv + 8) (?hs @ [0])"
    let ?m' = "store_bytes ?m (conv + of_nat ?n) (replicate (8 - ?n) 48)"
    have ds: "ds = replicate (8 - ?n) 48 @ ?hs" using True assms(1) by (simp add: arg_text_def Let_def)
    have c8: "cstr ?m (conv + 8) ?hs" "changes_only conv 64 m ?m" using digits_at [of 8 ?hs ?m m conv] hs by simp_all
    from c8(1) have len: "strlen ?m (conv + 8) = Some (of_nat ?n)" by (rule strlen_cstr)
    have "sint (of_nat ?n :: u32) = int ?n" using hs(1) by (intro sint_small) simp
    then have pad: "fold (\<lambda>i m. m(conv + of_int i := 48)) [sint (of_nat ?n :: u32)..7] ?m = ?m'"
      using fold_pad [OF hs(1), of conv ?m] by simp
    have eq: "?m' = store_bytes m (conv + of_nat ?n) (ds @ [0])"
      unfolding ds by (rule pad_digits [OF hs(1) refl])
    have "cstr ?m' (conv + of_nat ?n) ds" "changes_only conv 64 m ?m'"
      using digits_at [of ?n ds ?m' m conv] hs ds eq by simp_all
    then show ?thesis
      using puts_shows [of ?m' "conv + of_nat ?n" ds ys c] assms(2) True itoa_show [of 16 m v "conv + 8"] len pad
      by (auto simp: print_hex_def)
  qed
qed

text \<open>A conversion that takes an argument prints its text, one that takes none prints a percent sign or
  nothing.\<close>

lemma convert_shows:
  assumes "takes_arg (Conv alt f)" "load32 m esp = a" "f = 115 \<Longrightarrow> cstr m a (str a)" "ready (arg_text str alt f a @ ys) c"
  shows "\<exists>m' c'. convert conv alt f esp m c = Some (esp + 4, m', c') \<and> changes_only conv 64 m m' \<and>
    shown (arg_text str alt f a) c c' \<and> ready ys c'"
proof -
  have "f \<in> {120, 117, 100, 99, 115}" using assms(1) by (simp add: takes_arg_def)
  then show ?thesis
  proof (elim insertE emptyE)
    assume f: "f = 120"
    then show ?thesis using print_hex_shows [OF refl, of str alt a ys c conv m] assms(2,4) by (auto simp: convert_def)
  next
    assume f: "f = 117"
    then have "arg_text str alt f a = show_num 10 (unat a)" by (simp add: arg_text_def)
    then show ?thesis using print_unsigned_shows [of a ys c conv m] assms(2,4) f by (auto simp: convert_def)
  next
    assume f: "f = 100"
    then have "arg_text str alt f a = (if sint a < 0 then 45 # show_num 10 (unat (- a)) else show_num 10 (unat a))"
      by (simp add: arg_text_def)
    then show ?thesis using print_signed_shows [of "arg_text str alt f a" a ys c conv m] assms(2,4) f by (auto simp: convert_def)
  next
    assume f: "f = 99"
    then have "arg_text str alt f a = [ucast a]" by (simp add: arg_text_def)
    then show ?thesis using put_char [of "ucast a" ys c] assms(2,4) f by (auto simp: convert_def changes_only_refl)
  next
    assume f: "f = 115"
    then have "arg_text str alt f a = str a" by (simp add: arg_text_def)
    then show ?thesis using puts_shows [OF assms(3) [OF f], of ys c] assms(2,4) f by (auto simp: convert_def changes_only_refl)
  qed
qed

lemma convert_plain:
  assumes "\<not> takes_arg (Conv alt f)" "ready ((if f = 37 then [37] else []) @ ys) c"
  shows "\<exists>c'. convert conv alt f esp m c = Some (esp, m, c') \<and> shown (if f = 37 then [37] else []) c c' \<and> ready ys c'"
  using assms put_char [of 37 ys c] shown_Nil [of ys c] by (auto simp: convert_def takes_arg_def)

lemma printf_from_shows:
  assumes "items cs = Some is" "cstr m buf cs" "disjoint_regions conv 64 buf (Suc (length cs))" "args_ok conv m esp str is as"
    "ready (text_of str is as @ ys) c"
  shows "\<exists>m' c'. printf_from conv buf esp m c = Some (buf + of_nat (length cs), m', c') \<and> changes_only conv 64 m m' \<and>
    shown (text_of str is as) c c' \<and> ready ys c'"
  using assms
proof (induction cs arbitrary: "is" buf esp as m c rule: items.induct)
  case 1
  then show ?case
    using cstr_end [OF 1(2)] shown_Nil by (subst printf_from.simps) (auto simp: changes_only_refl)
next
  case (2 x cs)
  note x = cstr_Cons [OF 2(4)]
  have len: "Suc (length cs) < 2 ^ 32" using 2(4) by (simp add: cstr_def)
  show ?case
  proof (cases "x = 37")
    case False
    then obtain is' where is': "is = Plain x # is'" "items cs = Some is'" using 2(3) by auto
    obtain c1 where c1: "putc x c = Some c1" "shown [x] c c1" "ready (text_of str is' as @ ys) c1"
      using put_char 2(7) is'(1) by fastforce
    have "disjoint_regions conv 64 (buf + 1) (Suc (length cs))"
      using disjoint_regions_offset [OF 2(5), of 0 64 1 "Suc (length cs)"] len by simp
    moreover have "args_ok conv m esp str is' as" using args_ok_skip [OF 2(6) [unfolded is'(1)]] by (simp add: takes_arg_def)
    ultimately obtain m' c' where "printf_from conv (buf + 1) esp m c1 = Some (buf + 1 + of_nat (length cs), m', c')"
      "changes_only conv 64 m m'" "shown (text_of str is' as) c1 c'" "ready ys c'"
      using 2(1) [OF False is'(2)] x c1(3) by blast
    then show ?thesis
      using x False c1(1) shown_append [OF c1(2)] is'(1) by (subst printf_from.simps) (auto simp: add.assoc)
  next
    case True
    then obtain f cs' where f: "dropWhile (\<lambda>d. d = 35) cs = f # cs'" using 2(3) by (auto split: list.splits)
    then obtain is' where is': "is = Conv (hd cs = 35) f # is'" "items cs' = Some is'" using 2(3) True by auto
    let ?k = "length cs - Suc (length cs')" and ?alt = "hd cs = 35"
    have le: "Suc (length cs') \<le> length cs" using f length_dropWhile_le [of "\<lambda>d. d = 35" cs] by simp
    have skip: "skip_alternate m (buf + 1) False = Some (buf + 1 + of_nat ?k, ?alt)" "cstr m (buf + 1 + of_nat ?k) (f # cs')"
      using skip_alternate_cstr [OF _ f, of m "buf + 1" False] x by simp_all
    let ?b = "buf + 1 + of_nat ?k + 1"
    have b: "?b = buf + of_nat (2 + ?k)" "?b + of_nat (length cs') = buf + of_nat (length (x # cs))"
      using le by (simp_all add: of_nat_diff)
    have fmt: "cstr m ?b cs'" "m (buf + 1 + of_nat ?k) = f" using cstr_Cons [OF skip(2)] by simp_all
    have dis: "disjoint_regions conv 64 ?b (Suc (length cs'))"
      unfolding b(1) using disjoint_regions_offset [OF 2(5), of 0 64 "2 + ?k" "Suc (length cs')"] le len by simp
    have step: "printf_from conv buf esp m c = convert conv ?alt f esp m c \<bind> (\<lambda>(esp, m, c). printf_from conv ?b esp m c)"
      using x True skip(1) fmt(2) by (subst printf_from.simps) simp
    have IH: "\<exists>m' c'. printf_from conv ?b e m1 c1 = Some (?b + of_nat (length cs'), m', c') \<and> changes_only conv 64 m1 m' \<and>
        shown (text_of str is' bs) c1 c' \<and> ready ys c'"
      if "changes_only conv 64 m m1" "args_ok conv m1 e str is' bs" "ready (text_of str is' bs @ ys) c1" for e m1 c1 bs
      using 2(2) [OF _ f is'(2) changes_only_cstr [OF that(1) fmt(1) dis] dis that(2,3)] True by simp
    show ?thesis
    proof (cases "takes_arg (Conv ?alt f)")
      case arg: True
      obtain a as' where a: "as = a # as'" "load32 m esp = a" "args_ok conv m (esp + 4) str is' as'" "f = 115 \<Longrightarrow> cstr m a (str a)"
        using args_ok_next [OF 2(6) [unfolded is'(1)] arg] by auto
      have "ready (arg_text str ?alt f a @ text_of str is' as' @ ys) c" using 2(7) is'(1) arg a(1) by simp
      then obtain m1 c1 where c1: "convert conv ?alt f esp m c = Some (esp + 4, m1, c1)" "changes_only conv 64 m m1"
        "shown (arg_text str ?alt f a) c c1" "ready (text_of str is' as' @ ys) c1"
        using convert_shows [of ?alt f m esp a str "text_of str is' as' @ ys" c conv, OF arg a(2,4)] by blast
      obtain m' c' where "printf_from conv ?b (esp + 4) m1 c1 = Some (?b + of_nat (length cs'), m', c')" "changes_only conv 64 m1 m'"
        "shown (text_of str is' as') c1 c'" "ready ys c'"
        using IH [OF c1(2) args_ok_frame [OF a(3) c1(2)] c1(4)] by auto
      then show ?thesis
        using step c1(1) b(2) changes_only_trans [OF c1(2)] shown_append [OF c1(3)] is'(1) arg a(1) by auto
    next
      case noarg: False
      let ?t = "if f = 37 then [37] else [] :: u8 list"
      have "ready (?t @ text_of str is' as @ ys) c" using 2(7) is'(1) noarg by (simp split: if_splits)
      then obtain c1 where c1: "convert conv ?alt f esp m c = Some (esp, m, c1)" "shown ?t c c1" "ready (text_of str is' as @ ys) c1"
        using convert_plain [OF noarg, of "text_of str is' as @ ys" c conv esp m] by blast
      obtain m' c' where "printf_from conv ?b esp m c1 = Some (?b + of_nat (length cs'), m', c')" "changes_only conv 64 m m'"
        "shown (text_of str is' as) c1 c'" "ready ys c'"
        using IH [OF changes_only_refl args_ok_skip [OF 2(6) [unfolded is'(1)] noarg] c1(3)] by auto
      then show ?thesis using step c1(1) b(2) shown_append [OF c1(2)] is'(1) noarg by auto
    qed
  qed
qed

lemma printf_shows:
  assumes "items cs = Some is" "cstr m format cs" "disjoint_regions conv 64 format (Suc (length cs))"
    "args_ok conv m esp str is as" "ready (text_of str is as @ ys) c"
  shows "\<exists>m' c'. printf conv format esp m c = Some (of_nat (length cs), m', c') \<and> changes_only conv 64 m m' \<and>
    shown (text_of str is as) c c' \<and> ready ys c'"
  using printf_from_shows [OF assms] by (auto simp: printf_def)

text \<open>A call prints its text and writes to its own areas only.\<close>

lemma call_printf_shows:
  assumes "print_env_ok P" "call_ok P m str fmt args" "ready (render str fmt args @ ys) c"
  shows "\<exists>m' c'. call_printf P fmt args m c = Some (m', c') \<and> scratch_only P m m' \<and>
    shown (render str fmt args) c c' \<and> ready ys c'"
proof -
  let ?m = "push_args (arg_area P) args m"
  obtain "is" where i: "items (bytes_of fmt) = Some is" "args_ok (conv_area P) ?m (arg_area P) str is args"
    using pushed_args(1) [OF assms(1,2)] by blast
  note sc = pushed_args(2) [OF assms(1,2)] and lit = pushed_args(3) [OF assms(1,2)]
  have at: "cstr ?m (literal_at P fmt) (bytes_of fmt)" "disjoint_regions (conv_area P) 64 (literal_at P fmt) (Suc (length (bytes_of fmt)))"
    using lit by (simp_all add: literal_ok_def clear_of_def bytes_of_def)
  have "ready (text_of str is args @ ys) c" using assms(3) i(1) by (simp add: render_def)
  from printf_shows [OF i(1) at i(2) this] obtain n m' c' where "printf (conv_area P) (literal_at P fmt) (arg_area P) ?m c = Some (n, m', c')"
    "changes_only (conv_area P) 64 ?m m'" "shown (render str fmt args) c c'" "ready ys c'"
    using i(1) by (auto simp: render_def)
  moreover from this(2) have "scratch_only P ?m m'" by (auto simp: scratch_only_def scratch_def changes_only_def)
  ultimately show ?thesis using scratch_only_trans [OF sc] by (auto simp: call_printf_def)
qed

end

subsection \<open>Properties\<close>

text \<open>C28: \<open>printf\<close> prints, at the cursor of the active terminal and nowhere else, the text its format
  stands for: numbers in decimal with a sign or in hexadecimal, padded to eight digits after
  a \<open>#\<close>, characters, strings and percent signs.  It returns the length of the format and
  changes memory only in its local array.  The format does not end inside a conversion and
  the text fits the terminal's page.\<close>

theorem printf_prints:
  assumes "items cs = Some is" "cstr m format cs" "disjoint_regions conv 64 format (Suc (length cs))"
    "args_ok conv m esp str is as" "mapped c" "t = active_terminal c" "fits (view c t) (text_of str is as)"
  shows "\<exists>m' c'. printf conv format esp m c = Some (of_nat (length cs), m', c') \<and> changes_only conv 64 m m' \<and> mapped c' \<and>
    view c' t = fold vput (text_of str is as) (view c t) \<and> (\<forall>u \<in> {0, 1, 2}. u \<noteq> t \<longrightarrow> view c' u = view c u)"
  using terminal_printer.printf_shows [OF assms(1-4), of c "[]"] assms(5-7) by (auto simp: printed_def redrawn_def)

text \<open>The call \<open>printf("%d %#x", -5, 2748)\<close>.\<close>

definition format_mem :: mem where
  "format_mem = store_bytes (store_bytes (\<lambda>_. 0) 0x100 [37, 100, 32, 37, 35, 120]) 0x200 [0xFB, 0xFF, 0xFF, 0xFF, 0xBC, 0x0A, 0, 0]"

theorem printf_prints_witness:
  "\<exists>m' c'. printf 0x300 0x100 0x200 format_mem boot_console = Some (6, m', c') \<and>
     view c' 0 = fold vput [45, 53, 32, 48, 48, 48, 48, 48, 65, 66, 67] (view boot_console 0)"
proof -
  let ?cs = "[37, 100, 32, 37, 35, 120 :: u8]" and ?is = "[Conv False 100, Plain 32, Conv True 120]" and ?as = "[0xFFFFFFFB, 2748 :: u32]"
  have items: "items ?cs = Some ?is" by code_simp
  have "cstr format_mem 0x100 ?cs" by (rule cstr_bytes) (code_simp, simp_all)
  moreover have "disjoint_regions 0x300 64 (0x100 :: u32) (Suc (length ?cs))"
    by (subst disjoint_regions_sym, rule disjoint_regionsI) simp_all
  moreover have "args_ok 0x300 format_mem 0x200 (\<lambda>_. []) ?is ?as"
  proof -
    have "load32 format_mem 0x200 = 0xFFFFFFFB" "load32 format_mem 0x204 = 2748" by code_simp+
    moreover have "disjoint_regions 0x300 64 (0x200 :: u32) 8" by (subst disjoint_regions_sym, rule disjoint_regionsI) simp_all
    ultimately show ?thesis by (auto simp: args_ok_def takes_arg_def less_Suc_eq nth_Cons')
  qed
  moreover have shown: "text_of (\<lambda>_. []) ?is ?as = [45, 53, 32, 48, 48, 48, 48, 48, 65, 66, 67]" by code_simp
  moreover have "fits (view boot_console 0) [45, 53, 32, 48, 48, 48, 48, 48, 65, 66, 67]"
    by (rule fits_row [OF boot_console_mapped(2), THEN conjunct1]) simp
  moreover have "active_terminal boot_console = 0" by (simp add: boot_console_def)
  ultimately show ?thesis
    using printf_prints [OF items, of format_mem "0x100" "0x300" "0x200" "\<lambda>_. []" ?as boot_console 0] boot_console_mapped(1) by auto
qed

end
