(* ===== verification/Listing.thy ===== *)
theory Listing
  imports Printf Directory
begin

text \<open>
  The routines of \<^verbatim>\<open>src/student-distrib/file_system_driver.c\<close> that print: the listing of the
  directory, a file found by name or by index, and the array of file names.  They are called
  from the test keys of the keyboard.  Every routine copies the directory into the driver's
  array again before it looks at it.
\<close>

subsection \<open>The routines\<close>

text \<open>The copy loop at the beginning, from entry \<open>i\<close> on.\<close>

definition copy_dentry :: "fs_state \<Rightarrow> u32 \<Rightarrow> mem \<Rightarrow> mem" where
  "copy_dentry st i m = store_bytes m (dentries st + 44 * i) (load_bytes m (fs_name st + 64 + i * 64) 44)"

partial_function (option) fill_dentries :: "fs_state \<Rightarrow> u32 \<Rightarrow> mem \<Rightarrow> mem option" where
  "fill_dentries st i m =
    (if i < num_dentry m (fs_addr st) then fill_dentries st (i + 1) (copy_dentry st i m) else Some m)"

text \<open>A name of 32 characters, which need not end in a NUL, is printed character by character; \<open>n\<close>
  characters are left from index \<open>j\<close> on.\<close>

primrec print_chars :: "print_env \<Rightarrow> u32 \<Rightarrow> nat \<Rightarrow> nat \<Rightarrow> mem \<Rightarrow> console \<Rightarrow> (mem \<times> console) option" where
  "print_chars P a 0 j m c = Some (m, c)"
| "print_chars P a (Suc n) j m c = do {
     (m, c) \<leftarrow> call_printf P ''%c'' [ucast (m (a + of_nat j))] m c;
     print_chars P a n (Suc j) m c
   }"

text \<open>The name of the entry at \<open>d\<close>, and one line of the listing.\<close>

definition print_name :: "print_env \<Rightarrow> u32 \<Rightarrow> bool \<Rightarrow> mem \<Rightarrow> console \<Rightarrow> (mem \<times> console) option" where
  "print_name P d long m c = (if long then do {
       (m, c) \<leftarrow> call_printf P ''file_name: '' [] m c;
       (m, c) \<leftarrow> print_chars P d 32 0 m c;
       call_printf P ''  '' [] m c
     } else call_printf P ''file name: %s  '' [d] m c)"

definition print_entry :: "print_env \<Rightarrow> fs_state \<Rightarrow> u32 \<Rightarrow> mem \<Rightarrow> console \<Rightarrow> (mem \<times> console) option" where
  "print_entry P st d m c = do {
     let inode_ptr = (fs_name st + BLOCK_SIZE) + load32 m (d + 36) * BLOCK_SIZE;
     n \<leftarrow> strlen m d;
     (m, c) \<leftarrow> print_name P d (n > 32) m c;
     (m, c) \<leftarrow> call_printf P ''file type: %d  '' [load32 m (d + 32)] m c;
     call_printf P ''file size: %d\<newline>'' [load32 m inode_ptr] m c
   }"

partial_function (option) read_fs_from :: "print_env \<Rightarrow> fs_state \<Rightarrow> u32 \<Rightarrow> mem \<Rightarrow> console \<Rightarrow> (mem \<times> console) option" where
  "read_fs_from P st i m c =
    (if i < num_dentry m (fs_addr st) then do {
       (m, c) \<leftarrow> print_entry P st (dentries st + 44 * i) (copy_dentry st i m) c;
       read_fs_from P st (i + 1) m c
     } else Some (m, c))"

definition read_fs :: "print_env \<Rightarrow> fs_state \<Rightarrow> mem \<Rightarrow> console \<Rightarrow> (mem \<times> console) option" where
  "read_fs P st m c = read_fs_from P st 0 m c"

text \<open>The search loop of \<open>print_dentry_by_name\<close>, with \<open>k\<close> entries left: the first entry that begins with
  the name.\<close>

primrec find_prefix :: "nat \<Rightarrow> u32 \<Rightarrow> u32 \<Rightarrow> u32 \<Rightarrow> mem \<Rightarrow> fs_state \<Rightarrow> u32 option" where
  "find_prefix 0 i fname n m st = None"
| "find_prefix (Suc k) i fname n m st =
    (if strncmp m fname (dentries st + 44 * i) n = 0 then Some i else find_prefix k (i + 1) fname n m st)"

text \<open>The file, read into the local array at \<open>buf\<close> and written to the terminal with a newline.\<close>

definition print_file :: "print_env \<Rightarrow> u32 \<Rightarrow> u32 \<Rightarrow> u32 \<Rightarrow> mem \<Rightarrow> fs_state \<Rightarrow> console \<Rightarrow> (mem \<times> console) option" where
  "print_file P buf inode_num len m st c = do {
     let (_, m) = read_data inode_num 0 buf len m st;
     (_, m, c) \<leftarrow> terminal_write m 0 buf (sint len) c;
     (_, m, c) \<leftarrow> terminal_write m 0 (literal_at P ''\<newline>'') 1 c;
     Some (m, c)
   }"

definition print_dentry_by_name ::
  "print_env \<Rightarrow> u32 \<Rightarrow> u32 \<Rightarrow> u32 \<Rightarrow> mem \<Rightarrow> fs_state \<Rightarrow> console \<Rightarrow> (mem \<times> fs_state \<times> console) option" where
  "print_dentry_by_name P dentry buf fname m st c = do {
     n \<leftarrow> strlen m fname;
     m \<leftarrow> fill_dentries st 0 m;
     case find_prefix (unat (num_dentry m (fs_addr st))) 0 fname n m st of
       None \<Rightarrow> do { (m, c) \<leftarrow> call_printf P ''Invalid Name\<newline>'' [] m c; Some (m, st, c) }
     | Some i \<Rightarrow> do {
         let fname_orig = dentries st + 44 * i;
         let len = load32 m ((fs_name st + BLOCK_SIZE) + load32 m (fname_orig + 36) * BLOCK_SIZE);
         (r, m, st) \<leftarrow> read_dentry_by_name fname dentry m st;
         if r = 0 then do {
           (m, c) \<leftarrow> print_file P buf (load32 m (dentry + 36)) len m st c;
           (m, c) \<leftarrow> (if n > 32 then do {
               (m, c) \<leftarrow> call_printf P ''file_name: '' [] m c;
               (m, c) \<leftarrow> print_chars P fname_orig 32 0 m c;
               call_printf P ''\<newline>'' [] m c
             } else call_printf P ''file_name: %s\<newline>'' [fname_orig] m c);
           Some (m, st, c)
         } else do { (m, c) \<leftarrow> call_printf P ''Failed to print\<newline>'' [] m c; Some (m, st, c) }
       }
   }"

definition print_dentry_by_index ::
  "print_env \<Rightarrow> u32 \<Rightarrow> u32 \<Rightarrow> u32 \<Rightarrow> mem \<Rightarrow> fs_state \<Rightarrow> console \<Rightarrow> (mem \<times> fs_state \<times> console) option" where
  "print_dentry_by_index P dentry buf index m st c = do {
     m \<leftarrow> fill_dentries st 0 m;
     if index < num_dentry m (fs_addr st) then do {
       let len = load32 m ((fs_name st + BLOCK_SIZE) + load32 m (dentries st + 44 * index + 36) * BLOCK_SIZE);
       (r, m, st) \<leftarrow> read_dentry_by_index index dentry m st;
       if r = 0 then do {
         (m, c) \<leftarrow> print_file P buf (load32 m (dentry + 36)) len m st c;
         n \<leftarrow> strlen m dentry;
         (m, c) \<leftarrow> (if n > 32 then do {
             (m, c) \<leftarrow> call_printf P ''file_name: '' [] m c;
             (m, c) \<leftarrow> print_chars P dentry 32 0 m c;
             call_printf P ''\<newline>'' [] m c
           } else Some (m, c));
         (m, c) \<leftarrow> call_printf P ''file_name: %s\<newline>'' [dentry] m c;
         Some (m, st, c)
       } else do { (m, c) \<leftarrow> call_printf P ''Failed to print\<newline>'' [] m c; Some (m, st, c) }
     } else do { (m, c) \<leftarrow> call_printf P ''Invalid Index\<newline>'' [] m c; Some (m, st, c) }
   }"

partial_function (option) return_name_from :: "fs_state \<Rightarrow> u32 \<Rightarrow> u32 \<Rightarrow> mem \<Rightarrow> mem option" where
  "return_name_from st f_names i m =
    (if i < num_dentry m (fs_addr st)
     then return_name_from st f_names (i + 1) (store32 (copy_dentry st i m) (f_names + 4 * i) (dentries st + 44 * i))
     else Some m)"

definition return_name :: "fs_state \<Rightarrow> u32 \<Rightarrow> mem \<Rightarrow> mem option" where
  "return_name st f_names m = return_name_from st f_names 0 m"

definition inode_ptr :: "print_env \<Rightarrow> u32 \<Rightarrow> mem \<Rightarrow> fs_state \<Rightarrow> console \<Rightarrow> (u32 \<times> mem \<times> console) option" where
  "inode_ptr P dentry m st c = do {
     (m, c) \<leftarrow> call_printf P ''inode # is check %d\<newline>'' [load32 m (dentry + 36)] m c;
     Some ((fs_name st + BLOCK_SIZE) + load32 m (dentry + 36) * BLOCK_SIZE, m, c)
   }"

subsection \<open>What the listing shows\<close>

text \<open>A signed number, as \<open>%d\<close> prints it, and one line of the listing.\<close>

definition show_signed :: "u32 \<Rightarrow> u8 list" where
  "show_signed v = (if sint v < 0 then 45 # show_num 10 (unat (- v)) else show_num 10 (unat v))"

definition entry_line :: "mem \<Rightarrow> fs_state \<Rightarrow> nat \<Rightarrow> u8 list" where
  "entry_line m st i =
    (let a = entry_at st i;
         ino = load32 m (a + 36)
     in bytes_of (if long_entry m a then ''file_name: '' else ''file name: '') @ entry_name m a @
        bytes_of ''  file type: '' @ show_signed (load32 m (a + 32)) @
        bytes_of ''  file size: '' @ show_signed (load32 m (fs_name st + BLOCK_SIZE + ino * BLOCK_SIZE)) @ [10])"

text \<open>The driver's array holds the directory of the image, and what the listing reads lies apart from
  the areas of \<open>printf\<close>.\<close>

definition listing_formats :: "string list" where
  "listing_formats = [''file_name: '', ''%c'', ''  '', ''file name: %s  '', ''file type: %d  '', ''file size: %d\<newline>'']"

definition listing_ready :: "print_env \<Rightarrow> mem \<Rightarrow> fs_state \<Rightarrow> bool" where
  "listing_ready P m st \<longleftrightarrow> print_env_ok P \<and> (\<forall>fmt \<in> set listing_formats. literal_ok P m fmt) \<and> clear_of P (fs_addr st) 4 \<and>
    (\<forall>i < unat (num_dentry m (fs_addr st)).
      load_bytes m (entry_at st i) 44 = load_bytes m (fs_name st + of_nat (64 + 64 * i)) 44 \<and>
      dentry_ok m (entry_at st i) \<and> clear_of P (entry_at st i) 44 \<and> clear_of P (fs_name st + of_nat (64 + 64 * i)) 44 \<and>
      clear_of P (fs_name st + BLOCK_SIZE + load32 m (entry_at st i + 36) * BLOCK_SIZE) 4)"

subsection \<open>The texts\<close>

lemma listing_texts:
  "render str ''file_name: '' [] = bytes_of ''file_name: ''"
  "render str ''  '' [] = bytes_of ''  ''"
  "render str ''%c'' [a] = [ucast a]"
  "render str ''file name: %s  '' [a] = bytes_of ''file name: '' @ str a @ bytes_of ''  ''"
  "render str ''file type: %d  '' [a] = bytes_of ''file type: '' @ show_signed a @ bytes_of ''  ''"
  "render str ''file size: %d\<newline>'' [a] = bytes_of ''file size: '' @ show_signed a @ [10]"
  by (simp_all add: render_def bytes_of_def takes_arg_def arg_text_def show_signed_def)

lemma listing_calls:
  "literal_ok P m ''file_name: '' \<Longrightarrow> call_ok P m str ''file_name: '' []"
  "literal_ok P m ''  '' \<Longrightarrow> call_ok P m str ''  '' []"
  "literal_ok P m ''%c'' \<Longrightarrow> call_ok P m str ''%c'' [a]"
  "literal_ok P m ''file type: %d  '' \<Longrightarrow> call_ok P m str ''file type: %d  '' [a]"
  "literal_ok P m ''file size: %d\<newline>'' \<Longrightarrow> call_ok P m str ''file size: %d\<newline>'' [a]"
  "literal_ok P m ''file name: %s  '' \<Longrightarrow> cstr m a (str a) \<Longrightarrow> clear_of P a (Suc (length (str a))) \<Longrightarrow>
    call_ok P m str ''file name: %s  '' [a]"
  by (simp_all add: call_ok_def bytes_of_def takes_arg_def)

lemma short_entry_cstr: "dentry_ok m a \<Longrightarrow> \<not> long_entry m a \<Longrightarrow> cstr m a (entry_name m a)"
proof (cases "length (entry_name m a) < 32")
  case False
  assume "dentry_ok m a" "\<not> long_entry m a"
  then have "length (entry_name m a) = 32" "m (a + 32) = 0" using False entry_name_length [of m a] by (simp_all add: long_entry_def)
  then show ?thesis using entry_name_nonzero [of m a] load_entry_name [of 32 m a] by (simp add: cstr_def)
qed (rule entry_cstr)

subsection \<open>Printing the listing\<close>

lemma entry_frame:
  assumes "scratch_only P m m'" "clear_of P a 44"
  shows "load_bytes m' a 44 = load_bytes m a 44" "entry_name m' a = entry_name m a" "m' (a + 32) = m (a + 32)" "m' (a + 33) = m (a + 33)"
    "load32 m' (a + 32) = load32 m (a + 32)" "load32 m' (a + 36) = load32 m (a + 36)"
proof -
  show eq: "load_bytes m' a 44 = load_bytes m a 44" using scratch_only_load_bytes [OF assms] by simp
  have at: "m' (a + of_nat k) = m (a + of_nat k)" if "k < 44" for k
    using arg_cong [OF eq, of "\<lambda>xs. xs ! k"] that by simp
  show "m' (a + 32) = m (a + 32)" "m' (a + 33) = m (a + 33)" using at [of 32] at [of 33] by simp_all
  have "load_bytes m' a 32 = load_bytes m a 32" using at by (intro nth_equalityI) simp_all
  then show "entry_name m' a = entry_name m a" by (simp add: entry_name_def)
  show "load32 m' (a + 32) = load32 m (a + 32)" "load32 m' (a + 36) = load32 m (a + 36)"
    using scratch_only_load32 [OF assms, of 32] scratch_only_load32 [OF assms, of 36] by simp_all
qed

lemma listing_ready_entry:
  assumes "listing_ready P m st" "i < unat (num_dentry m (fs_addr st))"
  shows "load_bytes m (entry_at st i) 44 = load_bytes m (fs_name st + of_nat (64 + 64 * i)) 44" "dentry_ok m (entry_at st i)"
    "clear_of P (entry_at st i) 44" "clear_of P (fs_name st + of_nat (64 + 64 * i)) 44"
    "clear_of P (fs_name st + BLOCK_SIZE + load32 m (entry_at st i + 36) * BLOCK_SIZE) 4"
  using assms unfolding listing_ready_def by blast+

lemma listing_ready_frame:
  assumes "listing_ready P m st" "scratch_only P m m'"
  shows "listing_ready P m' st" "num_dentry m' (fs_addr st) = num_dentry m (fs_addr st)"
    "i < unat (num_dentry m (fs_addr st)) \<Longrightarrow> entry_line m' st i = entry_line m st i"
proof -
  note r = assms(1) [unfolded listing_ready_def]
  show n: "num_dentry m' (fs_addr st) = num_dentry m (fs_addr st)"
    using scratch_only_load32 [OF assms(2), of "fs_addr st" 4 0] r by (simp add: num_dentry_def)
  note e = listing_ready_entry [OF assms(1)]
  note fr = entry_frame [OF assms(2)]
  show "entry_line m' st i = entry_line m st i" if "i < unat (num_dentry m (fs_addr st))"
    using fr [OF e(3) [OF that]] scratch_only_load32 [OF assms(2) e(5) [OF that], of 0]
    by (simp add: entry_line_def Let_def long_entry_def)
  have e': "load_bytes m' (entry_at st i) 44 = load_bytes m' (fs_name st + of_nat (64 + 64 * i)) 44" "dentry_ok m' (entry_at st i)"
    "load32 m' (entry_at st i + 36) = load32 m (entry_at st i + 36)" if "i < unat (num_dentry m (fs_addr st))" for i
    using e(1,2) [OF that] fr [OF e(3) [OF that]] fr(1) [OF e(4) [OF that]] by (simp_all add: dentry_ok_def)
  have "clear_of P (fs_name st + BLOCK_SIZE + load32 m' (entry_at st i + 36) * BLOCK_SIZE) 4" if "i < unat (num_dentry m (fs_addr st))" for i
    unfolding e'(3) [OF that] by (rule e(5) [OF that])
  then show "listing_ready P m' st"
    unfolding listing_ready_def n using r e(3,4) e'(1,2) literal_ok_frame [OF _ assms(2)] by blast
qed

lemma copy_dentry_same:
  assumes "listing_ready P m st" "i < unat (num_dentry m (fs_addr st))"
  shows "copy_dentry st (of_nat i) m = m"
proof -
  note listing_ready_entry(1) [OF assms]
  moreover have "fs_name st + 64 + of_nat i * 64 = fs_name st + of_nat (64 + 64 * i)" by simp
  moreover have "store_bytes m (entry_at st i) (load_bytes m (entry_at st i) 44) = m" by simp
  ultimately show ?thesis unfolding copy_dentry_def entry_at_def by argo
qed

context printer
begin

lemma print_chars_shows:
  assumes "print_env_ok P" "literal_ok P m ''%c''" "clear_of P (a + of_nat j) n" "n \<le> 2 ^ 32"
    "ready (load_bytes m (a + of_nat j) n @ ys) c"
  shows "\<exists>m' c'. print_chars P a n j m c = Some (m', c') \<and> scratch_only P m m' \<and>
    shown (load_bytes m (a + of_nat j) n) c c' \<and> ready ys c'"
  using assms(2-)
proof (induction n arbitrary: j m c)
  case 0
  then show ?case using shown_Nil by (auto simp: scratch_only_refl)
next
  case (Suc n)
  let ?x = "m (a + of_nat j)"
  have j: "a + of_nat j + 1 = a + of_nat (Suc j)" by simp
  have "ready ([?x] @ (load_bytes m (a + of_nat (Suc j)) n @ ys)) c" using Suc.prems(4) by (simp add: load_bytes_Suc j)
  then obtain m1 c1 where 1: "call_printf P ''%c'' [ucast ?x] m c = Some (m1, c1)" "scratch_only P m m1" "shown [?x] c c1"
    "ready (load_bytes m (a + of_nat (Suc j)) n @ ys) c1"
    using call_printf_shows [OF assms(1) listing_calls(3) [OF Suc.prems(1), where a = "ucast ?x"], where ys = "load_bytes m (a + of_nat (Suc j)) n @ ys" and c = c]
    by (auto simp: listing_texts simp del: of_nat_Suc)
  have cl: "clear_of P (a + of_nat (Suc j)) n" using clear_of_offset [OF Suc.prems(2), of 1 n] Suc.prems(3) by (simp add: j [symmetric] add_ac)
  then have "load_bytes m1 (a + of_nat (Suc j)) n = load_bytes m (a + of_nat (Suc j)) n"
    using scratch_only_load_bytes [OF 1(2)] Suc.prems(3) by simp
  then obtain m' c' where "print_chars P a n (Suc j) m1 c1 = Some (m', c')" "scratch_only P m1 m'"
    "shown (load_bytes m (a + of_nat (Suc j)) n) c1 c'" "ready ys c'"
    using Suc.IH [OF literal_ok_frame [OF Suc.prems(1) 1(2)] cl, of c1] Suc.prems(3) 1(4) by auto
  then show ?case
    using 1(1) scratch_only_trans [OF 1(2)] shown_append [OF 1(3)] by (auto simp: load_bytes_Suc j [symmetric] add_ac)
qed

lemma print_name_shows:
  assumes "print_env_ok P" "\<forall>fmt \<in> set listing_formats. literal_ok P m fmt" "dentry_ok m a" "clear_of P a 44"
    "xs = bytes_of (if long_entry m a then ''file_name: '' else ''file name: '') @ entry_name m a @ bytes_of ''  ''"
    "ready (xs @ ys) c"
  shows "\<exists>m' c'. print_name P a (long_entry m a) m c = Some (m', c') \<and> scratch_only P m m' \<and> shown xs c c' \<and> ready ys c'"
proof (cases "long_entry m a")
  case False
  let ?str = "\<lambda>_. entry_name m a"
  have "cstr m a (entry_name m a)" using assms(3) False by (rule short_entry_cstr)
  moreover have "clear_of P a (Suc (length (entry_name m a)))"
    using clear_of_offset [OF assms(4), of 0] entry_name_length [of m a] by simp
  ultimately have "call_ok P m ?str ''file name: %s  '' [a]" using assms(2) by (intro listing_calls) (simp_all add: listing_formats_def)
  from call_printf_shows [OF assms(1) this] show ?thesis
    using assms(5,6) False by (simp add: print_name_def listing_texts)
next
  case True
  then have name: "load_bytes m a 32 = entry_name m a" using load_entry_name [of 32 m a] by (simp add: long_entry_def)
  have lit: "literal_ok P m ''file_name: ''" "literal_ok P m ''%c''" "literal_ok P m ''  ''"
    using assms(2) by (simp_all add: listing_formats_def)
  obtain m1 c1 where 1: "call_printf P ''file_name: '' [] m c = Some (m1, c1)" "scratch_only P m m1"
    "shown (bytes_of ''file_name: '') c c1" "ready (entry_name m a @ bytes_of ''  '' @ ys) c1"
    using call_printf_shows [OF assms(1) listing_calls(1) [OF lit(1)], where ys = "entry_name m a @ bytes_of ''  '' @ ys" and c = c] assms(5,6) True
    by (auto simp: listing_texts)
  have cl: "clear_of P a 32" using clear_of_offset [OF assms(4), of 0 32] by simp
  then have "load_bytes m1 a 32 = entry_name m a" using scratch_only_load_bytes [OF 1(2)] name by simp
  then obtain m2 c2 where 2: "print_chars P a 32 0 m1 c1 = Some (m2, c2)" "scratch_only P m1 m2" "shown (entry_name m a) c1 c2"
    "ready (bytes_of ''  '' @ ys) c2"
    using print_chars_shows [OF assms(1) literal_ok_frame [OF lit(2) 1(2)], of a 0 32 "bytes_of ''  '' @ ys" c1] cl 1(4) by auto
  have "literal_ok P m2 ''  ''" using literal_ok_frame lit(3) 1(2) 2(2) by blast
  from call_printf_shows [OF assms(1) listing_calls(2) [OF this], where ys = ys and c = c2] 2(4)
  obtain m3 c3 where "call_printf P ''  '' [] m2 c2 = Some (m3, c3)" "scratch_only P m2 m3" "shown (bytes_of ''  '') c2 c3" "ready ys c3"
    by (auto simp: listing_texts)
  then show ?thesis
    using True 1(1) 2(1) shown_append [OF 1(3) shown_append [OF 2(3)]] scratch_only_trans [OF 1(2) scratch_only_trans [OF 2(2)]] assms(5)
    by (simp add: print_name_def)
qed

lemma print_entry_shows:
  assumes "print_env_ok P" "\<forall>fmt \<in> set listing_formats. literal_ok P m fmt" "a = entry_at st i" "dentry_ok m a" "clear_of P a 44"
    "clear_of P (fs_name st + BLOCK_SIZE + load32 m (a + 36) * BLOCK_SIZE) 4" "ready (entry_line m st i @ ys) c"
  shows "\<exists>m' c'. print_entry P st a m c = Some (m', c') \<and> scratch_only P m m' \<and> shown (entry_line m st i) c c' \<and> ready ys c'"
proof -
  let ?ty = "load32 m (a + 32)" and ?ia = "fs_name st + BLOCK_SIZE + load32 m (a + 36) * BLOCK_SIZE"
  let ?x = "bytes_of (if long_entry m a then ''file_name: '' else ''file name: '') @ entry_name m a @ bytes_of ''  ''"
  let ?y = "bytes_of ''file type: '' @ show_signed ?ty @ bytes_of ''  ''" and ?z = "bytes_of ''file size: '' @ show_signed (load32 m ?ia) @ [10]"
  have line: "entry_line m st i = ?x @ ?y @ ?z" using assms(3) by (simp add: entry_line_def Let_def bytes_of_def)
  obtain n where n: "strlen m a = Some n" "(n > 32) = long_entry m a"
    using strlen_entry [OF assms(4)] entry_name_length [of m a] by (auto simp: word_less_nat_alt)
  obtain m1 c1 where 1: "print_name P a (long_entry m a) m c = Some (m1, c1)" "scratch_only P m m1" "shown ?x c c1" "ready (?y @ ?z @ ys) c1"
    using print_name_shows [OF assms(1,2,4,5) refl, of "?y @ ?z @ ys" c] assms(7) line by auto
  have eq1: "load32 m1 (a + 32) = ?ty" using scratch_only_load32 [OF 1(2) assms(5), of 32] by simp
  have lit1: "literal_ok P m1 ''file type: %d  ''" using assms(2) literal_ok_frame [OF _ 1(2)] by (simp add: listing_formats_def)
  obtain m2 c2 where 2: "call_printf P ''file type: %d  '' [?ty] m1 c1 = Some (m2, c2)" "scratch_only P m1 m2" "shown ?y c1 c2"
    "ready (?z @ ys) c2"
    using call_printf_shows [OF assms(1) listing_calls(4) [OF lit1, where a = ?ty], where ys = "?z @ ys" and c = c1] 1(4) by (auto simp: listing_texts)
  note fr = scratch_only_trans [OF 1(2) 2(2)]
  have eq2: "load32 m2 ?ia = load32 m ?ia" using scratch_only_load32 [OF fr assms(6), of 0] by simp
  have lit2: "literal_ok P m2 ''file size: %d\<newline>''" using assms(2) literal_ok_frame [OF _ fr] by (simp add: listing_formats_def)
  obtain m3 c3 where 3: "call_printf P ''file size: %d\<newline>'' [load32 m ?ia] m2 c2 = Some (m3, c3)" "scratch_only P m2 m3"
    "shown ?z c2 c3" "ready ys c3"
    using call_printf_shows [OF assms(1) listing_calls(5) [OF lit2, where a = "load32 m ?ia"], where ys = ys and c = c2] 2(4) by (auto simp: listing_texts)
  show ?thesis
    using 1(1) 2(1) 3 eq1 eq2 scratch_only_trans [OF fr] shown_append [OF 1(3) shown_append [OF 2(3)]] line
    by (simp add: print_entry_def n)
qed

lemma read_fs_from_shows:
  assumes "listing_ready P m st" "n = unat (num_dentry m (fs_addr st))" "i \<le> n"
    "ready (concat (map (entry_line m st) [i..<n]) @ ys) c"
  shows "\<exists>m' c'. read_fs_from P st (of_nat i) m c = Some (m', c') \<and> scratch_only P m m' \<and>
    shown (concat (map (entry_line m st) [i..<n])) c c' \<and> ready ys c'"
  using assms
proof (induction "n - i" arbitrary: i m c)
  case 0
  then have "\<not> (of_nat i < num_dentry m (fs_addr st))" using of_nat_less32 [of i "num_dentry m (fs_addr st)"] by simp
  then show ?case using 0 shown_Nil by (subst read_fs_from.simps) (auto simp: scratch_only_refl)
next
  case (Suc d)
  then have i: "i < n" "[i..<n] = i # [Suc i..<n]" by (simp_all add: upt_rec)
  then have lt: "of_nat i < num_dentry m (fs_addr st)" using of_nat_less32 [of i "num_dentry m (fs_addr st)"] Suc.prems(2) by simp
  have same: "copy_dentry st (of_nat i) m = m" using copy_dentry_same [OF Suc.prems(1)] i(1) Suc.prems(2) by simp
  have d: "d = n - Suc i" using Suc.hyps(2) by simp
  note e = listing_ready_entry [OF Suc.prems(1), of i, OF i(1) [unfolded Suc.prems(2)]]
  have "ready (entry_line m st i @ concat (map (entry_line m st) [Suc i..<n]) @ ys) c" using Suc.prems(4) i(2) by simp
  then obtain m1 c1 where 1: "print_entry P st (entry_at st i) m c = Some (m1, c1)" "scratch_only P m m1" "shown (entry_line m st i) c c1"
    "ready (concat (map (entry_line m st) [Suc i..<n]) @ ys) c1"
    using print_entry_shows [OF _ _ refl e(2,3,5)] Suc.prems(1) unfolding listing_ready_def by blast
  note fr = listing_ready_frame [OF Suc.prems(1) 1(2)]
  have lines: "map (entry_line m1 st) [Suc i..<n] = map (entry_line m st) [Suc i..<n]" using fr(3) Suc.prems(2) by simp
  obtain m' c' where 2: "read_fs_from P st (of_nat (Suc i)) m1 c1 = Some (m', c')" "scratch_only P m1 m'"
    "shown (concat (map (entry_line m st) [Suc i..<n])) c1 c'" "ready ys c'"
    using Suc.hyps(1) [OF _ fr(1), of "Suc i" c1] d fr(2) Suc.prems(2) i(1) 1(4) unfolding lines by auto
  have "read_fs_from P st (of_nat i) m c = read_fs_from P st (of_nat (Suc i)) m1 c1"
    using lt 1(1) by (subst read_fs_from.simps) (simp add: same entry_at_def add.commute)
  then show ?case using 2 scratch_only_trans [OF 1(2)] shown_append [OF 1(3) 2(3)] i(2) by auto
qed

end

subsection \<open>Properties\<close>

text \<open>C29: \<open>read_fs\<close> prints one line per directory entry on the active terminal, with the name, the
  file type and the size of the file, and nothing else; a name of 32 characters that is not
  terminated is cut after the 32.  Memory changes in the areas of \<open>printf\<close> only.  The driver's array
  holds the directory, and the text fits the terminal's page.\<close>

theorem read_fs_lists:
  assumes "listing_ready P m st" "mapped c" "t = active_terminal c"
    "ls = concat (map (entry_line m st) [0..<unat (num_dentry m (fs_addr st))])" "fits (view c t) ls"
  shows "\<exists>m' c'. read_fs P st m c = Some (m', c') \<and> scratch_only P m m' \<and> mapped c' \<and>
    view c' t = fold vput ls (view c t) \<and> (\<forall>u \<in> {0, 1, 2}. u \<noteq> t \<longrightarrow> view c' u = view c u)"
proof -
  obtain m' c' where "read_fs P st m c = Some (m', c')" "scratch_only P m m'" "printed ls c c'"
    using terminal_printer.read_fs_from_shows [OF assms(1) refl, of 0 c "[]"] assms(2-5) by (auto simp: read_fs_def)
  then show ?thesis using assms(3) by (auto simp: printed_def redrawn_def)
qed

text \<open>A disk with the file \<open>a\<close> of three bytes.\<close>

definition sample_print_env :: print_env where
  "sample_print_env = \<lparr>literal_at = pool_at 0x50000 listing_formats, arg_area = 0x60000, conv_area = 0x61000\<rparr>"

lemma listing_example:
  assumes "m = literal_pool 0x50000 listing_formats mounted_disk"
  shows "listing_ready sample_print_env m mounted" "num_dentry m (fs_addr mounted) = 1"
    "entry_line m mounted 0 = bytes_of ''file name: a  file type: 0  file size: 3\<newline>''"
proof -
  have pool: "128 * length listing_formats = 768" "\<forall>s \<in> set listing_formats. pool_string s"
    by (simp add: listing_formats_def, simp add: listing_formats_def pool_string_def bytes_of_def)
  have clear: "clear_of sample_print_env a n" if "unat a + n \<le> 0x60000 \<or> 0x62000 \<le> unat a \<and> unat a + n \<le> 2 ^ 32" for a n
    using that by (auto simp: clear_of_def sample_print_env_def intro!: disjoint_regions_apart)
  have ch: "changes_only 0x50000 768 mounted_disk m"
    using literal_pool_outside [of 0 listing_formats 768 "0x50000" mounted_disk] pool assms by simp
  have outside: "load_bytes m a n = load_bytes mounted_disk a n" if "unat a + n \<le> 0x50000 \<or> 0x51000 \<le> unat a \<and> unat a + n \<le> 2 ^ 32" for a n
    using that by (intro changes_only_load_bytes [OF ch] disjoint_regions_apart) auto
  have n: "num_dentry m (fs_addr mounted) = 1"
  proof -
    have "load32 mounted_disk 0x400000 = 1" by code_simp
    then show ?thesis using load32_cong [OF outside [of "0x400000" 4]] by (simp add: num_dentry_def mounted_def)
  qed
  then show "num_dentry m (fs_addr mounted) = 1" .
  have at: "entry_at mounted 0 = 0x10000" "fs_name mounted = 0x400000" "fs_addr mounted = 0x400000" by code_simp+
  have "load_bytes mounted_disk 0x10000 44 = load_bytes mounted_disk 0x400040 44" by code_simp
  then have same: "load_bytes m 0x10000 44 = load_bytes m 0x400040 44" using outside [of "0x10000" 44] outside [of "0x400040" 44] by simp
  have "entry_name mounted_disk 0x10000 = [97]" "load32 mounted_disk 0x10020 = 0" "load32 mounted_disk 0x10024 = 0" "load32 mounted_disk 0x401000 = 3"
    by code_simp+
  then have entry: "entry_name m 0x10000 = [97]" "load32 m 0x10020 = 0" "load32 m 0x10024 = 0" "load32 m 0x401000 = 3"
    using outside [of "0x10000" 32] load32_cong [OF outside [of "0x10020" 4]] load32_cong [OF outside [of "0x10024" 4]]
      load32_cong [OF outside [of "0x401000" 4]] by (simp_all add: entry_name_def)
  have "\<not> long_entry m 0x10000" "dentry_ok m 0x10000" using entry(1) by (simp_all add: long_entry_def dentry_ok_def)
  moreover have "literal_ok sample_print_env m fmt" if "fmt \<in> set listing_formats" for fmt
    unfolding assms using that pool clear [of "0x50000" 768] by (intro literal_pool_ok) (simp_all add: sample_print_env_def)
  moreover have "print_env_ok sample_print_env"
    unfolding print_env_ok_def sample_print_env_def by (rule disjoint_regions_apart) simp
  ultimately show "listing_ready sample_print_env m mounted"
    using same entry clear unfolding listing_ready_def n by (simp add: at)
  have "show_signed 0 = [48]" "show_signed 3 = [51]" by code_simp+
  with \<open>\<not> long_entry m 0x10000\<close> entry show "entry_line m mounted 0 = bytes_of ''file name: a  file type: 0  file size: 3\<newline>''"
    by (simp add: entry_line_def at bytes_of_def)
qed

theorem read_fs_lists_witness:
  "\<exists>m' c'. read_fs sample_print_env mounted (literal_pool 0x50000 listing_formats mounted_disk) boot_console = Some (m', c') \<and>
     view c' 0 = fold vput (bytes_of ''file name: a  file type: 0  file size: 3\<newline>'') (view boot_console 0)"
proof -
  let ?x = "bytes_of ''file name: a  file type: 0  file size: 3''"
  have x: "bytes_of ''file name: a  file type: 0  file size: 3\<newline>'' = ?x @ [10]" by (simp add: bytes_of_def)
  have "set ?x \<inter> {10, 13} = {}" by code_simp
  then have "fits (view boot_console 0) (?x @ [10])"
    using fits_row [OF boot_console_mapped(2)] in_range_on_page by (simp add: fits_append)
  moreover have "active_terminal boot_console = 0" by (simp add: boot_console_def)
  ultimately show ?thesis
    using read_fs_lists [OF listing_example(1) [OF refl] boot_console_mapped(1) refl refl] listing_example(2,3) [OF refl]
    by (auto simp: x)
qed

end
