(* ===== verification/Segments.thy ===== *)
theory Segments
  imports Prelude
begin

text \<open>
  Segment descriptors and the task state segment: the formats and macros of
  \<^verbatim>\<open>src/student-distrib/x86_desc.h\<close>, and the two descriptors that \<open>entry\<close> in \<^verbatim>\<open>kernel.c\<close> builds.
  A descriptor spreads its base address and its limit over several fields; the lemmas put
  together again what the processor reads.
\<close>

subsection \<open>Descriptors\<close>

record seg_desc =
  seg_lim_15_00 :: u16
  base_15_00 :: u16
  base_23_16 :: u8
  seg_type :: "4 word"
  seg_sys :: "1 word"
  seg_dpl :: "2 word"
  seg_present :: "1 word"
  seg_lim_19_16 :: "4 word"
  seg_avail :: "1 word"
  seg_reserved :: "1 word"
  seg_opsize :: "1 word"
  seg_granularity :: "1 word"
  base_31_24 :: u8

text \<open>The other member of the union: the two words of the descriptor.\<close>

definition seg_val :: "seg_desc \<Rightarrow> u32 \<times> u32" where
  "seg_val d =
    (ucast (seg_lim_15_00 d) OR push_bit 16 (ucast (base_15_00 d)),
     ucast (base_23_16 d) OR push_bit 8 (ucast (seg_type d)) OR push_bit 12 (ucast (seg_sys d)) OR
     push_bit 13 (ucast (seg_dpl d)) OR push_bit 15 (ucast (seg_present d)) OR push_bit 16 (ucast (seg_lim_19_16 d)) OR
     push_bit 20 (ucast (seg_avail d)) OR push_bit 21 (ucast (seg_reserved d)) OR push_bit 22 (ucast (seg_opsize d)) OR
     push_bit 23 (ucast (seg_granularity d)) OR push_bit 24 (ucast (base_31_24 d)))"

definition SET_LDT_PARAMS :: "u32 \<Rightarrow> u32 \<Rightarrow> seg_desc \<Rightarrow> seg_desc" where
  "SET_LDT_PARAMS addr lim d =
    d\<lparr>base_31_24 := ucast (drop_bit 24 (addr AND 0xFF000000)), base_23_16 := ucast (drop_bit 16 (addr AND 0x00FF0000)),
      base_15_00 := ucast (addr AND 0x0000FFFF), seg_lim_19_16 := ucast (drop_bit 16 (lim AND 0x000F0000)),
      seg_lim_15_00 := ucast (lim AND 0x0000FFFF)\<rparr>"

definition SET_TSS_PARAMS :: "u32 \<Rightarrow> u32 \<Rightarrow> seg_desc \<Rightarrow> seg_desc" where
  "SET_TSS_PARAMS addr lim d =
    d\<lparr>base_31_24 := ucast (drop_bit 24 (addr AND 0xFF000000)), base_23_16 := ucast (drop_bit 16 (addr AND 0x00FF0000)),
      base_15_00 := ucast (addr AND 0x0000FFFF), seg_lim_19_16 := ucast (drop_bit 16 (lim AND 0x000F0000)),
      seg_lim_15_00 := ucast (lim AND 0x0000FFFF)\<rparr>"

text \<open>The task state segment without \<open>esp0\<close>, which execute, halt and the timer change: that field is
  \<open>tss_esp0\<close> of the kernel's state.\<close>

record tss_t =
  prev_task_link :: u16
  prev_task_link_pad :: u16
  ss0 :: u16
  ss0_pad :: u16
  esp1 :: u32
  ss1 :: u16
  ss1_pad :: u16
  esp2 :: u32
  ss2 :: u16
  ss2_pad :: u16
  tss_cr3 :: u32
  tss_eip :: u32
  tss_eflags :: u32
  tss_eax :: u32
  tss_ecx :: u32
  tss_edx :: u32
  tss_ebx :: u32
  tss_esp :: u32
  tss_ebp :: u32
  tss_esi :: u32
  tss_edi :: u32
  tss_es :: u16
  es_pad :: u16
  tss_cs :: u16
  cs_pad :: u16
  tss_ss :: u16
  ss_pad :: u16
  tss_ds :: u16
  ds_pad :: u16
  tss_fs :: u16
  fs_pad :: u16
  tss_gs :: u16
  gs_pad :: u16
  ldt_segment_selector :: u16
  ldt_pad :: u16
  debug_trap :: "1 word"
  io_pad :: "15 word"
  io_base_addr :: u16

abbreviation (input) KERNEL_DS :: u16 where "KERNEL_DS \<equiv> 0x0018"
abbreviation (input) KERNEL_TSS :: u16 where "KERNEL_TSS \<equiv> 0x0030"
abbreviation (input) KERNEL_LDT :: u16 where "KERNEL_LDT \<equiv> 0x0038"
abbreviation (input) TSS_SIZE :: u32 where "TSS_SIZE \<equiv> 104"

text \<open>The two local descriptors of \<open>entry\<close>; \<open>d\<close> is what the local variable holds before.\<close>

definition the_ldt_desc :: "u32 \<Rightarrow> u32 \<Rightarrow> seg_desc \<Rightarrow> seg_desc" where
  "the_ldt_desc ldt ldt_size d = SET_LDT_PARAMS ldt ldt_size
    (d\<lparr>seg_granularity := 0, seg_opsize := 1, seg_reserved := 0, seg_avail := 0, seg_present := 1, seg_dpl := 0,
       seg_sys := 0, seg_type := 2\<rparr>)"

definition the_tss_desc :: "u32 \<Rightarrow> u32 \<Rightarrow> seg_desc \<Rightarrow> seg_desc" where
  "the_tss_desc tss tss_size d = SET_TSS_PARAMS tss tss_size
    (d\<lparr>seg_granularity := 0, seg_opsize := 0, seg_reserved := 0, seg_avail := 0,
       seg_lim_19_16 := ucast (TSS_SIZE AND 0x000F0000), seg_present := 1, seg_dpl := 0, seg_sys := 0, seg_type := 9,
       seg_lim_15_00 := ucast (TSS_SIZE AND 0x0000FFFF)\<rparr>)"

subsection \<open>What the processor reads\<close>

text \<open>Base and limit of a descriptor, and its access byte with the four flags above the limit, from the
  two words, by the layout in the processor manual.\<close>

definition desc_base :: "u32 \<times> u32 \<Rightarrow> u32" where
  "desc_base v = drop_bit 16 (fst v) OR push_bit 16 (snd v AND 0xFF) OR (snd v AND 0xFF000000)"

definition desc_limit :: "u32 \<times> u32 \<Rightarrow> u32" where
  "desc_limit v = (fst v AND 0xFFFF) OR (snd v AND 0x000F0000)"

definition desc_access :: "u32 \<times> u32 \<Rightarrow> u32" where
  "desc_access v = snd v AND 0x00F0FF00"

lemma seg_masks:
  "(0xFF :: u32) = mask 8" "(0xFFFF :: u32) = mask 16" "(0xFF0000 :: u32) = push_bit 16 (mask 8)"
  "(0xF0000 :: u32) = push_bit 16 (mask 4)" "(0xFF000000 :: u32) = push_bit 24 (mask 8)" "(0xF0FF00 :: u32) = push_bit 8 (mask 8) OR push_bit 20 (mask 4)"
  by (simp_all add: mask_eq_exp_minus_1)

text \<open>A field under a mask that lies below it, above it or over it.\<close>

lemma field_above: "j \<le> k \<Longrightarrow> push_bit k (w :: u32) AND mask j = 0"
  by (rule bit_eqI) (auto simp: bit_simps)

lemma field_below: "k + LENGTH('a) \<le> j \<Longrightarrow> push_bit k (ucast (x :: 'a::len word) :: u32) AND push_bit j (mask n) = 0"
  by (rule bit_eqI) (auto simp: bit_simps dest: bit_imp_le_length)

lemma field_over: "j + n \<le> k \<Longrightarrow> push_bit k (w :: u32) AND push_bit j (mask n) = 0"
  by (rule bit_eqI) (auto simp: bit_simps)

lemma field_in:
  "j \<le> k \<Longrightarrow> k + LENGTH('a) \<le> j + n \<Longrightarrow>
    push_bit k (ucast (x :: 'a::len word) :: u32) AND push_bit j (mask n) = push_bit k (ucast x)"
  by (rule bit_eqI) (auto simp: bit_simps dest: bit_imp_le_length)

lemma field_low:
  "LENGTH('a) \<le> n \<Longrightarrow> (ucast (x :: 'a::len word) :: u32) AND mask n = ucast x"
  "LENGTH('a) \<le> j \<Longrightarrow> (ucast (x :: 'a::len word) :: u32) AND push_bit j (mask n) = 0"
  by (rule bit_eqI, auto simp: bit_simps dest: bit_imp_le_length)+

lemmas fields = field_above field_below field_over field_in field_low bit.conj_disj_distrib2

text \<open>The parts of an address or a limit, cut out and put back in place.\<close>

lemma parts:
  "ucast (ucast ((a :: u32) AND 0xFFFF) :: u16) = a AND 0xFFFF"
  "push_bit 16 (ucast (ucast (drop_bit 16 (a AND 0xFF0000)) :: u8)) = a AND 0xFF0000"
  "push_bit 24 (ucast (ucast (drop_bit 24 (a AND 0xFF000000)) :: u8)) = a AND 0xFF000000"
  "push_bit 16 (ucast (ucast (drop_bit 16 (a AND 0xF0000)) :: 4 word)) = a AND 0xF0000"
  unfolding seg_masks by (rule bit_eqI, auto simp: bit_simps)+

lemma whole_address: "(a AND 0xFFFF) OR (a AND 0xFF0000) OR (a AND 0xFF000000) = (a :: u32)"
  unfolding seg_masks by (rule bit_eqI) (auto simp: bit_simps dest: bit_imp_le_length)

lemma desc_parts:
  "desc_base (seg_val d) = ucast (base_15_00 d) OR push_bit 16 (ucast (base_23_16 d)) OR push_bit 24 (ucast (base_31_24 d))"
  "desc_limit (seg_val d) = ucast (seg_lim_15_00 d) OR push_bit 16 (ucast (seg_lim_19_16 d))"
  "desc_access (seg_val d) = push_bit 8 (ucast (seg_type d)) OR push_bit 12 (ucast (seg_sys d)) OR push_bit 13 (ucast (seg_dpl d)) OR
     push_bit 15 (ucast (seg_present d)) OR push_bit 20 (ucast (seg_avail d)) OR push_bit 21 (ucast (seg_reserved d)) OR
     push_bit 22 (ucast (seg_opsize d)) OR push_bit 23 (ucast (seg_granularity d))"
proof -
  have lo: "drop_bit 16 (ucast (seg_lim_15_00 d) OR push_bit 16 (ucast (base_15_00 d)) :: u32) = ucast (base_15_00 d)"
    by (rule bit_eqI) (auto simp: bit_simps dest: bit_imp_le_length)
  then show "desc_base (seg_val d) = ucast (base_15_00 d) OR push_bit 16 (ucast (base_23_16 d)) OR push_bit 24 (ucast (base_31_24 d))"
    unfolding desc_base_def seg_val_def fst_conv snd_conv lo unfolding seg_masks by (simp add: fields)
  show "desc_limit (seg_val d) = ucast (seg_lim_15_00 d) OR push_bit 16 (ucast (seg_lim_19_16 d))"
    unfolding desc_limit_def seg_val_def fst_conv snd_conv seg_masks by (simp add: fields)
  show "desc_access (seg_val d) = push_bit 8 (ucast (seg_type d)) OR push_bit 12 (ucast (seg_sys d)) OR push_bit 13 (ucast (seg_dpl d)) OR
     push_bit 15 (ucast (seg_present d)) OR push_bit 20 (ucast (seg_avail d)) OR push_bit 21 (ucast (seg_reserved d)) OR
     push_bit 22 (ucast (seg_opsize d)) OR push_bit 23 (ucast (seg_granularity d))"
    unfolding desc_access_def seg_val_def snd_conv seg_masks bit.conj_disj_distrib by (simp add: fields or.assoc)
qed

lemma params_decode:
  assumes "base_31_24 d = ucast (drop_bit 24 (a AND 0xFF000000))" "base_23_16 d = ucast (drop_bit 16 (a AND 0x00FF0000))"
    "base_15_00 d = ucast (a AND 0x0000FFFF)" "seg_lim_19_16 d = ucast (drop_bit 16 (lim AND 0x000F0000))"
    "seg_lim_15_00 d = ucast (lim AND 0x0000FFFF)"
  shows "desc_base (seg_val d) = a" "desc_limit (seg_val d) = lim AND 0xFFFFF"
proof -
  have "(lim AND 0xFFFF) OR (lim AND 0xF0000) = lim AND (0xFFFFF :: u32)" by (simp add: bit.conj_disj_distrib [symmetric])
  then show "desc_base (seg_val d) = a" "desc_limit (seg_val d) = lim AND 0xFFFFF"
    unfolding desc_parts assms parts using whole_address by simp_all
qed

text \<open>The two descriptors of \<open>entry\<close>: present, for the kernel only, with the base and limit they were given;
  an LDT, and a free 32-bit task state segment.\<close>

lemma ldt_desc_decodes:
  "desc_base (seg_val (the_ldt_desc ldt lim d)) = ldt" "desc_limit (seg_val (the_ldt_desc ldt lim d)) = lim AND 0xFFFFF"
  "desc_access (seg_val (the_ldt_desc ldt lim d)) = 0x408200"
proof -
  show "desc_base (seg_val (the_ldt_desc ldt lim d)) = ldt" "desc_limit (seg_val (the_ldt_desc ldt lim d)) = lim AND 0xFFFFF"
    by (rule params_decode; simp add: the_ldt_desc_def SET_LDT_PARAMS_def)+
  show "desc_access (seg_val (the_ldt_desc ldt lim d)) = 0x408200"
    by (simp add: desc_parts the_ldt_desc_def SET_LDT_PARAMS_def)
qed

lemma tss_desc_decodes:
  "desc_base (seg_val (the_tss_desc tss lim d)) = tss" "desc_limit (seg_val (the_tss_desc tss lim d)) = lim AND 0xFFFFF"
  "desc_access (seg_val (the_tss_desc tss lim d)) = 0x8900"
proof -
  show "desc_base (seg_val (the_tss_desc tss lim d)) = tss" "desc_limit (seg_val (the_tss_desc tss lim d)) = lim AND 0xFFFFF"
    by (rule params_decode; simp add: the_tss_desc_def SET_TSS_PARAMS_def)+
  show "desc_access (seg_val (the_tss_desc tss lim d)) = 0x8900"
    by (simp add: desc_parts the_tss_desc_def SET_TSS_PARAMS_def)
qed

end
