(* ===== verification/Boot.thy ===== *)
theory Boot
  imports Process_Table Segments Printf
begin

text \<open>
  Booting: \<open>entry\<close> of \<^verbatim>\<open>src/student-distrib/kernel.c\<close>, from the boot loader's information structure
  (\<^verbatim>\<open>multiboot.h\<close>) to the start of the first shell.  The structure is read from memory at the offsets
  of its fields; its contents are what the boot loader left there.  Printing before
  \<open>init_paging\<close> goes to physical addresses.  Where the linker puts the tables is a parameter, and
  the accesses to the ports, which the drivers otherwise keep apart, are one trace here: each
  initialisation starts from the accesses made so far.
\<close>

subsection \<open>The boot information\<close>

text \<open>The sixteen bytes of a module, of which \<open>n\<close> are left from index \<open>i\<close> on; \<open>char\<close> is signed.\<close>

primrec print_bytes :: "print_env \<Rightarrow> u32 \<Rightarrow> nat \<Rightarrow> nat \<Rightarrow> mem \<Rightarrow> console \<Rightarrow> (mem \<times> console) option" where
  "print_bytes P md 0 i m c = Some (m, c)"
| "print_bytes P md (Suc n) i m c = do {
     (m, c) \<leftarrow> call_printf P ''0x%x '' [scast (m (load32 m md + of_nat i))] m c;
     print_bytes P md n (Suc i) m c
   }"

text \<open>One module, and the loop over the modules, which leaves the address of the last one in \<open>fs\<close>.\<close>

definition print_module :: "print_env \<Rightarrow> u32 \<Rightarrow> u32 \<Rightarrow> mem \<Rightarrow> console \<Rightarrow> (mem \<times> console) option" where
  "print_module P mod_count md m c = do {
     (m, c) \<leftarrow> call_printf P ''Module %d loaded at address: 0x%#x\<newline>'' [mod_count, load32 m md] m c;
     (m, c) \<leftarrow> call_printf P ''Module %d ends at address: 0x%#x\<newline>'' [mod_count, load32 m (md + 4)] m c;
     (m, c) \<leftarrow> call_printf P ''First few bytes of module:\<newline>'' [] m c;
     (m, c) \<leftarrow> print_bytes P md 16 0 m c;
     call_printf P ''\<newline>'' [] m c
   }"

partial_function (option) print_modules ::
  "print_env \<Rightarrow> u32 \<Rightarrow> u32 \<Rightarrow> u32 \<Rightarrow> u32 \<Rightarrow> mem \<Rightarrow> console \<Rightarrow> (u32 \<times> mem \<times> console) option" where
  "print_modules P mbi mod_count md fs_start m c =
    (if mod_count < load32 m (mbi + 20) then do {
       let fs_start = load32 m md;
       (m, c) \<leftarrow> print_module P mod_count md m c;
       print_modules P mbi (mod_count + 1) (md + 16) fs_start m c
     } else Some (fs_start, m, c))"

text \<open>The memory map: a list of regions, each with its size in front.\<close>

definition print_region :: "print_env \<Rightarrow> u32 \<Rightarrow> mem \<Rightarrow> console \<Rightarrow> (mem \<times> console) option" where
  "print_region P mmap m c = call_printf P
     '' size = 0x%x,     base_addr = 0x%#x%#x\<newline>     type = 0x%x,  length    = 0x%#x%#x\<newline>''
     [load32 m mmap, load32 m (mmap + 8), load32 m (mmap + 4), load32 m (mmap + 20), load32 m (mmap + 16), load32 m (mmap + 12)] m c"

partial_function (option) print_mmap :: "print_env \<Rightarrow> u32 \<Rightarrow> u32 \<Rightarrow> mem \<Rightarrow> console \<Rightarrow> (mem \<times> console) option" where
  "print_mmap P mbi mmap m c =
    (if mmap < load32 m (mbi + 48) + load32 m (mbi + 44) then do {
       (m, c) \<leftarrow> print_region P mmap m c;
       print_mmap P mbi (mmap + load32 m mmap + 4) m c
     } else Some (m, c))"

definition CHECK_FLAG :: "u32 \<Rightarrow> nat \<Rightarrow> bool" where
  "CHECK_FLAG fl b \<longleftrightarrow> fl AND push_bit b 1 \<noteq> 0"

text \<open>A message that is printed when a flag is set.\<close>

definition print_if :: "bool \<Rightarrow> print_env \<Rightarrow> string \<Rightarrow> u32 list \<Rightarrow> mem \<Rightarrow> console \<Rightarrow> (mem \<times> console) option" where
  "print_if b P fmt args m c = (if b then call_printf P fmt args m c else Some (m, c))"

text \<open>The section headers and the memory map.\<close>

definition print_maps :: "print_env \<Rightarrow> u32 \<Rightarrow> mem \<Rightarrow> console \<Rightarrow> (mem \<times> console) option" where
  "print_maps P mbi m c = do {
     (m, c) \<leftarrow> print_if (CHECK_FLAG (load32 m mbi) 5) P
       ''elf_sec: num = %u, size = 0x%#x, addr = 0x%#x, shndx = 0x%#x\<newline>''
       [load32 m (mbi + 28), load32 m (mbi + 32), load32 m (mbi + 36), load32 m (mbi + 40)] m c;
     if CHECK_FLAG (load32 m mbi) 6 then do {
       (m, c) \<leftarrow> call_printf P ''mmap_addr = 0x%#x, mmap_length = 0x%x\<newline>'' [load32 m (mbi + 48), load32 m (mbi + 44)] m c;
       print_mmap P mbi (load32 m (mbi + 48)) m c
     } else Some (m, c)
   }"

text \<open>The first half of \<open>entry\<close>, from the flags to the memory map: whether to go on, and the address of
  the file system.\<close>

definition print_info :: "print_env \<Rightarrow> u32 \<Rightarrow> u32 \<Rightarrow> mem \<Rightarrow> console \<Rightarrow> (bool \<times> u32 \<times> mem \<times> console) option" where
  "print_info P mbi fs_start m c = do {
     (m, c) \<leftarrow> call_printf P ''flags = 0x%#x\<newline>'' [load32 m mbi] m c;
     (m, c) \<leftarrow> print_if (CHECK_FLAG (load32 m mbi) 0) P ''mem_lower = %uKB, mem_upper = %uKB\<newline>''
       [load32 m (mbi + 4), load32 m (mbi + 8)] m c;
     (m, c) \<leftarrow> print_if (CHECK_FLAG (load32 m mbi) 1) P ''boot_device = 0x%#x\<newline>'' [load32 m (mbi + 12)] m c;
     (m, c) \<leftarrow> print_if (CHECK_FLAG (load32 m mbi) 2) P ''cmdline = %s\<newline>'' [load32 m (mbi + 16)] m c;
     (fs_start, m, c) \<leftarrow> (if CHECK_FLAG (load32 m mbi) 3 then print_modules P mbi 0 (load32 m (mbi + 24)) fs_start m c else Some (fs_start, m, c));
     if CHECK_FLAG (load32 m mbi) 4 \<and> CHECK_FLAG (load32 m mbi) 5 then do {
       (m, c) \<leftarrow> call_printf P ''Both bits 4 and 5 are set.\<newline>'' [] m c;
       Some (False, fs_start, m, c)
     } else do {
       (m, c) \<leftarrow> print_maps P mbi m c;
       Some (True, fs_start, m, c)
     }
   }"

subsection \<open>Initialisation\<close>

record link_env =
  ldt_addr :: u32
  ldt_size :: u32
  tss_addr :: u32
  tss_size :: u32
  directory_addr :: u32
  open_test :: u32
  uninit_desc :: seg_desc

record machine =
  kern :: kernel
  ldt_desc_ptr :: seg_desc
  tss_desc_ptr :: seg_desc
  tss :: tss_t
  ldtr :: u16
  task_reg :: u16
  interrupts :: bool

text \<open>The second half of \<open>entry\<close>: the descriptors, and the initialisers in the order of the source.\<close>

definition load_descriptors :: "link_env \<Rightarrow> machine \<Rightarrow> machine" where
  "load_descriptors L M =
    (let M = M\<lparr>ldt_desc_ptr := the_ldt_desc (ldt_addr L) (ldt_size L) (uninit_desc L), ldtr := KERNEL_LDT\<rparr>;
         M = M\<lparr>tss_desc_ptr := the_tss_desc (tss_addr L) (tss_size L) (uninit_desc L)\<rparr>
     in M\<lparr>tss := (tss M)\<lparr>ldt_segment_selector := KERNEL_LDT, ss0 := KERNEL_DS\<rparr>,
          kern := (kern M)\<lparr>tss_esp0 := 0x800000\<rparr>, task_reg := KERNEL_TSS\<rparr>)"

definition init_drivers :: "link_env \<Rightarrow> device \<Rightarrow> u32 \<Rightarrow> kernel \<Rightarrow> kernel option" where
  "init_drivers L dev fs_start s = do {
     let c = con (keyb s);
     let c = c\<lparr>ports := i8259_init dev (ports c)\<rparr>;
     let c = c\<lparr>pages := init_paging (directory_addr L) (tables_addr c) (pages c)\<rparr>;
     c \<leftarrow> clear c;
     (_, m, st) \<leftarrow> fs_init fs_start (kernel_mem s) (fs s);
     let c = keyboard_intialization dev c;
     let r = rtc_initialization dev (open_test L) ((rtc s)\<lparr>rtc_ports := ports c\<rparr>);
     tr \<leftarrow> PIT_init dev 65535 (rtc_ports r);
     Some (s\<lparr>kernel_mem := m, fs := st, rtc := r, keyb := (keyb s)\<lparr>con := c\<lparr>ports := tr\<rparr>\<rparr>\<rparr>)
   }"

text \<open>The loop at the end, which calls \<open>execute\<close> until it does not come back.\<close>

partial_function (option) run_shell :: "nat \<Rightarrow> env \<Rightarrow> kernel \<Rightarrow> (control \<times> kernel) option" where
  "run_shell n env s = do {
     (r, s) \<leftarrow> c_execute n env (shell_name env) s;
     case r of Returned _ \<Rightarrow> run_shell n env s | _ \<Rightarrow> Some (r, s)
   }"

abbreviation (input) MULTIBOOT_BOOTLOADER_MAGIC :: u32 where "MULTIBOOT_BOOTLOADER_MAGIC \<equiv> 0x2BADB002"

text \<open>All of \<open>entry\<close>: no outcome where it returns to \<^verbatim>\<open>boot.S\<close>, which halts, or else what the call of the
  first program comes to.\<close>

definition entry :: "print_env \<Rightarrow> link_env \<Rightarrow> device \<Rightarrow> nat \<Rightarrow> env \<Rightarrow> u32 \<Rightarrow> u32 \<Rightarrow> machine \<Rightarrow> (control option \<times> machine) option" where
  "entry P L dev n env magic addr M = do {
     c \<leftarrow> clear (con (keyb (kern M)));
     let m = kernel_mem (kern M);
     if magic \<noteq> MULTIBOOT_BOOTLOADER_MAGIC then do {
       (m, c) \<leftarrow> call_printf P ''Invalid magic number: 0x%#x\<newline>'' [magic] m c;
       Some (None, M\<lparr>kern := set_console c ((kern M)\<lparr>kernel_mem := m\<rparr>)\<rparr>)
     } else do {
       (go_on, fs_start, m, c) \<leftarrow> print_info P addr 0 m c;
       let M = M\<lparr>kern := set_console c ((kern M)\<lparr>kernel_mem := m\<rparr>)\<rparr>;
       if \<not> go_on then Some (None, M)
       else do {
         let M = load_descriptors L M;
         s \<leftarrow> init_drivers L dev fs_start (kern M);
         let M = M\<lparr>kern := s, interrupts := True\<rparr>;
         (r, s) \<leftarrow> run_shell n env (kern M);
         Some (Some r, M\<lparr>kern := s\<rparr>)
       }
     }
   }"

subsection \<open>Printing the boot information\<close>

definition boot_formats :: "string list" where
  "boot_formats = [''flags = 0x%#x\<newline>'', ''mem_lower = %uKB, mem_upper = %uKB\<newline>'', ''boot_device = 0x%#x\<newline>'',
     ''cmdline = %s\<newline>'', ''Module %d loaded at address: 0x%#x\<newline>'', ''Module %d ends at address: 0x%#x\<newline>'',
     ''First few bytes of module:\<newline>'', ''0x%x '', ''\<newline>'', ''Both bits 4 and 5 are set.\<newline>'',
     ''elf_sec: num = %u, size = 0x%#x, addr = 0x%#x, shndx = 0x%#x\<newline>'', ''mmap_addr = 0x%#x, mmap_length = 0x%x\<newline>'',
     '' size = 0x%x,     base_addr = 0x%#x%#x\<newline>     type = 0x%x,  length    = 0x%#x%#x\<newline>'']"

text \<open>What the boot loader promises: the memory map ends, after \<open>n\<close> regions at most.\<close>

primrec mmap_ends :: "print_env \<Rightarrow> mem \<Rightarrow> u32 \<Rightarrow> nat \<Rightarrow> u32 \<Rightarrow> bool" where
  "mmap_ends P m stop 0 a \<longleftrightarrow> \<not> a < stop"
| "mmap_ends P m stop (Suc n) a \<longleftrightarrow> (a < stop \<longrightarrow> clear_of P a 4 \<and> mmap_ends P m stop n (a + load32 m a + 4))"

definition info_ok :: "print_env \<Rightarrow> u32 \<Rightarrow> mem \<Rightarrow> bool" where
  "info_ok P mbi m \<longleftrightarrow> print_env_ok P \<and> (\<forall>fmt \<in> set boot_formats. literal_ok P m fmt) \<and> clear_of P mbi 52 \<and>
    (CHECK_FLAG (load32 m mbi) 2 \<longrightarrow>
      (\<exists>cs. cstr m (load32 m (mbi + 16)) cs \<and> clear_of P (load32 m (mbi + 16)) (Suc (length cs)))) \<and>
    (CHECK_FLAG (load32 m mbi) 3 \<longrightarrow>
      (\<forall>i < unat (load32 m (mbi + 20)). clear_of P (load32 m (mbi + 24) + 16 * of_nat i) 8)) \<and>
    (CHECK_FLAG (load32 m mbi) 6 \<longrightarrow>
      (\<exists>n. mmap_ends P m (load32 m (mbi + 48) + load32 m (mbi + 44)) n (load32 m (mbi + 48))))"

text \<open>Nothing has happened but printing.\<close>

definition only_printed :: "print_env \<Rightarrow> mem \<times> console \<Rightarrow> mem \<times> console \<Rightarrow> bool" where
  "only_printed P x y \<longleftrightarrow> scratch_only P (fst x) (fst y) \<and> same_console (snd x) (snd y)"

lemma only_printed_refl: "only_printed P x x"
  by (simp add: only_printed_def scratch_only_refl same_console_refl)

lemma only_printed_trans: "only_printed P x y \<Longrightarrow> only_printed P y z \<Longrightarrow> only_printed P x z"
  by (auto simp: only_printed_def intro: scratch_only_trans same_console_trans)

lemma only_printed_off: "only_printed P (m, c) (m', c') \<Longrightarrow> paging_off c' = paging_off c"
  by (auto simp: only_printed_def paging_off_same)

lemma call_off:
  assumes "print_env_ok P" "call_ok P m str fmt args" "paging_off c"
  shows "\<exists>m' c'. call_printf P fmt args m c = Some (m', c') \<and> only_printed P (m, c) (m', c')"
  using physical_printer.call_printf_shows [OF assms] by (auto simp: only_printed_def)

lemma boot_calls:
  assumes "\<forall>fmt \<in> set boot_formats. literal_ok P m fmt"
  shows "call_ok P m str ''flags = 0x%#x\<newline>'' [a]" "call_ok P m str ''mem_lower = %uKB, mem_upper = %uKB\<newline>'' [a, b]"
    "call_ok P m str ''boot_device = 0x%#x\<newline>'' [a]"
    "call_ok P m str ''Module %d loaded at address: 0x%#x\<newline>'' [a, b]" "call_ok P m str ''Module %d ends at address: 0x%#x\<newline>'' [a, b]"
    "call_ok P m str ''First few bytes of module:\<newline>'' []" "call_ok P m str ''0x%x '' [a]" "call_ok P m str ''\<newline>'' []"
    "call_ok P m str ''Both bits 4 and 5 are set.\<newline>'' []"
    "call_ok P m str ''elf_sec: num = %u, size = 0x%#x, addr = 0x%#x, shndx = 0x%#x\<newline>'' [a, b, c, d]"
    "call_ok P m str ''mmap_addr = 0x%#x, mmap_length = 0x%x\<newline>'' [a, b]"
    "call_ok P m str '' size = 0x%x,     base_addr = 0x%#x%#x\<newline>     type = 0x%x,  length    = 0x%#x%#x\<newline>'' [a, b, c, d, e, f]"
    "cstr m a cs \<Longrightarrow> clear_of P a (Suc (length cs)) \<Longrightarrow> call_ok P m (\<lambda>_. cs) ''cmdline = %s\<newline>'' [a]"
  using assms by (simp_all add: call_ok_def boot_formats_def bytes_of_def takes_arg_def)

lemma info_words:
  assumes "info_ok P mbi m" "scratch_only P m m'"
  shows "load32 m' mbi = load32 m mbi" "load32 m' (mbi + 16) = load32 m (mbi + 16)" "load32 m' (mbi + 20) = load32 m (mbi + 20)"
    "load32 m' (mbi + 24) = load32 m (mbi + 24)" "load32 m' (mbi + 44) = load32 m (mbi + 44)" "load32 m' (mbi + 48) = load32 m (mbi + 48)"
proof -
  have "load32 m' (mbi + of_nat i) = load32 m (mbi + of_nat i)" if "i + 4 \<le> 52" for i
    using assms that by (intro scratch_only_load32 [of P m m' mbi 52]) (simp_all add: info_ok_def)
  from this [of 0] this [of 16] this [of 20] this [of 24] this [of 44] this [of 48]
  show "load32 m' mbi = load32 m mbi" "load32 m' (mbi + 16) = load32 m (mbi + 16)" "load32 m' (mbi + 20) = load32 m (mbi + 20)"
    "load32 m' (mbi + 24) = load32 m (mbi + 24)" "load32 m' (mbi + 44) = load32 m (mbi + 44)" "load32 m' (mbi + 48) = load32 m (mbi + 48)"
    by simp_all
qed

lemma mmap_ends_frame:
  assumes "scratch_only P m m'"
  shows "mmap_ends P m stop n a \<Longrightarrow> mmap_ends P m' stop n a"
proof (induction n arbitrary: a)
  case (Suc n)
  moreover have "load32 m' a = load32 m a" if "clear_of P a 4" using scratch_only_load32 [OF assms that, of 0] by simp
  ultimately show ?case by simp
qed simp

lemma info_ok_frame:
  assumes "info_ok P mbi m" "scratch_only P m m'"
  shows "info_ok P mbi m'"
proof -
  note w = info_words [OF assms]
  have "\<forall>fmt \<in> set boot_formats. literal_ok P m' fmt" using assms literal_ok_frame unfolding info_ok_def by blast
  moreover have "\<exists>cs. cstr m' a cs \<and> clear_of P a (Suc (length cs))" if "cstr m a cs" "clear_of P a (Suc (length cs))" for a cs
    using scratch_only_cstr [OF assms(2) that] that by blast
  ultimately show ?thesis
    using assms(1) mmap_ends_frame [OF assms(2)] unfolding info_ok_def w by blast
qed

lemma print_bytes_off:
  assumes "print_env_ok P" "\<forall>fmt \<in> set boot_formats. literal_ok P m fmt" "paging_off c"
  shows "\<exists>m' c'. print_bytes P md n i m c = Some (m', c') \<and> only_printed P (m, c) (m', c')"
  using assms(2,3)
proof (induction n arbitrary: i m c)
  case (Suc n)
  obtain m1 c1 where 1: "call_printf P ''0x%x '' [scast (m (load32 m md + of_nat i))] m c = Some (m1, c1)" "only_printed P (m, c) (m1, c1)"
    using call_off [OF assms(1) boot_calls(7) [OF Suc.prems(1)] Suc.prems(2)] by blast
  have "\<forall>fmt \<in> set boot_formats. literal_ok P m1 fmt" using Suc.prems(1) 1(2) literal_ok_frame unfolding only_printed_def by fastforce
  then obtain m2 c2 where "print_bytes P md n (Suc i) m1 c1 = Some (m2, c2)" "only_printed P (m1, c1) (m2, c2)"
    using Suc.IH [of m1 c1 "Suc i"] Suc.prems(2) only_printed_off [OF 1(2)] by blast
  then show ?case using 1 only_printed_trans by fastforce
qed (simp add: only_printed_refl)

text \<open>A step of a sequence of calls.\<close>

lemma say:
  assumes "info_ok P mbi m" "paging_off c"
    "\<And>m. \<forall>fmt \<in> set boot_formats. literal_ok P m fmt \<Longrightarrow> call_ok P m str fmt args"
  obtains m' c' where "call_printf P fmt args m c = Some (m', c')" "only_printed P (m, c) (m', c')" "info_ok P mbi m'" "paging_off c'"
    "load32 m' mbi = load32 m mbi"
proof -
  have "print_env_ok P" "call_ok P m str fmt args" using assms(1,3) by (simp_all add: info_ok_def)
  then obtain m' c' where "call_printf P fmt args m c = Some (m', c')" and p: "only_printed P (m, c) (m', c')"
    using call_off [OF _ _ assms(2)] by blast
  moreover have "info_ok P mbi m'" using info_ok_frame [OF assms(1)] p by (simp add: only_printed_def)
  moreover have "paging_off c'" using only_printed_off [OF p] assms(2) by simp
  moreover have "load32 m' mbi = load32 m mbi" using info_words(1) [OF assms(1)] p by (simp add: only_printed_def)
  ultimately show thesis using that by blast
qed

lemma print_module_off:
  assumes "info_ok P mbi m" "paging_off c"
  shows "\<exists>m' c'. print_module P k md m c = Some (m', c') \<and> only_printed P (m, c) (m', c')"
proof -
  obtain m1 c1 where 1: "call_printf P ''Module %d loaded at address: 0x%#x\<newline>'' [k, load32 m md] m c = Some (m1, c1)"
    "only_printed P (m, c) (m1, c1)" "info_ok P mbi m1" "paging_off c1"
    using say [OF assms boot_calls(4)] by blast
  obtain m2 c2 where 2: "call_printf P ''Module %d ends at address: 0x%#x\<newline>'' [k, load32 m1 (md + 4)] m1 c1 = Some (m2, c2)"
    "only_printed P (m1, c1) (m2, c2)" "info_ok P mbi m2" "paging_off c2"
    using say [OF 1(3,4) boot_calls(5)] by blast
  obtain m3 c3 where 3: "call_printf P ''First few bytes of module:\<newline>'' [] m2 c2 = Some (m3, c3)"
    "only_printed P (m2, c2) (m3, c3)" "info_ok P mbi m3" "paging_off c3"
    using say [OF 2(3,4) boot_calls(6)] by blast
  obtain m4 c4 where 4: "print_bytes P md 16 0 m3 c3 = Some (m4, c4)" "only_printed P (m3, c3) (m4, c4)"
    using print_bytes_off [OF _ _ 3(4)] 3(3) unfolding info_ok_def by blast
  have "info_ok P mbi m4" "paging_off c4" using info_ok_frame [OF 3(3)] 4(2) only_printed_off [OF 4(2)] 3(4) by (simp_all add: only_printed_def)
  then obtain m5 c5 where "call_printf P ''\<newline>'' [] m4 c4 = Some (m5, c5)" "only_printed P (m4, c4) (m5, c5)"
    using say [OF _ _ boot_calls(8)] by blast
  then show ?thesis
    using 1(1) 2(1) 3(1) 4(1) only_printed_trans [OF 1(2) only_printed_trans [OF 2(2) only_printed_trans [OF 3(2) only_printed_trans [OF 4(2)]]]]
    by (simp add: print_module_def)
qed

lemma print_modules_off:
  assumes "info_ok P mbi m" "CHECK_FLAG (load32 m mbi) 3" "n = unat (load32 m (mbi + 20))" "a = load32 m (mbi + 24)" "k \<le> n" "paging_off c"
  shows "\<exists>m' c'. print_modules P mbi (of_nat k) (a + 16 * of_nat k) fs_start m c =
      Some (if k < n then load32 m (a + 16 * of_nat (n - 1)) else fs_start, m', c') \<and> only_printed P (m, c) (m', c')"
  using assms
proof (induction "n - k" arbitrary: k fs_start m c)
  case 0
  then have "\<not> of_nat k < load32 m (mbi + 20)" using of_nat_less32 [of k "load32 m (mbi + 20)"] by simp
  then show ?case using 0 by (subst print_modules.simps) (simp add: only_printed_refl)
next
  case (Suc d)
  then have k: "k < n" "d = n - Suc k" by simp_all
  then have lt: "of_nat k < load32 m (mbi + 20)" using of_nat_less32 [of k "load32 m (mbi + 20)"] Suc.prems(3) by simp
  obtain m1 c1 where 1: "print_module P (of_nat k) (a + 16 * of_nat k) m c = Some (m1, c1)" "only_printed P (m, c) (m1, c1)"
    using print_module_off [OF Suc.prems(1,6)] by blast
  then have sc: "scratch_only P m m1" by (simp add: only_printed_def)
  note w = info_words [OF Suc.prems(1) sc]
  obtain m' c' where 2: "print_modules P mbi (of_nat (Suc k)) (a + 16 * of_nat (Suc k)) (load32 m (a + 16 * of_nat k)) m1 c1 =
      Some (if Suc k < n then load32 m1 (a + 16 * of_nat (n - 1)) else load32 m (a + 16 * of_nat k), m', c')" "only_printed P (m1, c1) (m', c')"
    using Suc.hyps(1) [OF k(2) info_ok_frame [OF Suc.prems(1) sc], where fs_start = "load32 m (a + 16 * of_nat k)" and c = c1] w Suc.prems only_printed_off [OF 1(2)] k(1) by auto
  have "\<forall>i < n. clear_of P (a + 16 * of_nat i) 8" using Suc.prems(1,2) unfolding info_ok_def Suc.prems(3,4) by blast
  then have "clear_of P (a + 16 * of_nat (n - 1)) 8" using k(1) by (metis diff_less less_nat_zero_code neq0_conv zero_less_one)
  then have same: "load32 m1 (a + 16 * of_nat (n - 1)) = load32 m (a + 16 * of_nat (n - 1))"
    using scratch_only_load32 [OF sc, of "a + 16 * of_nat (n - 1)" 8 0] by simp
  have "n - 1 = k" if "\<not> Suc k < n" using that k(1) by simp
  then have "(if Suc k < n then load32 m1 (a + 16 * of_nat (n - 1)) else load32 m (a + 16 * of_nat k)) = load32 m (a + 16 * of_nat (n - 1))"
    using same by auto
  moreover have "print_modules P mbi (of_nat k) (a + 16 * of_nat k) fs_start m c =
    print_modules P mbi (of_nat (Suc k)) (a + 16 * of_nat (Suc k)) (load32 m (a + 16 * of_nat k)) m1 c1"
    using lt 1(1) by (subst print_modules.simps) (simp add: algebra_simps)
  ultimately show ?case using 2 k(1) only_printed_trans [OF 1(2)] by simp
qed

lemma print_mmap_off:
  assumes "info_ok P mbi m" "mmap_ends P m (load32 m (mbi + 48) + load32 m (mbi + 44)) n a" "paging_off c"
  shows "\<exists>m' c'. print_mmap P mbi a m c = Some (m', c') \<and> only_printed P (m, c) (m', c')"
  using assms
proof (induction n arbitrary: a m c)
  case 0
  then show ?case by (subst print_mmap.simps) (simp add: only_printed_refl)
next
  case (Suc n)
  show ?case
  proof (cases "a < load32 m (mbi + 48) + load32 m (mbi + 44)")
    case False
    then show ?thesis by (subst print_mmap.simps) (simp add: only_printed_refl)
  next
    case True
    obtain m1 c1 where 1: "print_region P a m c = Some (m1, c1)" "only_printed P (m, c) (m1, c1)" "info_ok P mbi m1" "paging_off c1"
      using say [OF Suc.prems(1,3) boot_calls(12)] unfolding print_region_def by blast
    then have sc: "scratch_only P m m1" by (simp add: only_printed_def)
    note w = info_words [OF Suc.prems(1) sc]
    have "clear_of P a 4" "mmap_ends P m (load32 m (mbi + 48) + load32 m (mbi + 44)) n (a + load32 m a + 4)" using Suc.prems(2) True by simp_all
    moreover from this(1) have "load32 m1 a = load32 m a" using scratch_only_load32 [OF sc, of a 4 0] by simp
    ultimately obtain m' c' where "print_mmap P mbi (a + load32 m1 a + 4) m1 c1 = Some (m', c')" "only_printed P (m1, c1) (m', c')"
      using Suc.IH [OF 1(3) _ 1(4), of "a + load32 m1 a + 4"] mmap_ends_frame [OF sc] w by auto
    then show ?thesis using True 1(1) only_printed_trans [OF 1(2)] by (subst print_mmap.simps) simp
  qed
qed

lemma print_if_off:
  assumes "info_ok P mbi m" "paging_off c"
    "\<And>m. b \<Longrightarrow> \<forall>fmt \<in> set boot_formats. literal_ok P m fmt \<Longrightarrow> call_ok P m str fmt args"
  obtains m' c' where "print_if b P fmt args m c = Some (m', c')" "only_printed P (m, c) (m', c')" "info_ok P mbi m'" "paging_off c'"
    "load32 m' mbi = load32 m mbi"
proof (cases b)
  case True
  then show thesis using say [OF assms(1,2) assms(3)] that by (auto simp: print_if_def)
next
  case False
  then show thesis using that [of m c] assms by (simp add: print_if_def only_printed_refl)
qed

text \<open>The module whose address \<open>fs\<close> ends up with.\<close>

definition last_module :: "mem \<Rightarrow> u32 \<Rightarrow> u32" where
  "last_module m mbi =
    (if CHECK_FLAG (load32 m mbi) 3 \<and> load32 m (mbi + 20) \<noteq> 0
     then load32 m (load32 m (mbi + 24) + 16 * of_nat (unat (load32 m (mbi + 20)) - 1)) else 0)"

lemma modules_off:
  assumes "info_ok P mbi m" "paging_off c"
  obtains m' c' where "(if CHECK_FLAG (load32 m mbi) 3 then print_modules P mbi 0 (load32 m (mbi + 24)) 0 m c else Some (0, m, c)) =
      Some (last_module m mbi, m', c')"
    "only_printed P (m, c) (m', c')" "info_ok P mbi m'" "paging_off c'" "load32 m' mbi = load32 m mbi"
proof (cases "CHECK_FLAG (load32 m mbi) 3")
  case True
  obtain m' c' where "print_modules P mbi 0 (load32 m (mbi + 24)) 0 m c = Some (last_module m mbi, m', c')" "only_printed P (m, c) (m', c')"
    using print_modules_off [OF assms(1) True refl refl, of 0 c 0] assms(2) True
    by (auto simp: last_module_def unat_gt_0 split: if_splits)
  then show thesis
    using that True info_ok_frame [OF assms(1)] only_printed_off assms(2) info_words(1) [OF assms(1)] by (auto simp: only_printed_def)
next
  case False
  then show thesis using that [of m c] assms by (simp add: last_module_def only_printed_refl)
qed

lemma last_module_frame:
  assumes "info_ok P mbi m" "scratch_only P m m'"
  shows "last_module m' mbi = last_module m mbi"
proof -
  let ?n = "unat (load32 m (mbi + 20))" and ?a = "load32 m (mbi + 24)"
  note w = info_words [OF assms]
  have "load32 m' (?a + 16 * of_nat (?n - 1)) = load32 m (?a + 16 * of_nat (?n - 1))" if "CHECK_FLAG (load32 m mbi) 3" "?n \<noteq> 0"
  proof -
    have "?n - 1 < ?n" using that(2) by simp
    then have "clear_of P (?a + 16 * of_nat (?n - 1)) 8" using assms(1) that(1) unfolding info_ok_def by blast
    then show ?thesis using scratch_only_load32 [OF assms(2), of _ 8 0] by simp
  qed
  then show ?thesis unfolding last_module_def w by (simp add: unat_eq_0)
qed

lemma print_maps_off:
  assumes "info_ok P mbi m" "paging_off c"
  shows "\<exists>m' c'. print_maps P mbi m c = Some (m', c') \<and> only_printed P (m, c) (m', c')"
proof -
  obtain m1 c1 where 1: "print_if (CHECK_FLAG (load32 m mbi) 5) P ''elf_sec: num = %u, size = 0x%#x, addr = 0x%#x, shndx = 0x%#x\<newline>''
      [load32 m (mbi + 28), load32 m (mbi + 32), load32 m (mbi + 36), load32 m (mbi + 40)] m c = Some (m1, c1)"
    "only_printed P (m, c) (m1, c1)" "info_ok P mbi m1" "paging_off c1" "load32 m1 mbi = load32 m mbi"
    using print_if_off [OF assms boot_calls(10)] by blast
  show ?thesis
  proof (cases "CHECK_FLAG (load32 m mbi) 6")
    case True
    obtain m2 c2 where 2: "call_printf P ''mmap_addr = 0x%#x, mmap_length = 0x%x\<newline>'' [load32 m1 (mbi + 48), load32 m1 (mbi + 44)] m1 c1 = Some (m2, c2)"
      "only_printed P (m1, c1) (m2, c2)" "info_ok P mbi m2" "paging_off c2" "load32 m2 mbi = load32 m1 mbi"
      using say [OF 1(3,4) boot_calls(11)] by blast
    have "CHECK_FLAG (load32 m2 mbi) 6" using True 1(5) 2(5) by simp
    then obtain n where "mmap_ends P m2 (load32 m2 (mbi + 48) + load32 m2 (mbi + 44)) n (load32 m2 (mbi + 48))"
      using 2(3) unfolding info_ok_def by blast
    then obtain m3 c3 where 3: "print_mmap P mbi (load32 m2 (mbi + 48)) m2 c2 = Some (m3, c3)" "only_printed P (m2, c2) (m3, c3)"
      using print_mmap_off [OF 2(3) _ 2(4)] by blast
    then show ?thesis
      using True 1(1,5) 2(1) only_printed_trans [OF 1(2) only_printed_trans [OF 2(2) 3(2)]] by (simp add: print_maps_def)
  next
    case False
    then show ?thesis using 1 by (simp add: print_maps_def)
  qed
qed

lemma cmdline_off:
  assumes "info_ok P mbi m" "paging_off c"
  obtains m' c' where "print_if (CHECK_FLAG (load32 m mbi) 2) P ''cmdline = %s\<newline>'' [load32 m (mbi + 16)] m c = Some (m', c')"
    "only_printed P (m, c) (m', c')" "info_ok P mbi m'" "paging_off c'" "load32 m' mbi = load32 m mbi"
proof (cases "CHECK_FLAG (load32 m mbi) 2")
  case True
  then obtain cs where "cstr m (load32 m (mbi + 16)) cs" "clear_of P (load32 m (mbi + 16)) (Suc (length cs))"
    using assms(1) unfolding info_ok_def by blast
  then have "call_ok P m (\<lambda>_. cs) ''cmdline = %s\<newline>'' [load32 m (mbi + 16)]" "print_env_ok P"
    using assms(1) boot_calls(13) unfolding info_ok_def by blast+
  then obtain m' c' where "call_printf P ''cmdline = %s\<newline>'' [load32 m (mbi + 16)] m c = Some (m', c')" and p: "only_printed P (m, c) (m', c')"
    using call_off [OF _ _ assms(2)] by blast
  moreover have "scratch_only P m m'" using p by (simp add: only_printed_def)
  ultimately show thesis
    using that True info_ok_frame [OF assms(1)] only_printed_off [OF p] assms(2) info_words(1) [OF assms(1)] by (simp add: print_if_def)
next
  case False
  then show thesis using that [of m c] assms by (simp add: print_if_def only_printed_refl)
qed

lemma print_info_off:
  assumes "info_ok P mbi m" "paging_off c"
  shows "\<exists>m' c'. print_info P mbi 0 m c =
      Some (\<not> (CHECK_FLAG (load32 m mbi) 4 \<and> CHECK_FLAG (load32 m mbi) 5), last_module m mbi, m', c') \<and> only_printed P (m, c) (m', c')"
proof -
  obtain m1 c1 where 1: "call_printf P ''flags = 0x%#x\<newline>'' [load32 m mbi] m c = Some (m1, c1)" "only_printed P (m, c) (m1, c1)"
    "info_ok P mbi m1" "paging_off c1" "load32 m1 mbi = load32 m mbi"
    using say [OF assms boot_calls(1)] by blast
  obtain m2 c2 where 2: "print_if (CHECK_FLAG (load32 m mbi) 0) P ''mem_lower = %uKB, mem_upper = %uKB\<newline>''
      [load32 m1 (mbi + 4), load32 m1 (mbi + 8)] m1 c1 = Some (m2, c2)"
    "only_printed P (m1, c1) (m2, c2)" "info_ok P mbi m2" "paging_off c2" "load32 m2 mbi = load32 m1 mbi"
    using print_if_off [OF 1(3,4) boot_calls(2)] by blast
  obtain m3 c3 where 3: "print_if (CHECK_FLAG (load32 m mbi) 1) P ''boot_device = 0x%#x\<newline>'' [load32 m2 (mbi + 12)] m2 c2 = Some (m3, c3)"
    "only_printed P (m2, c2) (m3, c3)" "info_ok P mbi m3" "paging_off c3" "load32 m3 mbi = load32 m2 mbi"
    using print_if_off [OF 2(3,4) boot_calls(3)] by blast
  obtain m4 c4 where 4: "print_if (CHECK_FLAG (load32 m mbi) 2) P ''cmdline = %s\<newline>'' [load32 m3 (mbi + 16)] m3 c3 = Some (m4, c4)"
    "only_printed P (m3, c3) (m4, c4)" "info_ok P mbi m4" "paging_off c4" "load32 m4 mbi = load32 m3 mbi"
    using cmdline_off [OF 3(3,4)] 1(5) 2(5) 3(5) by auto
  obtain m5 c5 where 5: "(if CHECK_FLAG (load32 m mbi) 3 then print_modules P mbi 0 (load32 m4 (mbi + 24)) 0 m4 c4 else Some (0, m4, c4)) =
      Some (last_module m4 mbi, m5, c5)"
    "only_printed P (m4, c4) (m5, c5)" "info_ok P mbi m5" "paging_off c5" "load32 m5 mbi = load32 m4 mbi"
    using modules_off [OF 4(3,4)] 1(5) 2(5) 3(5) 4(5) by auto
  have fl: "load32 m5 mbi = load32 m mbi" "load32 m4 mbi = load32 m mbi" "load32 m3 mbi = load32 m mbi" "load32 m2 mbi = load32 m mbi"
    using 1(5) 2(5) 3(5) 4(5) 5(5) by simp_all
  note t4 = only_printed_trans [OF 1(2) only_printed_trans [OF 2(2) only_printed_trans [OF 3(2) 4(2)]]]
  have md: "last_module m4 mbi = last_module m mbi" using last_module_frame [OF assms(1)] t4 by (simp add: only_printed_def)
  show ?thesis
  proof (cases "CHECK_FLAG (load32 m mbi) 4 \<and> CHECK_FLAG (load32 m mbi) 5")
    case True
    obtain m6 c6 where "call_printf P ''Both bits 4 and 5 are set.\<newline>'' [] m5 c5 = Some (m6, c6)" "only_printed P (m5, c5) (m6, c6)"
      using say [OF 5(3,4) boot_calls(9)] by blast
    then show ?thesis
      using True 1(1,5) 2(1) 3(1) 4(1) 5(1) fl md only_printed_trans [OF t4 only_printed_trans [OF 5(2)]] by (simp add: print_info_def)
  next
    case False
    obtain m6 c6 where "print_maps P mbi m5 c5 = Some (m6, c6)" "only_printed P (m5, c5) (m6, c6)"
      using print_maps_off [OF 5(3,4)] by blast
    then show ?thesis
      using False 1(1,5) 2(1) 3(1) 4(1) 5(1) fl md only_printed_trans [OF t4 only_printed_trans [OF 5(2)]] by (simp add: print_info_def) blast
  qed
qed

subsection \<open>The interrupt lines\<close>

text \<open>The controllers are operational and exactly the lines in \<open>U\<close> are unmasked.\<close>

definition irq_lines :: "pic \<Rightarrow> pic \<Rightarrow> trace \<Rightarrow> nat set \<Rightarrow> bool" where
  "irq_lines cm cs tr U \<longleftrightarrow> pic_ready cm cs tr \<and> (\<forall>k < 16. irq_masked cm cs tr k \<longleftrightarrow> k \<notin> U)"

lemma lines_init: "pic_responds dev cm cs \<Longrightarrow> irq_lines cm cs (i8259_init dev tr) {2}"
  by (simp add: irq_lines_def i8259_init_ready i8259_init_masked)

lemma lines_enable: "pic_responds dev cm cs \<Longrightarrow> irq_lines cm cs tr U \<Longrightarrow> irq_lines cm cs (enable_irq dev n tr) (insert (unat n) U)"
  by (auto simp: irq_lines_def enable_irq_ready enable_irq_masked)

lemma lines_out: "p \<notin> {0x20, 0x21, 0xA0, 0xA1} \<Longrightarrow> irq_lines cm cs (Out p d # tr) U = irq_lines cm cs tr U"
  by (simp add: irq_lines_def pic_ready_def irq_masked_def master_def slave_def)

lemma lines_in: "irq_lines cm cs (In p d # tr) U = irq_lines cm cs tr U"
  by (simp add: irq_lines_def pic_ready_def irq_masked_def master_def slave_def)

lemma lines_rtc:
  assumes "pic_responds dev cm cs" "irq_lines cm cs (rtc_ports r) U"
  shows "irq_lines cm cs (rtc_ports (rtc_initialization dev a r)) (insert 8 U)"
proof -
  have "irq_lines cm cs (rtc_ports r) U \<Longrightarrow> irq_lines cm cs (enable_irq dev 8 tr) (insert 8 U)"
    if "irq_lines cm cs tr U = irq_lines cm cs (rtc_ports r) U" for tr
    using lines_enable [OF assms(1), of tr U 8] that by simp
  then show ?thesis
    using assms(2) by (simp add: rtc_initialization_def rtc_open_def write_rate_def Let_def inb_def outb_def lines_out lines_in)
qed

lemma lines_pit:
  assumes "pic_responds dev cm cs" "irq_lines cm cs tr U"
  shows "\<exists>tr'. PIT_init dev 65535 tr = Some tr' \<and> irq_lines cm cs tr' (insert 0 U)"
proof -
  have "(119318 :: u32) div 65535 = 1" by code_simp
  then show ?thesis using lines_enable [OF assms, of 0] by (simp add: PIT_init_def Let_def outb_def lines_out)
qed

lemma lines_cursor: "irq_lines cm cs (ports (update_cursor y x c)) U = irq_lines cm cs (ports c) U"
  by (simp add: update_cursor_def Let_def outb_def lines_out)

subsection \<open>The drivers\<close>

lemma fold_opt_total:
  assumes "\<And>x s. I s \<Longrightarrow> \<exists>s'. f x s = Some s' \<and> I s'" "I s"
  shows "\<exists>s'. fold_opt f xs s = Some s' \<and> I s'"
  using assms(2)
proof (induction xs arbitrary: s)
  case (Cons x xs)
  obtain s1 where "f x s = Some s1" "I s1" using assms(1) Cons.prems by blast
  then show ?case using Cons.IH [of s1] by simp
qed simp

lemma vstore_off: "paging_off c \<Longrightarrow> \<exists>c'. vstore a v c = Some c' \<and> same_console c c' \<and> paging_off c'"
  by (simp add: vstore_def resolve_def paging_off_def same_console_def)

lemma clear_off:
  assumes "paging_off c"
  shows "\<exists>c'. clear c = Some c' \<and> same_console c c'"
proof -
  let ?I = "\<lambda>s. same_console c s \<and> paging_off s" and ?a = "\<lambda>i. VIDEO + 2 * of_nat i :: u32"
  have "\<exists>s'. vstore a v s \<bind> vstore b w = Some s' \<and> ?I s'" if I: "?I s" for a v b w s
  proof -
    obtain s1 where 1: "vstore a v s = Some s1" "same_console s s1" "paging_off s1" using vstore_off [of s a v] I by blast
    obtain s2 where 2: "vstore b w s1 = Some s2" "same_console s1 s2" "paging_off s2" using vstore_off [OF 1(3), of b w] by blast
    have "same_console c s2" using I 1(2) 2(2) same_console_trans by blast
    then show ?thesis using 1(1) 2(1,3) by simp
  qed
  then have "\<exists>s1. fold_opt (\<lambda>i s. vstore (?a i) 0x20 s \<bind> vstore (?a i + 1) ATTRIB) xs c = Some s1 \<and> ?I s1" for xs
    using fold_opt_total [of ?I "\<lambda>i s. vstore (?a i) 0x20 s \<bind> vstore (?a i + 1) ATTRIB" c xs] assms same_console_refl by blast
  from this [of "[0..<2000]"] obtain s1
    where s1: "fold_opt (\<lambda>i s. vstore (?a i) 0x20 s \<bind> vstore (?a i + 1) ATTRIB) [0..<2000] c = Some s1 \<and> ?I s1" ..
  let ?s = "set_cursor (current_terminal s1) 0 0 s1"
  have "clear c = Some (update_cursor (screenY ?s (current_terminal ?s)) (screenX ?s (current_terminal ?s)) ?s)"
    unfolding clear_def s1 [THEN conjunct1] by (simp add: Let_def)
  moreover have "same_console s1 (update_cursor y x ?s)" for y x by (simp add: same_console_def update_cursor_def Let_def set_cursor_def)
  ultimately show ?thesis using s1 [THEN conjunct2] same_console_trans by blast
qed

lemma booted_mapped:
  assumes "page_aligned (tables_addr c)" "current_terminal c = 0" "active_terminal c \<in> {0, 1, 2}"
  shows "mapped (c\<lparr>pages := init_paging d (tables_addr c) p\<rparr>)"
  using assms by (simp add: mapped_def init_paging_ok frame_def term_index_def term_page_def init_tables)

lemma init_drivers_ready:
  assumes "c = con (keyb s)" "page_aligned (tables_addr c)" "current_terminal c = 0" "active_terminal c \<in> {0, 1, 2}"
    "pic_responds dev cm cs" "n = unat (num_dentry (kernel_mem s) img)" "n \<le> 64" "img \<noteq> 0"
    "disjoint_regions (dentries (fs s)) (44 * n) img (64 + 64 * n)"
  shows "\<exists>m st r c'. init_drivers L dev img s = Some (s\<lparr>kernel_mem := m, fs := st, rtc := r, keyb := (keyb s)\<lparr>con := c'\<rparr>\<rparr>) \<and>
    mapped c' \<and> take 4000 (fst (view c' 0)) = blank_cells \<and> snd (view c' 0) = (0, 0) \<and> active_terminal c' = active_terminal c \<and>
    irq_lines cm cs (ports c') {0, 1, 2, 8} \<and> fs_init img (kernel_mem s) (fs s) = Some (0, m, st)"
proof -
  let ?c1 = "c\<lparr>ports := i8259_init dev (ports c), pages := init_paging (directory_addr L) (tables_addr c) (pages c)\<rparr>"
  have m1: "mapped ?c1" using booted_mapped [of "c\<lparr>ports := i8259_init dev (ports c)\<rparr>"] assms(2-4) by simp
  then obtain c2 s1 where c2: "clear ?c1 = Some c2" "c2 = update_cursor 0 0 s1" "redrawn 0 (blank_cells @ drop 4000 (screen ?c1 0), 0, 0) ?c1 s1"
    using clear_view [of ?c1] assms(3) by auto
  then have l2: "irq_lines cm cs (ports c2) {2}" using lines_init [OF assms(5)] by (simp add: lines_cursor redrawn_def)
  obtain m st where fs: "fs_init img (kernel_mem s) (fs s) = Some (0, m, st)"
    using fs_init_mounts [OF assms(6,7,8,9)] by blast
  let ?c3 = "keyboard_intialization dev c2"
  have l3: "irq_lines cm cs (ports ?c3) {1, 2}" using lines_enable [OF assms(5) l2, of 1] by (simp add: keyboard_intialization_def)
  let ?r = "rtc_initialization dev (open_test L) ((rtc s)\<lparr>rtc_ports := ports ?c3\<rparr>)"
  have l4: "irq_lines cm cs (rtc_ports ?r) {8, 1, 2}" using lines_rtc [OF assms(5), of "(rtc s)\<lparr>rtc_ports := ports ?c3\<rparr>"] l3 by simp
  obtain tr where tr: "PIT_init dev 65535 (rtc_ports ?r) = Some tr" "irq_lines cm cs tr {0, 8, 1, 2}"
    using lines_pit [OF assms(5) l4] by blast
  have "{0, 8, 1, 2} = {0, 1, 2, 8 :: nat}" by auto
  with tr have "irq_lines cm cs (ports (?c3\<lparr>ports := tr\<rparr>)) {0, 1, 2, 8}" by simp
  moreover have "init_drivers L dev img s = Some (s\<lparr>kernel_mem := m, fs := st, rtc := ?r, keyb := (keyb s)\<lparr>con := ?c3\<lparr>ports := tr\<rparr>\<rparr>\<rparr>)"
    using assms(1) c2(1) fs tr(1) by (simp add: init_drivers_def Let_def)
  moreover have "view (d\<lparr>ports := tr\<rparr>) = view d" for d tr by (simp add: view_def screen_def fun_eq_iff)
  then have "mapped (?c3\<lparr>ports := tr\<rparr>)" "view (?c3\<lparr>ports := tr\<rparr>) 0 = view s1 0" "active_terminal (?c3\<lparr>ports := tr\<rparr>) = active_terminal c"
    using c2(2,3) by (simp_all add: keyboard_intialization_def redrawn_def)
  ultimately show ?thesis using c2(3) fs by (intro exI [of _ m] exI [of _ st] exI [of _ ?r] exI) (auto simp: redrawn_def)
qed

subsection \<open>The first program\<close>

abbreviation (input) no_process :: stacks where "no_process \<equiv> \<lambda>_. []"

lemma init_terms_represents:
  assumes "PID_arr s = replicate 6 0" "flagger s = 0" "active_term s \<in> {0, 1, 2}"
  shows "represents (init_terms s) no_process"
  using assms
  by (simp add: represents_def holds_def flags_match_def init_terms_def Let_def procs_of_def on_terminals_def top_of_def active_term_def
      numeral_nat upt_rec)

lemma first_program:
  assumes "PID_arr s = replicate 6 0" "flagger s = 0" "inti_flag s = 0" "active_term s = 0"
    "find_program env (shell_name env) s = Some (Some ino, s1)"
  shows "\<exists>eip s'. run_shell n env s = Some (Enter_user eip 0x83FFFFC, s') \<and> represents s' one_shell \<and> window_page s' = process_page 1"
proof -
  have r: "represents (init_terms s) no_process" using init_terms_represents assms(1,2,4) by simp
  have init: "inti_flag (init_terms s) \<noteq> 0" by (simp add: init_terms_def Let_def)
  have "find_program env (shell_name env) (init_terms s) = Some (Some ino, s1)"
    using assms(3,5) init by (simp add: find_program_def)
  note same = find_program_keeps [OF init this]
  have "represents s1 no_process"
    using holds_same_procs [OF same] r same by (simp add: represents_def flags_match_def same_procs_def)
  moreover have "active_term s1 = 0" using same assms(4) by (simp add: same_procs_def active_term_def init_terms_def Let_def)
  moreover have "lowest_free no_process 1" by (simp add: lowest_free_def procs_of_def)
  moreover have "no_process(0 := 1 # no_process 0) = one_shell" by (simp add: one_shell_def)
  ultimately obtain eip s' where "start_program (c_halt n env 0) env ino s1 = Some (Enter_user eip 0x83FFFFC, s')" "represents s' one_shell"
    "window_page s' = process_page 1"
    using start_represents [of s1 no_process 0 1] by fastforce
  then show ?thesis using assms(5) by (subst run_shell.simps) (simp add: c_execute_def execute_with_def)
qed

subsection \<open>The whole of entry\<close>

lemma boot_machine:
  assumes "c = con (keyb (kern M))" "m = kernel_mem (kern M)" "paging_off c" "info_ok P addr m"
    "\<not> (CHECK_FLAG (load32 m addr) 4 \<and> CHECK_FLAG (load32 m addr) 5)"
  shows "\<exists>m' c'. only_printed P (m, c) (m', c') \<and> entry P L dev n env MULTIBOOT_BOOTLOADER_MAGIC addr M = do {
     s \<leftarrow> init_drivers L dev (last_module m addr) (kern (load_descriptors L (M\<lparr>kern := set_console c' ((kern M)\<lparr>kernel_mem := m'\<rparr>)\<rparr>)));
     let M' = (load_descriptors L (M\<lparr>kern := set_console c' ((kern M)\<lparr>kernel_mem := m'\<rparr>)\<rparr>))\<lparr>kern := s, interrupts := True\<rparr>;
     (r, s) \<leftarrow> run_shell n env (kern M');
     Some (Some r, M'\<lparr>kern := s\<rparr>)
   }"
proof -
  obtain c1 where c1: "clear c = Some c1" "same_console c c1" using clear_off [OF assms(3)] by blast
  have off: "paging_off c1" using c1(2) assms(3) paging_off_same by simp
  obtain m' c' where p: "print_info P addr 0 m c1 = Some (True, last_module m addr, m', c')" "only_printed P (m, c1) (m', c')"
    using print_info_off [OF assms(4) off] assms(5) by auto
  have "only_printed P (m, c) (m', c')" using p(2) c1(2) same_console_trans by (auto simp: only_printed_def)
  moreover have "entry P L dev n env MULTIBOOT_BOOTLOADER_MAGIC addr M = do {
     s \<leftarrow> init_drivers L dev (last_module m addr) (kern (load_descriptors L (M\<lparr>kern := set_console c' ((kern M)\<lparr>kernel_mem := m'\<rparr>)\<rparr>)));
     let M' = (load_descriptors L (M\<lparr>kern := set_console c' ((kern M)\<lparr>kernel_mem := m'\<rparr>)\<rparr>))\<lparr>kern := s, interrupts := True\<rparr>;
     (r, s) \<leftarrow> run_shell n env (kern M');
     Some (Some r, M'\<lparr>kern := s\<rparr>)
   }"
    using c1(1) p(1) assms(1,2) by (simp add: entry_def Let_def)
  ultimately show ?thesis by blast
qed

text \<open>C22: given the boot loader's magic number and a sound information structure, \<open>entry\<close> gets past its
  messages and every initialisation, whatever is printed: when it calls the first program,
  paging is on with the terminals mapped, terminal 0 is blank with the cursor in its corner, of the interrupt lines exactly the
  timer's, the keyboard's, the cascade's and the clock's are open, the last module is mounted as the
  file system with its directory copied, the LDT and TSS descriptors decode to the addresses of
  their tables, and interrupts are enabled.\<close>

theorem boot_initialises:
  assumes "c = con (keyb (kern M))" "m = kernel_mem (kern M)" "paging_off c" "info_ok P addr m"
    "\<not> (CHECK_FLAG (load32 m addr) 4 \<and> CHECK_FLAG (load32 m addr) 5)"
    "page_aligned (tables_addr c)" "current_terminal c = 0" "active_terminal c \<in> {0, 1, 2}" "pic_responds dev cm cs"
    "img = last_module m addr" "img \<noteq> 0" "k = unat (num_dentry m img)" "k \<le> 64"
    "disjoint_regions (dentries (fs (kern M))) (44 * k) img (64 + 64 * k)" "clear_of P img (64 + 64 * k)"
  shows "\<exists>M'. entry P L dev n env MULTIBOOT_BOOTLOADER_MAGIC addr M =
      map_option (\<lambda>(r, s). (Some r, M'\<lparr>kern := s\<rparr>)) (run_shell n env (kern M')) \<and>
    interrupts M' \<and> ss0 (tss M') = KERNEL_DS \<and> mapped (con (keyb (kern M'))) \<and>
    take 4000 (fst (view (con (keyb (kern M'))) 0)) = blank_cells \<and> snd (view (con (keyb (kern M'))) 0) = (0, 0) \<and>
    irq_lines cm cs (ports (con (keyb (kern M')))) {0, 1, 2, 8} \<and>
    fs_addr (fs (kern M')) = img \<and> inode_addr (fs (kern M')) = img + 4096 \<and>
    (\<forall>j. j < k \<longrightarrow> load_bytes (kernel_mem (kern M')) (entry_at (fs (kern M')) j) 44 = load_bytes m (img + of_nat (64 + 64 * j)) 44) \<and>
    tss_esp0 (kern M') = 0x800000 \<and> task_reg M' = KERNEL_TSS \<and> ldtr M' = KERNEL_LDT \<and>
    desc_base (seg_val (tss_desc_ptr M')) = tss_addr L \<and> desc_base (seg_val (ldt_desc_ptr M')) = ldt_addr L"
proof -
  obtain m1 c1 where 1: "only_printed P (m, c) (m1, c1)"
    and e: "entry P L dev n env MULTIBOOT_BOOTLOADER_MAGIC addr M = do {
      s \<leftarrow> init_drivers L dev img (kern (load_descriptors L (M\<lparr>kern := set_console c1 ((kern M)\<lparr>kernel_mem := m1\<rparr>)\<rparr>)));
      let M' = (load_descriptors L (M\<lparr>kern := set_console c1 ((kern M)\<lparr>kernel_mem := m1\<rparr>)\<rparr>))\<lparr>kern := s, interrupts := True\<rparr>;
      (r, s) \<leftarrow> run_shell n env (kern M');
      Some (Some r, M'\<lparr>kern := s\<rparr>)
    }"
    using boot_machine [OF assms(1-5)] assms(10) by blast
  let ?M = "load_descriptors L (M\<lparr>kern := set_console c1 ((kern M)\<lparr>kernel_mem := m1\<rparr>)\<rparr>)"
  have M: "con (keyb (kern ?M)) = c1" "kernel_mem (kern ?M) = m1" "fs (kern ?M) = fs (kern M)" "tss_esp0 (kern ?M) = 0x800000"
    "task_reg ?M = KERNEL_TSS" "ldtr ?M = KERNEL_LDT" "tss_desc_ptr ?M = the_tss_desc (tss_addr L) (tss_size L) (uninit_desc L)"
    "ldt_desc_ptr ?M = the_ldt_desc (ldt_addr L) (ldt_size L) (uninit_desc L)"
    "ss0 (tss ?M) = KERNEL_DS"
    by (simp_all add: load_descriptors_def Let_def set_console_def)
  have sc: "scratch_only P m m1" and same: "same_console c c1" using 1 by (simp_all add: only_printed_def)
  have img: "load_bytes m1 (img + of_nat i) j = load_bytes m (img + of_nat i) j" if "i + j \<le> 64 + 64 * k" for i j
    using that assms(13) by (intro scratch_only_load_bytes [OF sc] clear_of_offset [OF assms(15)]) simp_all
  have k: "k = unat (num_dentry m1 img)"
    using load32_cong [OF img [of 0 4, simplified]] assms(12) by (simp add: num_dentry_def)
  have cs: "page_aligned (tables_addr c1)" "current_terminal c1 = 0" "active_terminal c1 \<in> {0, 1, 2}"
    using same assms(6-8) by (simp_all add: same_console_def)
  obtain m2 st where fs: "fs_init img m1 (fs (kern M)) = Some (0, m2, st)"
    "\<forall>j. j < k \<longrightarrow> load_bytes m2 (entry_at st j) 44 = load_bytes m1 (img + of_nat (64 + 64 * j)) 44"
    "fs_addr st = img" "inode_addr st = img + 4096"
    using fs_init_mounts [OF k assms(13,11,14)] by fastforce
  obtain r c2 where i: "init_drivers L dev img (kern ?M) =
      Some ((kern ?M)\<lparr>kernel_mem := m2, fs := st, rtc := r, keyb := (keyb (kern ?M))\<lparr>con := c2\<rparr>\<rparr>)" "mapped c2"
    "take 4000 (fst (view c2 0)) = blank_cells" "snd (view c2 0) = (0, 0)" "irq_lines cm cs (ports c2) {0, 1, 2, 8}"
    using init_drivers_ready [OF M(1) [symmetric] cs assms(9), of k img L] M(2,3) k assms(11,13,14) fs(1) by auto
  let ?N = "?M\<lparr>kern := (kern ?M)\<lparr>kernel_mem := m2, fs := st, rtc := r, keyb := (keyb (kern ?M))\<lparr>con := c2\<rparr>\<rparr>, interrupts := True\<rparr>"
  have "entry P L dev n env MULTIBOOT_BOOTLOADER_MAGIC addr M = map_option (\<lambda>(r, s). (Some r, ?N\<lparr>kern := s\<rparr>)) (run_shell n env (kern ?N))"
    unfolding e i(1) by (simp add: Let_def split: bind_splits prod.splits)
  moreover have "load_bytes m2 (entry_at st j) 44 = load_bytes m (img + of_nat (64 + 64 * j)) 44" if "j < k" for j
    using fs(2) that img [of "64 + 64 * j" 44] by simp
  ultimately show ?thesis
    using i(2-5) fs(3,4) M(4-9) by (intro exI [of _ ?N]) (simp add: ldt_desc_decodes tss_desc_decodes)
qed

text \<open>The file system of the other examples as the only module, under the flag for modules alone.\<close>

definition boot_memory :: mem where
  "boot_memory = literal_pool 0x50000 boot_formats (store_bytes (store_bytes sample_disk
     0x70000 [8, 0, 0, 0, 0, 0, 0, 0, 0, 0, 0, 0, 0, 0, 0, 0, 0, 0, 0, 0, 1, 0, 0, 0, 0, 0x10, 7, 0])
     0x71000 [0, 0, 0x40, 0])"

definition boot_print_env :: print_env where
  "boot_print_env = \<lparr>literal_at = pool_at 0x50000 boot_formats, arg_area = 0x60000, conv_area = 0x61000\<rparr>"

definition blank_desc :: seg_desc where
  "blank_desc = \<lparr>seg_lim_15_00 = 0, base_15_00 = 0, base_23_16 = 0, seg_type = 0, seg_sys = 0, seg_dpl = 0, seg_present = 0,
     seg_lim_19_16 = 0, seg_avail = 0, seg_reserved = 0, seg_opsize = 0, seg_granularity = 0, base_31_24 = 0\<rparr>"

definition blank_tss :: tss_t where
  "blank_tss = \<lparr>prev_task_link = 0, prev_task_link_pad = 0, ss0 = 0, ss0_pad = 0, esp1 = 0, ss1 = 0, ss1_pad = 0, esp2 = 0,
     ss2 = 0, ss2_pad = 0, tss_cr3 = 0, tss_eip = 0, tss_eflags = 0, tss_eax = 0, tss_ecx = 0, tss_edx = 0,
     tss_ebx = 0, tss_esp = 0, tss_ebp = 0, tss_esi = 0, tss_edi = 0, tss_es = 0, es_pad = 0, tss_cs = 0,
     cs_pad = 0, tss_ss = 0, ss_pad = 0, tss_ds = 0, ds_pad = 0, tss_fs = 0, fs_pad = 0, tss_gs = 0, gs_pad = 0,
     ldt_segment_selector = 0, ldt_pad = 0, debug_trap = 0, io_pad = 0, io_base_addr = 0\<rparr>"

definition sample_link :: link_env where
  "sample_link = \<lparr>ldt_addr = 0x404000, ldt_size = 32, tss_addr = 0x405000, tss_size = TSS_SIZE, directory_addr = 0x4FF000,
     open_test = 0, uninit_desc = blank_desc\<rparr>"

definition power_on_machine :: machine where
  "power_on_machine = \<lparr>kern = shell_running\<lparr>kernel_mem := boot_memory, fs := unmounted, PID_arr := replicate 6 0, inti_flag := 0,
       keyb := line_ready\<lparr>con := boot_console\<lparr>pages := paging_zero\<rparr>\<rparr>\<rparr>,
     ldt_desc_ptr = blank_desc, tss_desc_ptr = blank_desc,
     tss = blank_tss, ldtr = 0, task_reg = 0, interrupts = False\<rparr>"

lemma boot_memory_words:
  "load32 boot_memory 0x70000 = 8" "load32 boot_memory 0x70014 = 1" "load32 boot_memory 0x70018 = 0x71000"
  "load32 boot_memory 0x71000 = 0x400000" "load32 boot_memory 0x400000 = 1" "load_bytes boot_memory 0x400040 44 = 97 # replicate 43 0"
  "info_ok boot_print_env 0x70000 boot_memory"
proof -
  let ?m = "store_bytes (store_bytes sample_disk
     0x70000 [8, 0, 0, 0, 0, 0, 0, 0, 0, 0, 0, 0, 0, 0, 0, 0, 0, 0, 0, 0, 1, 0, 0, 0, 0, 0x10, 7, 0]) 0x71000 [0, 0, 0x40, 0]"
  have pool: "128 * length boot_formats = 1664" "\<forall>s \<in> set boot_formats. pool_string s"
    by code_simp+
  have ch: "changes_only 0x50000 1664 ?m boot_memory"
    using literal_pool_outside [of 0 boot_formats 1664 "0x50000" ?m] pool by (simp add: boot_memory_def)
  have outside: "load_bytes boot_memory a n = load_bytes ?m a n" if "0x51000 \<le> unat a \<and> unat a + n \<le> 2 ^ 32" for a n
    using that by (intro changes_only_load_bytes [OF ch] disjoint_regions_apart) auto
  have "load32 ?m 0x70000 = 8" "load32 ?m 0x70014 = 1" "load32 ?m 0x70018 = 0x71000" "load32 ?m 0x71000 = 0x400000" "load32 ?m 0x400000 = 1"
    "load_bytes ?m 0x400040 44 = 97 # replicate 43 0"
    by code_simp+
  then show w: "load32 boot_memory 0x70000 = 8" "load32 boot_memory 0x70014 = 1" "load32 boot_memory 0x70018 = 0x71000"
    "load32 boot_memory 0x71000 = 0x400000" "load32 boot_memory 0x400000 = 1" "load_bytes boot_memory 0x400040 44 = 97 # replicate 43 0"
    using load32_cong [OF outside [of "0x70000" 4]] load32_cong [OF outside [of "0x70014" 4]] load32_cong [OF outside [of "0x70018" 4]]
      load32_cong [OF outside [of "0x71000" 4]] load32_cong [OF outside [of "0x400000" 4]] outside [of "0x400040" 44] by simp_all
  have clear: "clear_of boot_print_env a n" if "unat a + n \<le> 0x60000 \<or> 0x62000 \<le> unat a \<and> unat a + n \<le> 2 ^ 32" for a n
    using that by (auto simp: clear_of_def boot_print_env_def intro!: disjoint_regions_apart)
  have "literal_ok boot_print_env boot_memory fmt" if "fmt \<in> set boot_formats" for fmt
    unfolding boot_memory_def using that pool clear [of "0x50000" 1664] by (intro literal_pool_ok) (simp_all add: boot_print_env_def)
  moreover have "print_env_ok boot_print_env"
    unfolding print_env_ok_def boot_print_env_def by (rule disjoint_regions_apart) simp
  ultimately show "info_ok boot_print_env 0x70000 boot_memory"
    using clear [of "0x70000" 52] clear [of "0x71000" 8] w unfolding info_ok_def by (simp add: CHECK_FLAG_def)
qed

theorem boot_initialises_witness:
  "\<exists>M'. entry boot_print_env sample_link (pic_dev power_on power_on) 1 sample_env MULTIBOOT_BOOTLOADER_MAGIC 0x70000 power_on_machine =
      map_option (\<lambda>(r, s). (Some r, M'\<lparr>kern := s\<rparr>)) (run_shell 1 sample_env (kern M')) \<and>
    irq_lines power_on power_on (ports (con (keyb (kern M')))) {0, 1, 2, 8} \<and> fs_addr (fs (kern M')) = 0x400000 \<and>
    load_bytes (kernel_mem (kern M')) (entry_at (fs (kern M')) 0) 44 = 97 # replicate 43 0"
proof -
  let ?c = "con (keyb (kern power_on_machine))"
  have parts: "kernel_mem (kern power_on_machine) = boot_memory" "fs (kern power_on_machine) = unmounted"
    "paging_off ?c" "page_aligned (tables_addr ?c)" "current_terminal ?c = 0" "active_terminal ?c \<in> {0, 1, 2}"
    by (simp_all add: power_on_machine_def boot_console_def paging_off_def paging_zero_def page_aligned_def)
  have img: "last_module boot_memory 0x70000 = 0x400000" "unat (num_dentry boot_memory 0x400000) = 1"
    using boot_memory_words by (simp_all add: last_module_def CHECK_FLAG_def num_dentry_def)
  have fl: "\<not> (CHECK_FLAG (load32 boot_memory 0x70000) 4 \<and> CHECK_FLAG (load32 boot_memory 0x70000) 5)"
    using boot_memory_words(1) by (simp add: CHECK_FLAG_def)
  have "disjoint_regions (dentries unmounted) (44 * 1) 0x400000 (64 + 64 * 1)"
    by (rule disjoint_regions_apart) (simp add: unmounted_def)
  moreover have "clear_of boot_print_env 0x400000 (64 + 64 * 1)"
    by (auto simp: clear_of_def boot_print_env_def intro!: disjoint_regions_apart)
  ultimately show ?thesis
    using boot_initialises [OF refl parts(1) [symmetric] parts(3) boot_memory_words(7) fl parts(4-6) pic_dev_responds
        img(1) [symmetric] _ img(2) [symmetric], where L = sample_link and n = 1 and env = sample_env and cm = power_on and cs = power_on] boot_memory_words(6) parts(2) by fastforce
qed

end
