(* ===== verification/User_Lib.thy ===== *)
theory User_Lib
  imports Lib_String
begin

text \<open>
  The string routines that user programs are linked with, \<^verbatim>\<open>src/syscalls/ece391support.c\<close> (the
  file of the same name in \<^verbatim>\<open>src/fish\<close> has the first five of them again).  They walk along
  their pointers where the kernel's routines index; \<open>ece391_strlen\<close>, \<open>ece391_strrev\<close> and \<open>ece391_itoa\<close> are shown
  to be the kernel's functions, and the others do on C strings what their names say.
\<close>

subsection \<open>The routines\<close>

partial_function (option) strlen_walk :: "mem \<Rightarrow> u32 \<Rightarrow> u32 \<Rightarrow> u32 option" where
  "strlen_walk m s len = (if 0 \<noteq> m s then strlen_walk m (s + 1) (len + 1) else Some len)"

definition ece391_strlen :: "mem \<Rightarrow> u32 \<Rightarrow> u32 option" where
  "ece391_strlen m s = strlen_walk m s 0"

partial_function (option) ece391_strcpy :: "mem \<Rightarrow> u32 \<Rightarrow> u32 \<Rightarrow> mem option" where
  "ece391_strcpy m dst src =
    (let c = m src; m = m(dst := c) in if 0 \<noteq> c then ece391_strcpy m (dst + 1) (src + 1) else Some m)"

text \<open>The characters are unsigned here.\<close>

partial_function (option) ece391_strcmp :: "mem \<Rightarrow> u32 \<Rightarrow> u32 \<Rightarrow> int option" where
  "ece391_strcmp m s1 s2 =
    (if m s1 = m s2 then if m s1 = 0 then Some 0 else ece391_strcmp m (s1 + 1) (s2 + 1)
     else Some (int (unat (m s1)) - int (unat (m s2))))"

partial_function (option) strncmp_walk :: "mem \<Rightarrow> u32 \<Rightarrow> u32 \<Rightarrow> u32 \<Rightarrow> int option" where
  "strncmp_walk m s1 s2 n =
    (if m s1 = m s2 then if m s1 = 0 \<or> n - 1 = 0 then Some 0 else strncmp_walk m (s1 + 1) (s2 + 1) (n - 1)
     else Some (int (unat (m s1)) - int (unat (m s2))))"

definition ece391_strncmp :: "mem \<Rightarrow> u32 \<Rightarrow> u32 \<Rightarrow> u32 \<Rightarrow> int option" where
  "ece391_strncmp m s1 s2 n = (if 0 = n then Some 0 else strncmp_walk m s1 s2 n)"

text \<open>The loop of \<open>ece391_strrev\<close> swaps the two characters in the order of the source.\<close>

function swap_loop :: "mem \<Rightarrow> u32 \<Rightarrow> int \<Rightarrow> int \<Rightarrow> mem" where
  "swap_loop m s beg endi =
    (if beg < endi then
       let tmp = m (s + of_int endi);
           m = m(s + of_int endi := m (s + of_int beg));
           m = m(s + of_int beg := tmp)
       in swap_loop m s (beg + 1) (endi - 1)
     else m)"
  by pat_completeness auto
termination
  by (relation "measure (\<lambda>(m, s, beg, endi). nat (endi - beg))") auto

declare swap_loop.simps [simp del]

definition ece391_strrev :: "mem \<Rightarrow> u32 \<Rightarrow> mem option" where
  "ece391_strrev m s = do {
     len \<leftarrow> ece391_strlen m s;
     let endi = sint (len - 1);
     if endi \<le> 0 then Some m else Some (swap_loop m s 0 endi)
   }"

text \<open>The digits, least significant first; no result for radix 0, which divides by zero, and beyond
  the table.\<close>

partial_function (option) digit_loop :: "mem \<Rightarrow> u32 \<Rightarrow> u32 \<Rightarrow> u32 \<Rightarrow> (mem \<times> u32) option" where
  "digit_loop m newbuf newval radix =
    (if newval > 0 then
       if radix = 0 \<or> 37 \<le> unat (newval mod radix) then None
       else digit_loop (m(newbuf := itoa_lookup ! unat (newval mod radix))) (newbuf + 1) (newval div radix) radix
     else Some (m, newbuf))"

definition ece391_itoa :: "mem \<Rightarrow> u32 \<Rightarrow> u32 \<Rightarrow> u32 \<Rightarrow> mem option" where
  "ece391_itoa m val buf radix =
    (if val = 0 then Some (m(buf := 48, buf + 1 := 0))
     else do {
       (m, newbuf) \<leftarrow> digit_loop m buf val radix;
       ece391_strrev (m(newbuf := 0)) buf
     })"

subsection \<open>The same as in the kernel\<close>

lemma option_eqI: "(\<And>r. x = Some r \<longleftrightarrow> y = Some r) \<Longrightarrow> x = y"
  by (cases x; cases y) auto

lemma strlen_walk_eq: "strlen_walk m (s + len) len = strlen_from m s len"
proof -
  have 1: "\<forall>s. p = s + len \<longrightarrow> strlen_from m s len = Some r" if "strlen_walk m p len = Some r" for m p len r
    using that
  proof (rule strlen_walk.raw_induct [where P = "\<lambda>m p len r. \<forall>s. p = s + len \<longrightarrow> strlen_from m s len = Some r", rotated])
    fix f :: "mem \<Rightarrow> u32 \<Rightarrow> u32 \<Rightarrow> u32 option" and m p len r
    assume IH: "\<And>m p len r. f m p len = Some r \<Longrightarrow> \<forall>s. p = s + len \<longrightarrow> strlen_from m s len = Some r"
      and run: "(if 0 \<noteq> m p then f m (p + 1) (len + 1) else Some len) = Some r"
    show "\<forall>s. p = s + len \<longrightarrow> strlen_from m s len = Some r"
      using run IH [of m "p + 1" "len + 1" r] by (intro allI impI, subst strlen_from.simps) (auto simp: add.assoc split: if_splits)
  qed
  have 2: "strlen_walk m (s + len) len = Some r" if "strlen_from m s len = Some r" for m s len r
    using that
  proof (rule strlen_from.raw_induct [where P = "\<lambda>m s len r. strlen_walk m (s + len) len = Some r", rotated])
    fix f :: "mem \<Rightarrow> u32 \<Rightarrow> u32 \<Rightarrow> u32 option" and m s len r
    assume IH: "\<And>m s len r. f m s len = Some r \<Longrightarrow> strlen_walk m (s + len) len = Some r"
      and run: "(if m (s + len) \<noteq> 0 then f m s (len + 1) else Some len) = Some r"
    show "strlen_walk m (s + len) len = Some r"
      using run IH [of m s "len + 1" r] by (subst strlen_walk.simps) (auto simp: add.assoc split: if_splits)
  qed
  show ?thesis using 1 2 by (intro option_eqI) blast
qed

lemma ece391_strlen_eq: "ece391_strlen m s = strlen m s"
  using strlen_walk_eq [of m s 0] by (simp add: ece391_strlen_def strlen_def)

lemma swap_loop_eq: "swap_loop m s b e = strrev_loop m s b e"
proof (induction m s b e rule: swap_loop.induct)
  case (1 m s b e)
  then show ?case by (subst swap_loop.simps, subst strrev_loop.simps) (simp add: Let_def fun_upd_def)
qed

lemma ece391_strrev_eq: "ece391_strrev m s = strrev m s"
proof -
  have "strrev_loop m s 0 e = m" if "e \<le> 0" for e using that by (subst strrev_loop.simps) simp
  then show ?thesis by (cases "strlen m s") (simp_all add: ece391_strrev_def strrev_def ece391_strlen_eq swap_loop_eq Let_def)
qed

lemma digit_loop_eq: "digit_loop m p v radix = itoa_digits m p v radix"
proof -
  have 1: "itoa_digits m p v radix = Some r" if "digit_loop m p v radix = Some r" for m p v radix r
    using that
  proof (rule digit_loop.raw_induct [where P = "\<lambda>m p v radix r. itoa_digits m p v radix = Some r", rotated])
    fix f :: "mem \<Rightarrow> u32 \<Rightarrow> u32 \<Rightarrow> u32 \<Rightarrow> (mem \<times> u32) option" and m p v radix r
    assume "\<And>m p v radix r. f m p v radix = Some r \<Longrightarrow> itoa_digits m p v radix = Some r"
      and "(if v > 0 then if radix = 0 \<or> 37 \<le> unat (v mod radix) then None
        else f (m(p := itoa_lookup ! unat (v mod radix))) (p + 1) (v div radix) radix else Some (m, p)) = Some r"
    then show "itoa_digits m p v radix = Some r" by (subst itoa_digits.simps) (auto split: if_splits)
  qed
  have 2: "digit_loop m p v radix = Some r" if "itoa_digits m p v radix = Some r" for m p v radix r
    using that
  proof (rule itoa_digits.raw_induct [where P = "\<lambda>m p v radix r. digit_loop m p v radix = Some r", rotated])
    fix f :: "mem \<Rightarrow> u32 \<Rightarrow> u32 \<Rightarrow> u32 \<Rightarrow> (mem \<times> u32) option" and m p v radix r
    assume "\<And>m p v radix r. f m p v radix = Some r \<Longrightarrow> digit_loop m p v radix = Some r"
      and "(if v > 0 then if radix = 0 \<or> length itoa_lookup \<le> unat (v mod radix) then None
        else f (m(p := itoa_lookup ! unat (v mod radix))) (p + 1) (v div radix) radix else Some (m, p)) = Some r"
    then show "digit_loop m p v radix = Some r" by (subst digit_loop.simps) (auto split: if_splits)
  qed
  show ?thesis using 1 2 by (intro option_eqI) blast
qed

lemma ece391_itoa_eq: "ece391_itoa m v buf radix = itoa m v buf radix"
  by (simp add: ece391_itoa_def itoa_def digit_loop_eq ece391_strrev_eq)

subsection \<open>Strings and counts in memory\<close>

lemma cstr_cong:
  assumes "cstr m a xs" "\<And>x. in_region a (Suc (length xs)) x \<Longrightarrow> m' x = m x"
  shows "cstr m' a xs"
proof -
  have len: "Suc (length xs) \<le> 2 ^ 32" "0 \<notin> set xs" using assms(1) by (simp_all add: cstr_def)
  have "load_bytes m' a (length xs + 1) = load_bytes m a (length xs + 1)"
    using assms(2) len(1) by (intro load_bytes_cong) simp_all
  then show ?thesis using cstr_load [OF assms(1)] len by (intro cstr_bytes) simp_all
qed

lemma load_bytes_upd:
  assumes "load_bytes m a n = xs" "n < 2 ^ 32"
  shows "load_bytes (m(a + of_nat n := v)) a (Suc n) = xs @ [v]"
proof -
  have "a + of_nat i \<noteq> a + of_nat n" if "i < n" for i
  proof -
    have "unat (of_nat i :: u32) \<noteq> unat (of_nat n :: u32)" using that assms(2) by simp
    then show ?thesis by auto
  qed
  then show ?thesis using assms(1) by (auto simp: load_bytes_def)
qed

lemma take_load_bytes: "k \<le> n \<Longrightarrow> take k (load_bytes m a n) = load_bytes m a k"
  by (simp add: load_bytes_def take_map)

lemma count_word: "0 < n \<Longrightarrow> n < 2 ^ 31 \<Longrightarrow> of_nat n \<noteq> (0 :: u32) \<and> of_nat n \<noteq> (-1 :: u32)"
proof -
  assume n: "0 < n" "n < 2 ^ 31"
  then have "unat (of_nat n :: u32) = n" by (intro unat_of_nat32) simp
  moreover have "unat (-1 :: u32) = 2 ^ 32 - 1" by (simp add: unsigned_minus_1_eq_mask mask_eq_exp_minus_1)
  ultimately have "unat (of_nat n :: u32) \<noteq> unat (0 :: u32)" "unat (of_nat n :: u32) \<noteq> unat (-1 :: u32)" using n by simp_all
  then show ?thesis by metis
qed

subsection \<open>Copying and comparing\<close>

lemma cstr_Nil_iff: "cstr m s [] \<longleftrightarrow> m s = 0"
  by (simp add: cstr_def)

lemma cstr_Cons_iff: "cstr m s (x # xs) \<longleftrightarrow> m s = x \<and> x \<noteq> 0 \<and> cstr m (s + 1) xs \<and> length xs < 2 ^ 32 - 1"
  by (auto simp: cstr_def load_bytes_Suc add.assoc)

text \<open>A copy is right when no byte is written before it is read: for separate regions, and for a
  copy to lower addresses.\<close>

lemma ece391_strcpy_eq:
  assumes "cstr m src xs" "\<forall>i j. i < j \<and> j \<le> length xs \<longrightarrow> dst + of_nat i \<noteq> src + of_nat j"
  shows "ece391_strcpy m dst src = Some (store_bytes m dst (xs @ [0]))"
  using assms
proof (induction xs arbitrary: m dst src)
  case Nil
  then show ?case by (subst ece391_strcpy.simps) (simp add: cstr_Nil_iff Let_def)
next
  case (Cons x xs)
  let ?m = "m(dst := x)"
  have x: "m src = x" "x \<noteq> 0" "cstr m (src + 1) xs" using Cons.prems(1) by (simp_all add: cstr_Cons_iff)
  have "?m (src + 1 + of_nat j) = m (src + 1 + of_nat j)" if "j \<le> length xs" for j
    using Cons.prems(2) [rule_format, of 0 "Suc j"] that by (auto simp: add.assoc)
  then have "load_bytes ?m (src + 1) (length xs + 1) = load_bytes m (src + 1) (length xs + 1)"
    by (intro nth_equalityI) simp_all
  then have "cstr ?m (src + 1) xs"
    using x(3) cstr_load [OF x(3)] by (intro cstr_bytes) (simp_all add: cstr_def)
  moreover have "\<forall>i j. i < j \<and> j \<le> length xs \<longrightarrow> dst + 1 + of_nat i \<noteq> src + 1 + of_nat j"
  proof (intro allI impI)
    fix i j assume "i < j \<and> j \<le> length xs"
    then show "dst + 1 + of_nat i \<noteq> src + 1 + of_nat j" using Cons.prems(2) [rule_format, of "Suc i" "Suc j"] by (simp add: algebra_simps)
  qed
  ultimately have "ece391_strcpy ?m (dst + 1) (src + 1) = Some (store_bytes ?m (dst + 1) (xs @ [0]))"
    by (rule Cons.IH)
  then show ?case using x by (subst ece391_strcpy.simps) (simp add: Let_def fun_upd_def)
qed

lemma ece391_strcpy_disjoint:
  assumes "cstr m src xs" "disjoint_regions dst (Suc (length xs)) src (Suc (length xs))"
  shows "ece391_strcpy m dst src = Some (store_bytes m dst (xs @ [0]))"
proof (rule ece391_strcpy_eq [OF assms(1)], intro allI impI)
  fix i j assume ij: "i < j \<and> j \<le> length xs"
  have "length xs < 2 ^ 32" using assms(1) by (simp add: cstr_def)
  then have "in_region dst (Suc (length xs)) (dst + of_nat i)" "in_region src (Suc (length xs)) (src + of_nat j)"
    using ij by (simp_all add: in_region_def)
  then show "dst + of_nat i \<noteq> src + of_nat j" using assms(2) unfolding disjoint_regions_def by metis
qed

lemma ece391_strcmp_eq:
  assumes "cstr m s1 xs" "cstr m s2 ys"
  shows "\<exists>r. ece391_strcmp m s1 s2 = Some r \<and> (r = 0 \<longleftrightarrow> xs = ys)"
  using assms
proof (induction xs arbitrary: s1 s2 ys)
  case Nil
  show ?case
  proof (cases ys)
    case Nil
    then show ?thesis using Nil.prems by (subst ece391_strcmp.simps) (simp add: cstr_Nil_iff)
  next
    case (Cons y ys')
    then show ?thesis using Nil.prems by (subst ece391_strcmp.simps) (auto simp: cstr_Nil_iff cstr_Cons_iff uint_0_iff)
  qed
next
  case (Cons x xs)
  then have x: "m s1 = x" "x \<noteq> 0" "cstr m (s1 + 1) xs" by (simp_all add: cstr_Cons_iff)
  show ?case
  proof (cases "m s2 = x")
    case True
    then obtain ys' where ys: "ys = x # ys'" "cstr m (s2 + 1) ys'"
      using Cons.prems(2) x(2) by (cases ys) (auto simp: cstr_Nil_iff cstr_Cons_iff)
    show ?thesis using Cons.IH [OF x(3) ys(2)] x True ys(1) by (subst ece391_strcmp.simps) simp
  next
    case False
    then have "x # xs \<noteq> ys" using Cons.prems(2) by (cases ys) (auto simp: cstr_Cons_iff)
    then show ?thesis using False x(1) by (subst ece391_strcmp.simps) (auto dest: unsigned_word_eqI)
  qed
qed

lemma strncmp_walk_eq:
  assumes "cstr m s1 xs" "cstr m s2 ys" "n \<noteq> 0"
  shows "\<exists>r. strncmp_walk m s1 s2 n = Some r \<and> (r = 0 \<longleftrightarrow> take (unat n) xs = take (unat n) ys)"
  using assms
proof (induction xs arbitrary: s1 s2 ys n)
  case Nil
  have n: "0 < unat n" using Nil.prems(3) by (simp add: unat_gt_0)
  show ?case
  proof (cases ys)
    case Nil
    then show ?thesis using Nil.prems by (subst strncmp_walk.simps) (simp add: cstr_Nil_iff)
  next
    case (Cons y ys')
    then show ?thesis using Nil.prems n by (subst strncmp_walk.simps) (auto simp: cstr_Nil_iff cstr_Cons_iff uint_0_iff)
  qed
next
  case (Cons x xs)
  then have x: "m s1 = x" "x \<noteq> 0" "cstr m (s1 + 1) xs" by (simp_all add: cstr_Cons_iff)
  have n: "unat n = Suc (unat (n - 1))" using Cons.prems(3) by (simp add: unat_minus_one32 unat_gt_0)
  show ?case
  proof (cases "m s2 = x")
    case True
    then obtain ys' where ys: "ys = x # ys'" "cstr m (s2 + 1) ys'"
      using Cons.prems(2) x(2) by (cases ys) (auto simp: cstr_Nil_iff cstr_Cons_iff)
    show ?thesis
    proof (cases "n - 1 = 0")
      case True
      then show ?thesis using x \<open>m s2 = x\<close> ys n by (subst strncmp_walk.simps) simp
    next
      case False
      then show ?thesis using Cons.IH [OF x(3) ys(2) False] x \<open>m s2 = x\<close> ys(1) n by (subst strncmp_walk.simps) simp
    qed
  next
    case False
    then have "take (unat n) (x # xs) \<noteq> take (unat n) ys" using Cons.prems(2) n by (cases ys) (auto simp: cstr_Cons_iff)
    then show ?thesis using False x(1) by (subst strncmp_walk.simps) (auto dest: unsigned_word_eqI)
  qed
qed

lemma ece391_strncmp_eq:
  assumes "cstr m s1 xs" "cstr m s2 ys"
  shows "\<exists>r. ece391_strncmp m s1 s2 n = Some r \<and> (r = 0 \<longleftrightarrow> take (unat n) xs = take (unat n) ys)"
  using strncmp_walk_eq [OF assms, of n] by (cases "n = 0") (simp_all add: ece391_strncmp_def)

end
