(* ===== verification/User_Calls.thy ===== *)
theory User_Calls
  imports User_Lib Printf Process
begin

text \<open>
  What a user program sees of the system: the ten calls of \<^verbatim>\<open>src/syscalls/ece391syscall.h\<close>, its
  memory, and the addresses of its string constants, collected in the record \<open>os\<close>.  Programs are
  written against that record; the locale \<open>user_os\<close> states the laws they rely on, and the kernel
  of this development is shown to be an instance in \<open>Kernel_Calls\<close>.
\<close>

subsection \<open>The system as a record\<close>

record 's os =
  call :: "u32 \<Rightarrow> u32 \<Rightarrow> u32 \<Rightarrow> u32 \<Rightarrow> 's \<Rightarrow> (u32 \<times> 's) option"
  mem_of :: "'s \<Rightarrow> mem"
  set_mem :: "mem \<Rightarrow> 's \<Rightarrow> 's"
  lit :: "string \<Rightarrow> u32"

abbreviation (input) SYS_HALT :: u32 where "SYS_HALT \<equiv> 1"
abbreviation (input) SYS_EXECUTE :: u32 where "SYS_EXECUTE \<equiv> 2"
abbreviation (input) SYS_READ :: u32 where "SYS_READ \<equiv> 3"
abbreviation (input) SYS_WRITE :: u32 where "SYS_WRITE \<equiv> 4"
abbreviation (input) SYS_OPEN :: u32 where "SYS_OPEN \<equiv> 5"
abbreviation (input) SYS_CLOSE :: u32 where "SYS_CLOSE \<equiv> 6"
abbreviation (input) SYS_GETARGS :: u32 where "SYS_GETARGS \<equiv> 7"
abbreviation (input) SYS_VIDMAP :: u32 where "SYS_VIDMAP \<equiv> 8"
abbreviation (input) SYS_SET_HANDLER :: u32 where "SYS_SET_HANDLER \<equiv> 9"
abbreviation (input) SYS_SIGRETURN :: u32 where "SYS_SIGRETURN \<equiv> 10"

text \<open>The wrappers load three words of the stack for every call; the calls with fewer parameters
  ignore the rest, which is 0 here.\<close>

definition ece391_execute :: "'s os \<Rightarrow> u32 \<Rightarrow> 's \<Rightarrow> (u32 \<times> 's) option" where
  "ece391_execute os command s = call os SYS_EXECUTE command 0 0 s"

definition ece391_read :: "'s os \<Rightarrow> u32 \<Rightarrow> u32 \<Rightarrow> u32 \<Rightarrow> 's \<Rightarrow> (u32 \<times> 's) option" where
  "ece391_read os fd buf nbytes s = call os SYS_READ fd buf nbytes s"

definition ece391_write :: "'s os \<Rightarrow> u32 \<Rightarrow> u32 \<Rightarrow> u32 \<Rightarrow> 's \<Rightarrow> (u32 \<times> 's) option" where
  "ece391_write os fd buf nbytes s = call os SYS_WRITE fd buf nbytes s"

definition ece391_open :: "'s os \<Rightarrow> u32 \<Rightarrow> 's \<Rightarrow> (u32 \<times> 's) option" where
  "ece391_open os filename s = call os SYS_OPEN filename 0 0 s"

definition ece391_close :: "'s os \<Rightarrow> u32 \<Rightarrow> 's \<Rightarrow> (u32 \<times> 's) option" where
  "ece391_close os fd s = call os SYS_CLOSE fd 0 0 s"

definition ece391_getargs :: "'s os \<Rightarrow> u32 \<Rightarrow> u32 \<Rightarrow> 's \<Rightarrow> (u32 \<times> 's) option" where
  "ece391_getargs os buf nbytes s = call os SYS_GETARGS buf nbytes 0 s"

definition ece391_vidmap :: "'s os \<Rightarrow> u32 \<Rightarrow> 's \<Rightarrow> (u32 \<times> 's) option" where
  "ece391_vidmap os screen_start s = call os SYS_VIDMAP screen_start 0 0 s"

definition ece391_set_handler :: "'s os \<Rightarrow> u32 \<Rightarrow> u32 \<Rightarrow> 's \<Rightarrow> (u32 \<times> 's) option" where
  "ece391_set_handler os signum handler s = call os SYS_SET_HANDLER signum handler 0 s"

definition ece391_halt :: "'s os \<Rightarrow> u32 \<Rightarrow> 's \<Rightarrow> (u32 \<times> 's) option" where
  "ece391_halt os status s = call os SYS_HALT status 0 0 s"

text \<open>Writing a string, a byte store of the program itself, and \<open>_start\<close>, which halts with what \<open>main\<close>
  returned.\<close>

definition ece391_fdputs :: "'s os \<Rightarrow> u32 \<Rightarrow> u32 \<Rightarrow> 's \<Rightarrow> 's option" where
  "ece391_fdputs os fd str s = do {
     n \<leftarrow> ece391_strlen (mem_of os s) str;
     (_, s) \<leftarrow> ece391_write os fd str n s;
     Some s
   }"

definition store_byte :: "'s os \<Rightarrow> u32 \<Rightarrow> u8 \<Rightarrow> 's \<Rightarrow> 's" where
  "store_byte os a v s = set_mem os ((mem_of os s)(a := v)) s"

definition c_start :: "'s os \<Rightarrow> ('s \<Rightarrow> (u32 \<times> 's) option) \<Rightarrow> 's \<Rightarrow> (u32 \<times> 's) option" where
  "c_start os main s = do { (r, s) \<leftarrow> main s; ece391_halt os r s }"

abbreviation (input) puts_lit :: "'s os \<Rightarrow> string \<Rightarrow> 's \<Rightarrow> 's option" where
  "puts_lit os str \<equiv> ece391_fdputs os 1 (lit os str)"

subsection \<open>The laws\<close>

text \<open>A region of the program's own memory.\<close>

definition region_in :: "(u32 \<Rightarrow> bool) \<Rightarrow> u32 \<Rightarrow> nat \<Rightarrow> bool" where
  "region_in P a n \<longleftrightarrow> (\<forall>x. in_region a n x \<longrightarrow> P x)"

lemma region_in_offset: "region_in P a n \<Longrightarrow> i + k \<le> n \<Longrightarrow> n \<le> 2 ^ 32 \<Longrightarrow> region_in P (a + of_nat i) k"
  unfolding region_in_def using in_region_offset by blast

lemma region_in_mono: "region_in P a n \<Longrightarrow> k \<le> n \<Longrightarrow> region_in P a k"
  by (auto simp: region_in_def in_region_def)

text \<open>\<open>mine\<close> are the addresses of the program; \<open>display\<close> is what can be seen, which \<open>vch\<close> changes by a
  character; \<open>feeds fd n xss\<close> says that reads of \<open>n\<close> bytes from \<open>fd\<close> will give the pieces \<open>xss\<close> and then
  nothing more.  A write turns NUL bytes into blanks, in the buffer too.\<close>

locale user_os = state_part "mem_of os" "set_mem os" for os :: "'s os" +
  fixes ok :: "'s \<Rightarrow> bool" and mine :: "u32 \<Rightarrow> bool" and display :: "'s \<Rightarrow> 'v" and vch :: "u8 \<Rightarrow> 'v \<Rightarrow> 'v"
    and feeds :: "u32 \<Rightarrow> nat \<Rightarrow> u8 list list \<Rightarrow> 's \<Rightarrow> bool"
  assumes null_not_mine: "\<not> mine 0"
    and own_store: "\<lbrakk>ok s; \<forall>a. \<not> mine a \<longrightarrow> m a = mem_of os s a\<rbrakk> \<Longrightarrow>
      ok (set_mem os m s) \<and> display (set_mem os m s) = display s \<and> (feeds fd n xss s \<longrightarrow> feeds fd n xss (set_mem os m s))"
    and write_out: "\<lbrakk>ok s; load_bytes (mem_of os s) a (length xs) = xs; 13 \<notin> set xs; a \<noteq> 0; region_in mine a (length xs);
        length xs < 2 ^ 31\<rbrakk> \<Longrightarrow>
      \<exists>s'. call os SYS_WRITE 1 a (of_nat (length xs)) s = Some (of_nat (length xs), s') \<and> ok s' \<and>
        display s' = fold vch (map printable xs) (display s) \<and> mem_of os s' = store_bytes (mem_of os s) a (map printable xs) \<and>
        (\<forall>fd n xss. feeds fd n xss s \<longrightarrow> feeds fd n xss s')"
    and read_chunk: "\<lbrakk>ok s; feeds fd n (xs # xss) s; region_in mine buf n; buf \<noteq> 0; n < 2 ^ 31\<rbrakk> \<Longrightarrow>
      xs \<noteq> [] \<and> length xs \<le> n \<and> (\<exists>s'. call os SYS_READ fd buf (of_nat n) s = Some (of_nat (length xs), s') \<and> ok s' \<and> display s' = display s \<and>
        feeds fd n xss s' \<and> load_bytes (mem_of os s') buf (length xs) = xs \<and>
        (\<forall>a. mine a \<longrightarrow> \<not> in_region buf n a \<longrightarrow> mem_of os s' a = mem_of os s a) \<and>
        (\<forall>fd' k yss. fd' \<noteq> fd \<longrightarrow> feeds fd' k yss s \<longrightarrow> feeds fd' k yss s'))"
    and read_end: "\<lbrakk>ok s; feeds fd n [] s; region_in mine buf n; buf \<noteq> 0; n < 2 ^ 31\<rbrakk> \<Longrightarrow>
      \<exists>s'. call os SYS_READ fd buf (of_nat n) s = Some (0, s') \<and> ok s' \<and> display s' = display s \<and> feeds fd n [] s' \<and>
        (\<forall>a. mine a \<longrightarrow> \<not> in_region buf n a \<longrightarrow> mem_of os s' a = mem_of os s a) \<and>
        (\<forall>fd' k yss. fd' \<noteq> fd \<longrightarrow> feeds fd' k yss s \<longrightarrow> feeds fd' k yss s')"
begin

text \<open>A text without NUL bytes and carriage returns leaves the memory as it is.\<close>

lemma write_text:
  assumes "ok s" "load_bytes (mem_of os s) a (length xs) = xs" "set xs \<inter> {0, 13} = {}" "a \<noteq> 0" "region_in mine a (length xs)" "length xs < 2 ^ 31"
  shows "\<exists>s'. call os SYS_WRITE 1 a (of_nat (length xs)) s = Some (of_nat (length xs), s') \<and> ok s' \<and>
    display s' = fold vch xs (display s) \<and> mem_of os s' = mem_of os s \<and> (\<forall>fd n xss. feeds fd n xss s \<longrightarrow> feeds fd n xss s')"
proof -
  have "map printable xs = xs" using assms(3) by (intro map_idI) (auto simp: printable_def)
  moreover have "store_bytes (mem_of os s) a xs = mem_of os s" using assms(2,6) store_load_same [of "length xs" "mem_of os s" a] by simp
  ultimately show ?thesis using write_out [OF assms(1,2) _ assms(4-6)] assms(3) by auto
qed

lemma fdputs_text:
  assumes "ok s" "cstr (mem_of os s) a xs" "13 \<notin> set xs" "region_in mine a (Suc (length xs))" "length xs < 2 ^ 31"
  shows "\<exists>s'. ece391_fdputs os 1 a s = Some s' \<and> ok s' \<and> display s' = fold vch xs (display s) \<and> mem_of os s' = mem_of os s \<and>
    (\<forall>fd n xss. feeds fd n xss s \<longrightarrow> feeds fd n xss s')"
proof -
  have "a \<noteq> 0" using assms(4) null_not_mine by (auto simp: region_in_def in_region_def)
  moreover have "load_bytes (mem_of os s) a (length xs) = xs" "0 \<notin> set xs" using assms(2) by (simp_all add: cstr_def)
  ultimately show ?thesis
    using write_text [of s a xs] assms region_in_mono [OF assms(4)] strlen_cstr [OF assms(2)]
    by (auto simp: ece391_fdputs_def ece391_write_def ece391_strlen_eq)
qed

end

end
