(* ===== verification/Dispatch.thy ===== *)
theory Dispatch
  imports Execute
begin

text \<open>
  The entry of the system calls, \<open>system_wrapper\<close> of \<^verbatim>\<open>src/student-distrib/iret_test.S\<close>: it saves the
  registers on the kernel stack, checks the number in \<open>eax\<close>, goes through the jump table to the
  routine of the call with the arguments of \<open>ebx\<close>, \<open>ecx\<close> and \<open>edx\<close>, and restores the registers.
  The stack is a list of words with its top in front.
\<close>

subsection \<open>Registers and stack\<close>

record regs =
  eax :: u32
  ebx :: u32
  ecx :: u32
  edx :: u32
  esi :: u32
  edi :: u32
  ebp :: u32
  sel_ds :: u16
  sel_es :: u16
  sel_fs :: u16

text \<open>The nine pushes at the beginning and the nine pops at \<open>no_error\<close>.\<close>

definition push_regs :: "regs \<Rightarrow> u32 list \<Rightarrow> u32 list" where
  "push_regs r stk =
    (let stk = ucast (sel_fs r) # stk;
         stk = ucast (sel_es r) # stk;
         stk = ucast (sel_ds r) # stk;
         stk = ebp r # stk;
         stk = edi r # stk;
         stk = esi r # stk;
         stk = edx r # stk;
         stk = ecx r # stk
     in ebx r # stk)"

fun pop_regs :: "regs \<Rightarrow> u32 list \<Rightarrow> (regs \<times> u32 list) option" where
  "pop_regs r (b # c # d # si # di # bp # s1 # s2 # s3 # stk) =
    Some (r\<lparr>ebx := b, ecx := c, edx := d, esi := si, edi := di, ebp := bp,
      sel_ds := ucast s1, sel_es := ucast s2, sel_fs := ucast s3\<rparr>, stk)"
| "pop_regs r stk = None"

subsection \<open>The jump table\<close>

definition returned :: "(int \<times> kernel) option \<Rightarrow> (control \<times> kernel) option" where
  "returned x = map_option (\<lambda>(v, s). (Returned v, s)) x"

text \<open>The routine behind entry \<open>i\<close>, which finds its arguments on top of the stack.\<close>

definition jump_table :: "nat \<Rightarrow> env \<Rightarrow> nat \<Rightarrow> u32 \<Rightarrow> u32 \<Rightarrow> u32 \<Rightarrow> kernel \<Rightarrow> (control \<times> kernel) option" where
  "jump_table n env i b c d s =
    (if i = 0 then c_halt n env (ucast b) s
     else if i = 1 then c_execute n env b s
     else if i = 2 then returned (c_read env (sint b) c (sint d) s)
     else if i = 3 then returned (c_write env (sint b) c (sint d) s)
     else if i = 4 then returned (c_open env b s)
     else if i = 5 then returned (Some (c_close (sint b) s))
     else if i = 6 then returned (Some (c_getargs env b (sint c) s))
     else if i = 7 then returned (Some (c_vidmap env b s))
     else if i = 8 then returned (Some (c_sethandler (sint b) c s))
     else if i = 9 then returned (Some (c_sigreturn s))
     else None)"

text \<open>One entry of the table: push the arguments, call, drop them.  A C function leaves its result
  in \<open>eax\<close> and may change \<open>ecx\<close> and \<open>edx\<close> (to \<open>junk\<close> here).  \<open>execute\<close> and \<open>halt\<close> may leave for
  another stack instead.\<close>

fun call_entry :: "nat \<Rightarrow> env \<Rightarrow> u32 \<times> u32 \<Rightarrow> regs \<Rightarrow> u32 list \<Rightarrow> kernel \<Rightarrow> (control \<times> regs \<times> u32 list \<times> kernel) option" where
  "call_entry n env (junk_c, junk_d) r stk s = do {
     let stk = edx r # stk;
     let stk = ecx r # stk;
     let stk = ebx r # stk;
     (c, s) \<leftarrow> jump_table n env (unat (eax r)) (stk ! 0) (stk ! 1) (stk ! 2) s;
     case c of
       Returned v \<Rightarrow> Some (c, r\<lparr>eax := of_int v, ecx := junk_c, edx := junk_d\<rparr>, drop 3 stk, s)
     | _ \<Rightarrow> Some (c, r, stk, s)
   }"

definition system_call :: "nat \<Rightarrow> env \<Rightarrow> u32 \<times> u32 \<Rightarrow> regs \<Rightarrow> u32 list \<Rightarrow> kernel \<Rightarrow> (control \<times> regs \<times> u32 list \<times> kernel) option" where
  "system_call n env junk r stk s = do {
     let stk = push_regs r stk;
     let r = r\<lparr>eax := eax r - 1\<rparr>;
     (c, r, stk, s) \<leftarrow>
       (if sint (eax r) > 9 \<or> sint (eax r) < 0 then Some (Returned (-1), r\<lparr>eax := -1\<rparr>, stk, s)
        else call_entry n env junk r stk s);
     case c of
       Returned v \<Rightarrow> do { (r, stk) \<leftarrow> pop_regs r stk; Some (c, r, stk, s) }
     | _ \<Rightarrow> Some (c, r, stk, s)
   }"

text \<open>The wrappers of the interrupts, \<open>PIT_wrapper\<close>, \<open>keyboard_wrapper\<close> and \<open>rtc_wrapper\<close>, around a handler
  that returns: it may change the registers a C function may change, and the flags.\<close>

fun irq_wrapper :: "(kernel \<Rightarrow> kernel option) \<Rightarrow> u32 \<times> u32 \<times> u32 \<times> u32 \<Rightarrow> u32 \<Rightarrow> regs \<Rightarrow> u32 list \<Rightarrow> kernel \<Rightarrow>
    (u32 \<times> regs \<times> u32 list \<times> kernel) option" where
  "irq_wrapper handler (junk_a, junk_c, junk_d, junk_f) eflags r stk s = do {
     let stk = eax r # stk;
     let stk = edx r # stk;
     let stk = ecx r # stk;
     let stk = eflags # stk;
     s \<leftarrow> handler s;
     let r = r\<lparr>eax := junk_a, ecx := junk_c, edx := junk_d\<rparr>;
     let (eflags, stk) = (hd stk, tl stk);
     let (r, stk) = (r\<lparr>ecx := hd stk\<rparr>, tl stk);
     let (r, stk) = (r\<lparr>edx := hd stk\<rparr>, tl stk);
     let (r, stk) = (r\<lparr>eax := hd stk\<rparr>, tl stk);
     Some (eflags, r, stk, s)
   }"

subsection \<open>What a call does\<close>

lemma ucast_sel [simp]: "ucast (ucast (v :: u16) :: u32) = v"
  by (rule bit_word_eqI) (auto simp: bit_simps)

lemma pop_push: "pop_regs r (push_regs q stk) = Some (q\<lparr>eax := eax r\<rparr>, stk)"
  by (cases r; cases q) (simp add: push_regs_def)

lemma small_number: "0 \<le> sint (x :: u32) \<Longrightarrow> x = of_nat (nat (sint x))"
  by simp

lemma number_range: "(sint (x - 1) \<le> 9 \<and> 0 \<le> sint (x - 1)) \<longleftrightarrow> 1 \<le> sint x \<and> sint (x :: u32) \<le> 10"
proof
  assume "sint (x - 1) \<le> 9 \<and> 0 \<le> sint (x - 1)"
  moreover define k where "k = nat (sint (x - 1))"
  ultimately have "x - 1 = of_nat k" "k \<le> 9" using small_number [of "x - 1"] by (simp, linarith)
  then have "x = of_nat (Suc k)" "Suc k \<le> 10" by (simp_all add: algebra_simps)
  then show "1 \<le> sint x \<and> sint x \<le> 10" using sint_small [of "Suc k"] by simp
next
  assume "1 \<le> sint x \<and> sint x \<le> 10"
  moreover define k where "k = nat (sint x)"
  ultimately have "x = of_nat k" "1 \<le> k" "k \<le> 10" using small_number [of x] by (simp, linarith, linarith)
  then have "x - 1 = of_nat (k - 1)" "k - 1 \<le> 9" by (simp_all add: of_nat_diff)
  then show "sint (x - 1) \<le> 9 \<and> 0 \<le> sint (x - 1)" using sint_small [of "k - 1"] by simp
qed

lemma table_index: "1 \<le> sint x \<Longrightarrow> unat ((x :: u32) - 1) = nat (sint x) - 1"
proof -
  assume a: "1 \<le> sint x"
  define k where "k = nat (sint x)"
  have "k < 2 ^ 31" using sint_lt [of x] a by (simp add: k_def)
  moreover have "x = of_nat k" "1 \<le> k" using small_number [of x] a by (simp_all add: k_def)
  then have "x - 1 = of_nat (k - 1)" by (simp add: of_nat_diff)
  ultimately show ?thesis by (simp add: k_def)
qed

lemma system_call_eq:
  "system_call n env junk r stk s =
    (if 1 \<le> sint (eax r) \<and> sint (eax r) \<le> 10
     then do {
       (c, s') \<leftarrow> jump_table n env (nat (sint (eax r)) - 1) (ebx r) (ecx r) (edx r) s;
       Some (case c of
           Returned v \<Rightarrow> (c, r\<lparr>eax := of_int v\<rparr>, stk, s')
         | _ \<Rightarrow> (c, r\<lparr>eax := eax r - 1\<rparr>, ebx r # ecx r # edx r # push_regs r stk, s'))
     }
     else Some (Returned (-1), r\<lparr>eax := -1\<rparr>, stk, s))"
proof (cases "1 \<le> sint (eax r) \<and> sint (eax r) \<le> 10")
  case True
  then have "\<not> (sint (eax r - 1) > 9 \<or> sint (eax r - 1) < 0)" using number_range [of "eax r"] by linarith
  then show ?thesis using True table_index [of "eax r"]
    by (cases junk) (auto simp: system_call_def Let_def pop_push split: bind_splits control.splits prod.splits)
next
  case False
  then have "sint (eax r - 1) > 9 \<or> sint (eax r - 1) < 0" using number_range [of "eax r"] by linarith
  then show ?thesis unfolding if_not_P [OF False] by (simp add: system_call_def Let_def pop_push)
qed

lemma irq_wrapper_eq: "irq_wrapper handler junk eflags r stk s = map_option (\<lambda>s'. (eflags, r, stk, s')) (handler s)"
  by (cases junk; cases "handler s") simp_all

text \<open>C10: a system call keeps every register of the caller but \<open>eax\<close>, whatever the C routine does
  to them, and balances the stack.  Numbers 1 to 10 select the routines in the order of the
  table with the arguments of \<open>ebx\<close>, \<open>ecx\<close> and \<open>edx\<close>; every other number, negative ones included, gives -1 and
  touches nothing.\<close>

theorem system_call_correct:
  "system_call n env junk r stk s =
    (if 1 \<le> sint (eax r) \<and> sint (eax r) \<le> 10
     then do {
       (c, s') \<leftarrow> jump_table n env (nat (sint (eax r)) - 1) (ebx r) (ecx r) (edx r) s;
       Some (case c of
           Returned v \<Rightarrow> (c, r\<lparr>eax := of_int v\<rparr>, stk, s')
         | _ \<Rightarrow> (c, r\<lparr>eax := eax r - 1\<rparr>, ebx r # ecx r # edx r # push_regs r stk, s'))
     }
     else Some (Returned (-1), r\<lparr>eax := -1\<rparr>, stk, s))"
  by (rule system_call_eq)

end
