(* ===== verification/Kernel_Calls.thy ===== *)
theory Kernel_Calls
  imports User_Calls Dispatch Process_Table
begin

text \<open>
  The kernel as the system under user programs: every call goes through \<open>system_call\<close>, and the
  kernel's memory with the process's page in its window is the program's memory.  The laws of
  \<open>user_os\<close> are proved for it, from what the drivers were shown to do.  Calls are numbered, since
  the keyboard, the clock and the kernel's stack are different at each.
\<close>

subsection \<open>The instance\<close>

text \<open>\<open>child\<close> is the execution of a started program up to its end, which is the compiled code of the
  program; \<open>execute\<close> returns 0 to the parent afterwards.\<close>

record sys_env =
  envs :: "nat \<Rightarrow> env"
  depth :: nat
  user_regs :: regs
  kstack :: "u32 list"
  junk_regs :: "u32 \<times> u32"
  child :: "u32 \<Rightarrow> u32 \<Rightarrow> kernel \<times> nat \<Rightarrow> (kernel \<times> nat) option"
  literals :: "string \<Rightarrow> u32"

fun kernel_call :: "sys_env \<Rightarrow> u32 \<Rightarrow> u32 \<Rightarrow> u32 \<Rightarrow> u32 \<Rightarrow> kernel \<times> nat \<Rightarrow> (u32 \<times> kernel \<times> nat) option" where
  "kernel_call S num b c d (s, k) = do {
     (ctl, r, _, s) \<leftarrow> system_call (depth S) (envs S k) (junk_regs S)
       ((user_regs S)\<lparr>eax := num, ebx := b, ecx := c, edx := d\<rparr>) (kstack S) s;
     case ctl of
       Returned _ \<Rightarrow> Some (eax r, s, Suc k)
     | Enter_user eip esp \<Rightarrow> map_option (Pair 0) (child S eip esp (s, Suc k))
     | Resume _ _ _ \<Rightarrow> None
   }"

declare kernel_call.simps [simp del]

definition kernel_os :: "sys_env \<Rightarrow> (kernel \<times> nat) os" where
  "kernel_os S = \<lparr>call = kernel_call S, mem_of = (\<lambda>(s, k). view_mem s), set_mem = (\<lambda>m (s, k). (put_mem m s, k)), lit = literals S\<rparr>"

lemma kernel_os_simps [simp]:
  "call (kernel_os S) = kernel_call S" "mem_of (kernel_os S) (s, k) = view_mem s"
  "set_mem (kernel_os S) m (s, k) = (put_mem m s, k)" "lit (kernel_os S) = literals S"
  by (simp_all add: kernel_os_def)

text \<open>What the numbered calls come to, and the other numbers.\<close>

definition call_result :: "nat \<Rightarrow> (int \<times> kernel) option \<Rightarrow> (u32 \<times> kernel \<times> nat) option" where
  "call_result k x = map_option (\<lambda>(v, s). (of_int v, s, Suc k)) x"

lemma call_result_simps [simp]: "call_result k None = None" "call_result k (Some (v, s)) = Some (of_int v, s, Suc k)"
  by (simp_all add: call_result_def)

lemma kernel_call_returned:
  assumes "1 \<le> sint num \<and> sint num \<le> 10" "jump_table (depth S) (envs S k) (nat (sint num) - 1) b c d s = returned x"
  shows "kernel_call S num b c d (s, k) = call_result k x"
  using assms by (cases x) (auto simp: kernel_call.simps system_call_eq returned_def)

lemma kernel_calls:
  "kernel_call S SYS_READ b c d (s, k) = call_result k (c_read (envs S k) (sint b) c (sint d) s)"
  "kernel_call S SYS_WRITE b c d (s, k) = call_result k (c_write (envs S k) (sint b) c (sint d) s)"
  "kernel_call S SYS_OPEN b c d (s, k) = call_result k (c_open (envs S k) b s)"
  "kernel_call S SYS_CLOSE b c d (s, k) = call_result k (Some (c_close (sint b) s))"
  "kernel_call S SYS_GETARGS b c d (s, k) = call_result k (Some (c_getargs (envs S k) b (sint c) s))"
  "kernel_call S SYS_VIDMAP b c d (s, k) = call_result k (Some (c_vidmap (envs S k) b s))"
  "kernel_call S SYS_SET_HANDLER b c d (s, k) = call_result k (Some (c_sethandler (sint b) c s))"
  "\<not> (1 \<le> sint num \<and> sint num \<le> 10) \<Longrightarrow> kernel_call S num b c d (s, k) = Some (-1, s, Suc k)"
  by (rule kernel_call_returned; simp add: jump_table_def)+ (auto simp: kernel_call.simps system_call_eq)

subsection \<open>What programs can rely on\<close>

definition kernel_side :: "sys_env \<Rightarrow> nat \<Rightarrow> u32 \<Rightarrow> bool" where
  "kernel_side S k a \<longleftrightarrow> \<not> in_window a \<and> (\<forall>j \<ge> k. \<not> in_region (local_dentry (envs S j)) 44 a)"

text \<open>Memories that agree on the kernel's side, whatever the process and the calls to come write.\<close>

definition same_side :: "sys_env \<Rightarrow> nat \<Rightarrow> mem \<Rightarrow> mem \<Rightarrow> bool" where
  "same_side S k m m' \<longleftrightarrow> (\<forall>a. kernel_side S k a \<longrightarrow> m' a = m a)"

fun kernel_ok :: "sys_env \<Rightarrow> kernel \<times> nat \<Rightarrow> bool" where
  "kernel_ok S (s, k) \<longleftrightarrow> fds_ok s \<and> mapped (con (keyb s)) \<and> in_range (view (con (keyb s)) (active_terminal (con (keyb s)))) \<and>
    (\<exists>z. kernel_side S k z \<and> view_mem s z = 0) \<and> (\<forall>j \<ge> k. region_in (\<lambda>a. \<not> in_window a) (local_dentry (envs S j)) 44)"

text \<open>The screens of the three terminals, of which the running one changes.\<close>

definition screens :: "console \<Rightarrow> int \<times> (int \<Rightarrow> tview)" where
  "screens c = (active_terminal c, \<lambda>t. if t \<in> {0, 1, 2} then view c t else ([], 0, 0))"

fun show_char :: "u8 \<Rightarrow> int \<times> (int \<Rightarrow> tview) \<Rightarrow> int \<times> (int \<Rightarrow> tview)" where
  "show_char ch (t, f) = (t, f(t := vchar ch (f t)))"

fun kernel_display :: "kernel \<times> nat \<Rightarrow> int \<times> (int \<Rightarrow> tview)" where
  "kernel_display (s, k) = screens (con (keyb s))"

text \<open>The pieces an open directory delivers are the names from its position on; those of a file are
  of the size asked for (at most the file's length), up to a piece that starts with a NUL.\<close>

definition dir_feed :: "sys_env \<Rightarrow> nat \<Rightarrow> mem \<Rightarrow> fs_state \<Rightarrow> nat \<Rightarrow> u32 \<Rightarrow> u8 list list \<Rightarrow> bool" where
  "dir_feed S k m st n pos xss \<longleftrightarrow> (let num = unat (num_dentry m (fs_addr st)) in
    32 \<le> n \<and> unat pos \<le> num \<and> xss = map (\<lambda>i. entry_name m (entry_at st i)) [unat pos..<num] \<and>
    (\<forall>i < num. entry_name m (entry_at st i) \<noteq> [] \<and> length (entry_name m (entry_at st i)) < 32 \<and>
      (\<forall>j \<ge> k. disjoint_regions (local_dentry (envs S j)) 44 (entry_at st i) 44)))"

primrec file_feed :: "mem \<Rightarrow> fs_state \<Rightarrow> u32 \<Rightarrow> nat \<Rightarrow> u32 \<Rightarrow> u8 list list \<Rightarrow> bool" where
  "file_feed m st ino n pos [] \<longleftrightarrow> file_readable m st ino pos \<and> 0 < min (get_length ino m st) (of_nat n) \<and>
    file_byte m st (inode_addr st + ino * 4096) (unat pos) = 0"
| "file_feed m st ino n pos (xs # xss) \<longleftrightarrow> file_readable m st ino pos \<and>
    xs = file_bytes m st ino pos (unat (min (get_length ino m st) (of_nat n))) \<and> xs \<noteq> [] \<and> hd xs \<noteq> 0 \<and>
    file_feed m st ino n (pos + min (get_length ino m st) (of_nat n)) xss"

definition fd_feed :: "sys_env \<Rightarrow> nat \<Rightarrow> mem \<Rightarrow> fs_state \<Rightarrow> FD \<Rightarrow> nat \<Rightarrow> u8 list list \<Rightarrow> bool" where
  "fd_feed S k m st f n xss \<longleftrightarrow> flags f \<noteq> 0 \<and>
    (operations f = Some directory_dev \<and> dir_feed S k m st n (position f) xss \<or>
     operations f = Some file_dev \<and> file_feed m st (fd_inode f) n (position f) xss)"

fun kernel_feeds :: "sys_env \<Rightarrow> u32 \<Rightarrow> nat \<Rightarrow> u8 list list \<Rightarrow> kernel \<times> nat \<Rightarrow> bool" where
  "kernel_feeds S fd n xss (s, k) \<longleftrightarrow> 2 \<le> unat fd \<and> unat fd \<le> 7 \<and> pcb_addr (get_process_count s) = PCB_ptr s \<and>
    (\<forall>m. same_side S k (view_mem s) m \<longrightarrow> fd_feed S k m (fs s) (get_fd (PCB_ptr s) (unat fd) s) n xss)"

declare kernel_feeds.simps [simp del]

subsection \<open>The laws\<close>

lemma side_mono: "kernel_side S k a \<Longrightarrow> kernel_side S (Suc k) a"
  by (simp add: kernel_side_def)

lemma same_side_refl: "same_side S k m m"
  by (simp add: same_side_def)

lemma same_side_step:
  "same_side S k m m1 \<Longrightarrow> same_side S (Suc k) m1 m2 \<Longrightarrow> same_side S k m m2"
  "same_side S k m m1 \<Longrightarrow> same_side S k m1 m2 \<Longrightarrow> same_side S k m m2"
  using side_mono by (auto simp: same_side_def)

lemma same_side_own: "\<forall>a. \<not> in_window a \<longrightarrow> m' a = m a \<Longrightarrow> same_side S k m m'"
  by (simp add: same_side_def kernel_side_def)

text \<open>What a call keeps when it changes neither the descriptor nor the caller.\<close>

lemma feed_dentry:
  "file_feed m (st\<lparr>dentry_addr := a\<rparr>) ino n pos yss = file_feed m st ino n pos yss"
  "dir_feed S k m (st\<lparr>dentry_addr := a\<rparr>) n pos yss = dir_feed S k m st n pos yss"
  by (induction yss arbitrary: pos) (simp_all add: file_readable_def file_bytes_def file_byte_def get_length_def block_base_def
    blocks_ok_def block_ok_def Let_def dir_feed_def entry_at_def)

lemma fd_feed_later:
  assumes "fd_feed S k m st f n xss" "st' = st\<lparr>dentry_addr := a\<rparr> \<or> st' = st" "k' = k \<or> k' = Suc k"
  shows "fd_feed S k' m st' f n xss"
proof -
  have "dir_feed S (Suc k) m st n pos xss" if "dir_feed S k m st n pos xss" for pos
    using that by (auto simp: dir_feed_def Let_def)
  then show ?thesis using assms by (auto simp: fd_feed_def feed_dentry)
qed

lemma feeds_kept:
  assumes "kernel_feeds S fd n xss (s, k)" "same_side S k (view_mem s) (view_mem s')" "fs s' = (fs s)\<lparr>dentry_addr := a\<rparr> \<or> fs s' = fs s"
    "PCB_ptr s' = PCB_ptr s" "get_process_count s' = get_process_count s"
    "get_fd (PCB_ptr s) (unat fd) s' = get_fd (PCB_ptr s) (unat fd) s" "k' = k \<or> k' = Suc k"
  shows "kernel_feeds S fd n xss (s', k')"
proof -
  let ?f = "get_fd (PCB_ptr s) (unat fd) s"
  have "fd_feed S k' m (fs s') ?f n xss" if m: "same_side S k' (view_mem s') m" for m
  proof -
    have "same_side S k (view_mem s) m" using m assms(2,7) same_side_step by blast
    then have "fd_feed S k m (fs s) ?f n xss" using assms(1) by (simp add: kernel_feeds.simps)
    then show ?thesis using assms(3,7) fd_feed_later by blast
  qed
  then show ?thesis using assms(1,4,5,6) by (simp add: kernel_feeds.simps)
qed

lemma view_console: "pages c = pages (con (keyb s)) \<Longrightarrow> view_mem (set_console c s) = view_mem s"
  by (simp add: view_mem_def set_console_def window_page_def cong: if_cong)

lemma show_chars: "t \<in> {0, 1, 2} \<Longrightarrow> fold show_char xs (t, f) = (t, f(t := fold vchar xs (f t)))"
  by (induction xs arbitrary: f) simp_all

lemma std_tables:
  assumes "fds_ok s"
  shows "operations (get_fd (PCB_ptr s) 0 s) = Some stdinTable" "operations (get_fd (PCB_ptr s) 1 s) = Some stdoutTable"
    "flags (get_fd (PCB_ptr s) 0 s) = 1" "flags (get_fd (PCB_ptr s) 1 s) = 1"
proof -
  have "fd_ok 0 (get_fd (PCB_ptr s) 0 s)" "fd_ok 1 (get_fd (PCB_ptr s) 1 s)" using assms by (simp_all add: fds_ok_def)
  then show "operations (get_fd (PCB_ptr s) 0 s) = Some stdinTable" "operations (get_fd (PCB_ptr s) 1 s) = Some stdoutTable"
    "flags (get_fd (PCB_ptr s) 0 s) = 1" "flags (get_fd (PCB_ptr s) 1 s) = 1" by (simp_all add: fd_ok_def)
qed

lemma kernel_write:
  assumes "kernel_ok S (s, k)" "load_bytes (view_mem s) a (length xs) = xs" "13 \<notin> set xs" "a \<noteq> 0" "region_in in_window a (length xs)"
    "length xs < 2 ^ 31"
  shows "\<exists>s'. kernel_call S SYS_WRITE 1 a (of_nat (length xs)) (s, k) = Some (of_nat (length xs), s', Suc k) \<and> kernel_ok S (s', Suc k) \<and>
    kernel_display (s', Suc k) = fold show_char (map printable xs) (kernel_display (s, k)) \<and>
    view_mem s' = store_bytes (view_mem s) a (map printable xs) \<and>
    (\<forall>fd n xss. kernel_feeds S fd n xss (s, k) \<longrightarrow> kernel_feeds S fd n xss (s', Suc k))"
proof -
  let ?c = "con (keyb s)" and ?m = "store_bytes (view_mem s) a (map printable xs)"
  have ok: "fds_ok s" "mapped ?c" "in_range (view ?c (active_terminal ?c))" using assms(1) by simp_all
  have n: "sint (of_nat (length xs) :: u32) = int (length xs)" "nat (int (length xs)) = length xs" using assms(6) sint_small by simp_all
  obtain c' where w: "terminal_write (view_mem s) 1 a (int (length xs)) ?c = Some (int (length xs), ?m, c')"
    "view c' (active_terminal ?c) = fold vchar (map printable xs) (view ?c (active_terminal ?c))"
    "in_range (view c' (active_terminal ?c))" "mapped c'" "\<forall>t \<in> {0, 1, 2}. t \<noteq> active_terminal ?c \<longrightarrow> view c' t = view ?c t"
    using terminal_write_shows [OF ok(2,3) assms(4), of "int (length xs)" "view_mem s" 1] assms(2,3,6) by auto
  have same: "same_console ?c c'" using terminal_write_same [OF w(1)] .
  let ?s = "set_console c' (put_mem ?m s)"
  have "c_write (envs S k) 1 a (int (length xs)) s = Some (int (length xs), ?s)"
    using std_tables [OF ok(1)] assms(4) w(1) by (simp add: c_write_def)
  then have call: "kernel_call S SYS_WRITE 1 a (of_nat (length xs)) (s, k) = Some (of_nat (length xs), ?s, Suc k)"
    using n(1) by (simp add: kernel_calls(2))
  have mem: "view_mem ?s = ?m"
    using same view_console [of c' "put_mem ?m s"] by (simp add: same_console_def running_memory.get_put)
  have out: "?m x = view_mem s x" if "\<not> in_window x" for x
  proof -
    have "\<not> in_region a (length xs) x" using assms(5) that unfolding region_in_def by blast
    then show ?thesis using assms(6) by (simp add: store_bytes_outside)
  qed
  have "fds_ok ?s" using ok(1) fds_ok_pcbs [of ?s s] by simp
  moreover obtain z where z: "kernel_side S k z" "view_mem s z = 0" using assms(1) by auto
  then have "kernel_side S (Suc k) z" "?m z = 0" using side_mono out by (auto simp: kernel_side_def)
  ultimately have "kernel_ok S (?s, Suc k)"
    using assms(1) w(3,4) same mem by (auto simp: same_console_def)
  moreover have "screens c' = fold show_char (map printable xs) (screens ?c)"
  proof -
    have "active_terminal ?c \<in> {0, 1, 2}" using ok(2) by (simp add: mapped_def)
    then show ?thesis using w(2,5) same by (simp only: screens_def show_chars) (auto simp: same_console_def fun_eq_iff)
  qed
  moreover have "kernel_feeds S fd n xss (?s, Suc k)" if "kernel_feeds S fd n xss (s, k)" for fd n xss
    using same out by (intro feeds_kept [OF that]) (auto simp: mem get_process_count_def active_term_def get_active_term_def
      get_fd_def same_console_def intro!: same_side_own)
  ultimately show ?thesis using call mem by (intro exI [of _ ?s]) simp
qed

text \<open>What a read changes: the buffer, the kernel's local structure, the descriptor's position.\<close>

definition read_effect :: "sys_env \<Rightarrow> nat \<Rightarrow> nat \<Rightarrow> u32 \<Rightarrow> nat \<Rightarrow> u32 \<Rightarrow> kernel \<Rightarrow> kernel \<Rightarrow> bool" where
  "read_effect S k i buf n pos s s' \<longleftrightarrow> keyb s' = keyb s \<and> PCB_ptr s' = PCB_ptr s \<and> term_arr s' = term_arr s \<and>
    (\<exists>a. fs s' = (fs s)\<lparr>dentry_addr := a\<rparr> \<or> fs s' = fs s) \<and>
    (\<forall>j. get_fd (PCB_ptr s) j s' = (if j = i then (get_fd (PCB_ptr s) i s)\<lparr>position := pos\<rparr> else get_fd (PCB_ptr s) j s)) \<and>
    same_side S k (view_mem s) (view_mem s') \<and> (\<forall>a. in_window a \<longrightarrow> \<not> in_region buf n a \<longrightarrow> view_mem s' a = view_mem s a)"

lemma read_effect_law:
  assumes "read_effect S k (unat fd) buf n pos s s'" "kernel_ok S (s, k)" "fds_ok s'" "kernel_feeds S fd n yss (s, k)"
    "\<And>m. same_side S k (view_mem s) m \<Longrightarrow> fd_feed S k m (fs s) ((get_fd (PCB_ptr s) (unat fd) s)\<lparr>position := pos\<rparr>) n xss"
  shows "kernel_ok S (s', Suc k)" "kernel_display (s', Suc k) = kernel_display (s, k)" "kernel_feeds S fd n xss (s', Suc k)"
    "\<forall>a. in_window a \<longrightarrow> \<not> in_region buf n a \<longrightarrow> view_mem s' a = view_mem s a"
    "\<forall>fd' j zss. fd' \<noteq> fd \<longrightarrow> kernel_feeds S fd' j zss (s, k) \<longrightarrow> kernel_feeds S fd' j zss (s', Suc k)"
proof -
  note e = assms(1) [unfolded read_effect_def]
  have side: "same_side S k (view_mem s) (view_mem s')" using e by blast
  obtain z where "kernel_side S k z" "view_mem s z = 0" using assms(2) by auto
  then have "kernel_side S (Suc k) z" "view_mem s' z = 0" using side side_mono by (auto simp: same_side_def)
  then show "kernel_ok S (s', Suc k)" using assms(2,3) e by auto
  show "kernel_display (s', Suc k) = kernel_display (s, k)" using e by simp
  show "\<forall>a. in_window a \<longrightarrow> \<not> in_region buf n a \<longrightarrow> view_mem s' a = view_mem s a" using e by blast
  obtain a where a: "fs s' = (fs s)\<lparr>dentry_addr := a\<rparr> \<or> fs s' = fs s" using e by blast
  have count: "get_process_count s' = get_process_count s" using e by (simp add: get_process_count_def active_term_def)
  have "fd_feed S (Suc k) m (fs s') (get_fd (PCB_ptr s') (unat fd) s') n xss" if "same_side S (Suc k) (view_mem s') m" for m
  proof -
    have "same_side S k (view_mem s) m" using side that same_side_step by blast
    then have "fd_feed S k m (fs s) (get_fd (PCB_ptr s') (unat fd) s') n xss" using assms(5) e by simp
    then show ?thesis using fd_feed_later a by blast
  qed
  then show "kernel_feeds S fd n xss (s', Suc k)" using assms(4) e count by (simp add: kernel_feeds.simps)
  show "\<forall>fd' j zss. fd' \<noteq> fd \<longrightarrow> kernel_feeds S fd' j zss (s, k) \<longrightarrow> kernel_feeds S fd' j zss (s', Suc k)"
    using a count e side by (auto intro!: feeds_kept [of S _ _ _ s k s' a "Suc k"] dest: unsigned_word_eqI)
qed

lemma window_disjoint: "region_in (\<lambda>a. \<not> in_window a) d i \<Longrightarrow> region_in in_window b j \<Longrightarrow> disjoint_regions d i b j"
  by (auto simp: region_in_def disjoint_regions_def)

lemma same_side_buffer:
  assumes "\<forall>a. \<not> in_region (local_dentry (envs S k)) 44 a \<longrightarrow> \<not> in_region buf n a \<longrightarrow> m' a = m a" "region_in in_window buf n"
  shows "same_side S k m m'"
  using assms by (auto simp: same_side_def kernel_side_def region_in_def)

lemma read_dir_effect:
  assumes "kernel_ok S (s, k)" "kernel_feeds S fd n (xs # xss) (s, k)" "f = get_fd (PCB_ptr s) (i) s" "operations f = Some directory_dev"
    "region_in in_window buf n" "buf \<noteq> 0" "n < 2 ^ 31" "unat fd = i"
  shows "\<exists>s'. c_read (envs S k) (int (i)) buf (int n) s = Some (int (length xs), s') \<and> xs \<noteq> [] \<and> length xs \<le> n \<and>
    read_effect S k (i) buf n (position f + 1) s s' \<and> load_bytes (view_mem s') buf (length xs) = xs \<and>
    (\<forall>m. same_side S k (view_mem s) m \<longrightarrow> fd_feed S k m (fs s) (f\<lparr>position := position f + 1\<rparr>) n xss)"
proof -
  let ?p = "PCB_ptr s" and ?num = "\<lambda>m. unat (num_dentry m (fs_addr (fs s)))" and ?d = "local_dentry (envs S k)"
  have fd: "2 \<le> i" "i \<le> 7" "pcb_addr (get_process_count s) = ?p"
    and feed: "\<And>m. same_side S k (view_mem s) m \<Longrightarrow> dir_feed S k m (fs s) n (position f) (xs # xss) \<and> flags f \<noteq> 0"
    using assms by (auto simp: kernel_feeds.simps fd_feed_def)
  note now = feed [OF same_side_refl, unfolded dir_feed_def Let_def]
  let ?e = "entry_at (fs s) (unat (position f))"
  have pos: "unat (position f) < ?num (view_mem s)" using now by (cases "unat (position f) < ?num (view_mem s)") auto
  then have upt: "[unat (position f)..<?num (view_mem s)] = unat (position f) # [Suc (unat (position f))..<?num (view_mem s)]"
    by (rule upt_conv_Cons)
  have xs: "xs = entry_name (view_mem s) ?e" using now unfolding upt by simp
  have e: "xs \<noteq> []" "length xs < 32" "32 \<le> n" "disjoint_regions ?d 44 ?e 44" using now pos xs by auto
  have k: "length xs = min (nat (int n)) (length xs)" using e by simp
  have d: "region_in (\<lambda>a. \<not> in_window a) ?d 44" using assms(1) by simp
  have buf: "region_in in_window buf (length xs)" using region_in_mono [OF assms(5)] e by simp
  obtain m where m: "direct_read (envs S k) (int (i)) buf (int n) s = Some (int (length xs),
      set_fd ?p (i) (f\<lparr>position := position f + 1\<rparr>) (put_mem m (s\<lparr>fs := (fs s)\<lparr>dentry_addr := ?e\<rparr>\<rparr>)))"
    "load_bytes m buf (length xs) = xs" "\<forall>a. \<not> in_region ?d 44 a \<longrightarrow> \<not> in_region buf (length xs) a \<longrightarrow> m a = view_mem s a"
    using direct_read_lists [of ?p s f "int (i)" ?d "envs S k" ?e xs "int n" "length xs" buf] fd(3) assms(3) pos xs e k window_disjoint [OF d buf]
    by (auto simp: word_less_nat_alt)
  let ?s = "set_fd ?p (i) (f\<lparr>position := position f + 1\<rparr>) (put_mem m (s\<lparr>fs := (fs s)\<lparr>dentry_addr := ?e\<rparr>\<rparr>))"
  have mem: "view_mem ?s = m" by (simp add: running_memory.get_put)
  have "in_region buf n a" if "in_region buf (length xs) a" for a using that e by (simp add: in_region_def)
  then have "m a = view_mem s a" if "in_window a" "\<not> in_region buf n a" for a
    using that m(3) d by (auto simp: region_in_def)
  then have "read_effect S k (i) buf n (position f + 1) s ?s"
    using same_side_buffer [OF m(3) buf] assms(3) by (auto simp: read_effect_def running_memory.get_put get_fd_def pcbs_set_fd)
  moreover have "c_read (envs S k) (int (i)) buf (int n) s = Some (int (length xs), ?s)"
    using fd(1,2) assms(3,4,6) now m(1) by (simp add: c_read_def)
  moreover have "fd_feed S k m' (fs s) (f\<lparr>position := position f + 1\<rparr>) n xss" if "same_side S k (view_mem s) m'" for m'
  proof -
    note later = feed [OF that, unfolded dir_feed_def Let_def]
    have lt: "unat (position f) < ?num m'" using later by (cases "unat (position f) < ?num m'") auto
    then have "unat (position f + 1) = Suc (unat (position f))"
      using unat_plus_one32 [of "position f"] unat32_less [of "num_dentry m' (fs_addr (fs s))"] by simp
    then show ?thesis using later assms(4) lt upt_conv_Cons [OF lt] by (simp add: fd_feed_def dir_feed_def Let_def)
  qed
  ultimately show ?thesis using e m(2) mem by auto
qed

lemma file_call:
  assumes "kernel_ok S (s, k)" "kernel_feeds S fd n xss (s, k)" "f = get_fd (PCB_ptr s) (i) s" "operations f = Some file_dev"
    "buf \<noteq> 0" "unat fd = i"
  shows "c_read (envs S k) (int (i)) buf (int n) s = file_read (int (i)) buf (int n) s"
    "\<And>m. same_side S k (view_mem s) m \<Longrightarrow> file_feed m (fs s) (fd_inode f) n (position f) xss"
    "flags f \<noteq> 0" "pcb_addr (get_process_count s) = PCB_ptr s"
proof -
  have fd: "2 \<le> i" "i \<le> 7" "pcb_addr (get_process_count s) = PCB_ptr s"
    and feed: "\<And>m. same_side S k (view_mem s) m \<Longrightarrow> file_feed m (fs s) (fd_inode f) n (position f) xss \<and> flags f \<noteq> 0"
    using assms by (auto simp: kernel_feeds.simps fd_feed_def)
  then show "\<And>m. same_side S k (view_mem s) m \<Longrightarrow> file_feed m (fs s) (fd_inode f) n (position f) xss" "flags f \<noteq> 0"
    "pcb_addr (get_process_count s) = PCB_ptr s" using same_side_refl by blast+
  then show "c_read (envs S k) (int (i)) buf (int n) s = file_read (int (i)) buf (int n) s"
    using fd assms(3-5) by (simp add: c_read_def)
qed

lemma min_length: "n < 2 ^ 31 \<Longrightarrow> unat (min L (of_nat n :: u32)) \<le> n \<and> sint (min L (of_nat n :: u32)) = int (unat (min L (of_nat n)))"
proof -
  assume n: "n < 2 ^ 31"
  then have "unat (min L (of_nat n)) \<le> n" by (auto simp: min_def word_le_nat_alt)
  then show ?thesis using n sint_unat_less [of "min L (of_nat n)"] by simp
qed

lemma read_file_effect:
  assumes "kernel_ok S (s, k)" "kernel_feeds S fd n (xs # xss) (s, k)" "f = get_fd (PCB_ptr s) (i) s" "operations f = Some file_dev"
    "region_in in_window buf n" "buf \<noteq> 0" "n < 2 ^ 31" "unat fd = i"
  shows "\<exists>s' pos. c_read (envs S k) (int (i)) buf (int n) s = Some (int (length xs), s') \<and> xs \<noteq> [] \<and> length xs \<le> n \<and>
    read_effect S k (i) buf n pos s s' \<and> load_bytes (view_mem s') buf (length xs) = xs \<and>
    (\<forall>m. same_side S k (view_mem s) m \<longrightarrow> fd_feed S k m (fs s) (f\<lparr>position := pos\<rparr>) n xss)"
proof -
  let ?L = "\<lambda>m. min (get_length (fd_inode f) m (fs s)) (of_nat n)"
  note call = file_call [OF assms(1-4,6,8)]
  note now = call(2) [OF same_side_refl, simplified]
  have len: "length xs = unat (?L (view_mem s))" using now by (simp add: file_bytes_def)
  have le: "length xs \<le> n" using min_length [OF assms(7)] len by simp
  have buf: "region_in in_window buf (length xs)" using region_in_mono [OF assms(5) le] .
  obtain z where z: "kernel_side S k z" "view_mem s z = 0" using assms(1) by auto
  then have nz: "\<not> in_region buf (unat (?L (view_mem s))) z" using buf len by (auto simp: kernel_side_def region_in_def)
  let ?m = "store_bytes (view_mem s) buf xs"
  let ?s = "set_fd (PCB_ptr s) (i) (f\<lparr>position := position f + ?L (view_mem s)\<rparr>) (put_mem ?m s)"
  have run: "file_read (int (i)) buf (int n) s = Some (sint (?L (view_mem s)), ?s)"
    using file_read_delivers [of "PCB_ptr s" s f "int (i)" "?L (view_mem s)" "int n" xs z buf] call(4) assms(3) now z(2) nz by auto
  have out: "\<forall>a. \<not> in_region (local_dentry (envs S k)) 44 a \<longrightarrow> \<not> in_region buf (length xs) a \<longrightarrow> ?m a = view_mem s a"
    using le assms(7) by (simp add: store_bytes_outside)
  have "\<not> in_region buf (length xs) a" if "\<not> in_region buf n a" for a using that le by (simp add: in_region_def)
  then have "read_effect S k (i) buf n (position f + ?L (view_mem s)) s ?s"
    using same_side_buffer [OF out buf] assms(3) le assms(7) by (auto simp: read_effect_def running_memory.get_put get_fd_def pcbs_set_fd store_bytes_outside)
  moreover have "fd_feed S k m (fs s) (f\<lparr>position := position f + ?L (view_mem s)\<rparr>) n xss" if "same_side S k (view_mem s) m" for m
  proof -
    note later = call(2) [OF that, simplified]
    have "unat (?L m) = unat (?L (view_mem s))" using later len by (simp add: file_bytes_def)
    then have "?L m = ?L (view_mem s)" by (rule unsigned_word_eqI)
    then show ?thesis using later call(3) assms(4) by (simp add: fd_feed_def)
  qed
  ultimately show ?thesis
    using call(1) run len le now min_length [OF assms(7), of "get_length (fd_inode f) (view_mem s) (fs s)"] assms(7)
    by (intro exI [of _ ?s] exI) (auto simp: running_memory.get_put)
qed

text \<open>Reads that find nothing more.\<close>

lemma direct_read_end:
  assumes "pcb_addr (get_process_count s) = p" "f = get_fd p i s" "\<not> position f < num_dentry (view_mem s) (fs_addr (fs s))"
  shows "direct_read env (int i) buf nbytes s = Some (0, s)"
proof -
  have "read_dentry_by_index (position f) (local_dentry env) (view_mem s) (fs s) = Some (-1, view_mem s, fs s)"
    using assms(3) by (simp add: read_dentry_by_index_def)
  then show ?thesis using assms(1,2) by (simp add: direct_read_def Let_def running_memory.put_get)
qed

lemma file_read_end:
  assumes "pcb_addr (get_process_count s) = p" "f = get_fd p i s" "file_feed (view_mem s) (fs s) (fd_inode f) n (position f) []"
  shows "\<exists>bs. length bs = unat (min (get_length (fd_inode f) (view_mem s) (fs s)) (of_nat n)) \<and>
    file_read (int i) buf (int n) s = Some (0, put_mem (store_bytes (view_mem s) buf bs) s)"
proof -
  let ?L = "min (get_length (fd_inode f) (view_mem s) (fs s)) (of_nat n)"
  let ?bs = "file_bytes (view_mem s) (fs s) (fd_inode f) (position f) (unat ?L)"
  let ?m = "store_bytes (view_mem s) buf ?bs"
  have L: "0 < unat ?L" "file_readable (view_mem s) (fs s) (fd_inode f) (position f)"
    using assms(3) by (simp_all add: unat_gt_0 word_neq_0_conv)
  have run: "read_data (fd_inode f) (position f) buf (of_nat n) (view_mem s) (fs s) = (sint ?L, ?m)"
    using L(2) by (simp add: read_data_outcome Let_def)
  have len: "length ?bs = unat ?L" by (simp add: file_bytes_def)
  have "?bs ! 0 = 0" using assms(3) L(1) by (simp add: file_bytes_def)
  then have "?m buf = 0" using L(1) len by (simp add: store_bytes_apply)
  then have "strlen ?m buf = Some 0" using strlen_cstr [of ?m buf "[]"] by (simp add: cstr_def)
  then show ?thesis using run assms(1,2) len by (intro exI [of _ ?bs]) (simp add: file_read_def Let_def)
qed

lemma read_end_effect:
  assumes "kernel_ok S (s, k)" "kernel_feeds S fd n [] (s, k)" "f = get_fd (PCB_ptr s) i s"
    "region_in in_window buf n" "buf \<noteq> 0" "n < 2 ^ 31" "unat fd = i"
  shows "\<exists>s'. c_read (envs S k) (int i) buf (int n) s = Some (0, s') \<and> read_effect S k i buf n (position f) s s' \<and> fds_ok s'"
proof -
  have fd: "2 \<le> i" "i \<le> 7" "pcb_addr (get_process_count s) = PCB_ptr s" "fd_feed S k (view_mem s) (fs s) f n []"
    using assms same_side_refl by (auto simp: kernel_feeds.simps)
  have same: "read_effect S k i buf n (position f) s s" using assms(3) same_side_refl by (auto simp: read_effect_def)
  consider "operations f = Some directory_dev" "dir_feed S k (view_mem s) (fs s) n (position f) []" |
    "operations f = Some file_dev" "file_feed (view_mem s) (fs s) (fd_inode f) n (position f) []"
    using fd(4) by (auto simp: fd_feed_def)
  then show ?thesis
  proof cases
    case 1
    then have "\<not> position f < num_dentry (view_mem s) (fs_addr (fs s))" by (auto simp: dir_feed_def Let_def word_less_nat_alt)
    then have "c_read (envs S k) (int i) buf (int n) s = Some (0, s)"
      using 1(1) fd assms(3,5) direct_read_end [OF fd(3) assms(3)] by (auto simp: c_read_def fd_feed_def)
    then show ?thesis using same assms(1) by auto
  next
    case 2
    obtain bs where bs: "length bs = unat (min (get_length (fd_inode f) (view_mem s) (fs s)) (of_nat n))"
      "file_read (int i) buf (int n) s = Some (0, put_mem (store_bytes (view_mem s) buf bs) s)"
      using file_read_end [OF fd(3) assms(3) 2(2)] by blast
    let ?m = "store_bytes (view_mem s) buf bs"
    have le: "length bs \<le> n" using min_length [OF assms(6)] bs(1) by simp
    have buf: "region_in in_window buf (length bs)" using region_in_mono [OF assms(4) le] .
    have out: "\<forall>a. \<not> in_region (local_dentry (envs S k)) 44 a \<longrightarrow> \<not> in_region buf (length bs) a \<longrightarrow> ?m a = view_mem s a"
      using le assms(6) by (simp add: store_bytes_outside)
    have "\<not> in_region buf (length bs) a" if "\<not> in_region buf n a" for a using that le by (simp add: in_region_def)
    then have "read_effect S k i buf n (position f) s (put_mem ?m s)"
      using same_side_buffer [OF out buf] assms(3,6) le by (auto simp: read_effect_def running_memory.get_put store_bytes_outside)
    moreover have "c_read (envs S k) (int i) buf (int n) s = Some (0, put_mem ?m s)"
      using 2(1) fd assms(3,5) bs(2) by (auto simp: c_read_def fd_feed_def)
    moreover have "fds_ok (put_mem ?m s)" using assms(1) fds_ok_pcbs [of "put_mem ?m s" s] by simp
    ultimately show ?thesis by blast
  qed
qed

lemma read_call:
  assumes "unat fd = i" "i \<le> 7" "n < 2 ^ 31" "c_read (envs S k) (int i) buf (int n) s = Some (v, s')"
  shows "kernel_call S SYS_READ fd buf (of_nat n) (s, k) = Some (of_int v, s', Suc k)"
proof -
  have "sint fd = int i" using sint_unat_less [of fd] assms(1,2) by simp
  then show ?thesis using assms(3,4) sint_small by (simp add: kernel_calls)
qed

lemma kernel_read_chunk:
  assumes "kernel_ok S (s, k)" "kernel_feeds S fd n (xs # xss) (s, k)" "region_in in_window buf n" "buf \<noteq> 0" "n < 2 ^ 31"
  shows "xs \<noteq> [] \<and> length xs \<le> n \<and> (\<exists>s'. kernel_call S SYS_READ fd buf (of_nat n) (s, k) = Some (of_nat (length xs), s', Suc k) \<and>
    kernel_ok S (s', Suc k) \<and> kernel_display (s', Suc k) = kernel_display (s, k) \<and> kernel_feeds S fd n xss (s', Suc k) \<and>
    load_bytes (view_mem s') buf (length xs) = xs \<and> (\<forall>a. in_window a \<longrightarrow> \<not> in_region buf n a \<longrightarrow> view_mem s' a = view_mem s a) \<and>
    (\<forall>fd' j yss. fd' \<noteq> fd \<longrightarrow> kernel_feeds S fd' j yss (s, k) \<longrightarrow> kernel_feeds S fd' j yss (s', Suc k)))"
proof -
  let ?f = "get_fd (PCB_ptr s) (unat fd) s"
  have "unat fd \<le> 7" "fd_feed S k (view_mem s) (fs s) ?f n (xs # xss)"
    using assms(2) same_side_refl by (auto simp: kernel_feeds.simps)
  moreover obtain s' pos where r: "c_read (envs S k) (int (unat fd)) buf (int n) s = Some (int (length xs), s')" "xs \<noteq> []" "length xs \<le> n"
    "read_effect S k (unat fd) buf n pos s s'" "load_bytes (view_mem s') buf (length xs) = xs"
    "\<forall>m. same_side S k (view_mem s) m \<longrightarrow> fd_feed S k m (fs s) (?f\<lparr>position := pos\<rparr>) n xss"
    using read_dir_effect [OF assms(1,2) refl _ assms(3-5) refl] read_file_effect [OF assms(1,2) refl _ assms(3-5) refl] calculation(2)
    unfolding fd_feed_def by blast
  moreover have "fds_ok s'" using c_read_ok [OF _ r(1)] assms(1) by simp
  note law = read_effect_law [OF r(4) assms(1) this assms(2) r(6) [rule_format]]
  have "kernel_call S SYS_READ fd buf (of_nat n) (s, k) = Some (of_nat (length xs), s', Suc k)"
    using read_call [OF refl _ assms(5) r(1)] calculation(1) by simp
  then show ?thesis using r(2,3,5) law by blast
qed

lemma kernel_read_end:
  assumes "kernel_ok S (s, k)" "kernel_feeds S fd n [] (s, k)" "region_in in_window buf n" "buf \<noteq> 0" "n < 2 ^ 31"
  shows "\<exists>s'. kernel_call S SYS_READ fd buf (of_nat n) (s, k) = Some (0, s', Suc k) \<and>
    kernel_ok S (s', Suc k) \<and> kernel_display (s', Suc k) = kernel_display (s, k) \<and> kernel_feeds S fd n [] (s', Suc k) \<and>
    (\<forall>a. in_window a \<longrightarrow> \<not> in_region buf n a \<longrightarrow> view_mem s' a = view_mem s a) \<and>
    (\<forall>fd' j yss. fd' \<noteq> fd \<longrightarrow> kernel_feeds S fd' j yss (s, k) \<longrightarrow> kernel_feeds S fd' j yss (s', Suc k))"
proof -
  let ?f = "get_fd (PCB_ptr s) (unat fd) s"
  have fd: "unat fd \<le> 7" "\<And>m. same_side S k (view_mem s) m \<Longrightarrow> fd_feed S k m (fs s) ?f n []"
    using assms(2) by (auto simp: kernel_feeds.simps)
  obtain s' where r: "c_read (envs S k) (int (unat fd)) buf (int n) s = Some (0, s')"
    "read_effect S k (unat fd) buf n (position ?f) s s'" "fds_ok s'"
    using read_end_effect [OF assms(1,2) refl assms(3-5) refl] by blast
  have "fd_feed S k m (fs s) (?f\<lparr>position := position ?f\<rparr>) n []" if "same_side S k (view_mem s) m" for m
    using fd(2) [OF that] by simp
  note law = read_effect_law [OF r(2) assms(1) r(3) assms(2) this]
  have "kernel_call S SYS_READ fd buf (of_nat n) (s, k) = Some (0, s', Suc k)"
    using read_call [OF refl fd(1) assms(5) r(1)] by simp
  then show ?thesis using law by blast
qed

lemma kernel_own_store:
  assumes "kernel_ok S (s, k)" "\<forall>a. \<not> in_window a \<longrightarrow> m a = view_mem s a"
  shows "kernel_ok S (put_mem m s, k)" "kernel_feeds S fd n xss (s, k) \<Longrightarrow> kernel_feeds S fd n xss (put_mem m s, k)"
proof -
  have side: "same_side S k (view_mem s) m" using same_side_own [OF assms(2)] .
  obtain z where "kernel_side S k z" "view_mem s z = 0" using assms(1) by auto
  then have "kernel_side S k z" "m z = 0" using side by (auto simp: same_side_def)
  moreover have "fds_ok (put_mem m s)" using assms(1) fds_ok_pcbs [of "put_mem m s" s] by simp
  ultimately show "kernel_ok S (put_mem m s, k)" using assms(1) by (auto simp: running_memory.get_put)
  show "kernel_feeds S fd n xss (put_mem m s, k)" if "kernel_feeds S fd n xss (s, k)"
    using side by (intro feeds_kept [OF that]) (auto simp: running_memory.get_put get_process_count_def active_term_def get_fd_def)
qed

interpretation kernel_user: user_os "kernel_os S" "kernel_ok S" in_window kernel_display show_char "kernel_feeds S" for S
proof unfold_locales
  fix x :: "kernel \<times> nat" and fd n xss xs a buf m m'
  obtain s k where x [simp]: "x = (s, k)" by fastforce
  show "mem_of (kernel_os S) (set_mem (kernel_os S) m x) = m" by (simp add: running_memory.get_put)
  show "set_mem (kernel_os S) (mem_of (kernel_os S) x) x = x" by (simp add: running_memory.put_get)
  show "set_mem (kernel_os S) m (set_mem (kernel_os S) m' x) = set_mem (kernel_os S) m x" by (simp add: running_memory.put_put)
  show "\<not> in_window 0" by (simp add: in_window_def)
  show "kernel_ok S (set_mem (kernel_os S) m x) \<and> kernel_display (set_mem (kernel_os S) m x) = kernel_display x \<and>
      (kernel_feeds S fd n xss x \<longrightarrow> kernel_feeds S fd n xss (set_mem (kernel_os S) m x))"
    if "kernel_ok S x" "\<forall>a. \<not> in_window a \<longrightarrow> m a = mem_of (kernel_os S) x a"
    using that kernel_own_store [of S s k m] by auto
  show "\<exists>s'. call (kernel_os S) SYS_WRITE 1 a (of_nat (length xs)) x = Some (of_nat (length xs), s') \<and> kernel_ok S s' \<and>
      kernel_display s' = fold show_char (map printable xs) (kernel_display x) \<and>
      mem_of (kernel_os S) s' = store_bytes (mem_of (kernel_os S) x) a (map printable xs) \<and>
      (\<forall>fd n xss. kernel_feeds S fd n xss x \<longrightarrow> kernel_feeds S fd n xss s')"
    if "kernel_ok S x" "load_bytes (mem_of (kernel_os S) x) a (length xs) = xs" "13 \<notin> set xs" "a \<noteq> 0" "region_in in_window a (length xs)"
      "length xs < 2 ^ 31"
    using kernel_write [of S s k a xs] that by fastforce
  show "xs \<noteq> [] \<and> length xs \<le> n \<and> (\<exists>s'. call (kernel_os S) SYS_READ fd buf (of_nat n) x = Some (of_nat (length xs), s') \<and>
      kernel_ok S s' \<and> kernel_display s' = kernel_display x \<and> kernel_feeds S fd n xss s' \<and>
      load_bytes (mem_of (kernel_os S) s') buf (length xs) = xs \<and>
      (\<forall>a. in_window a \<longrightarrow> \<not> in_region buf n a \<longrightarrow> mem_of (kernel_os S) s' a = mem_of (kernel_os S) x a) \<and>
      (\<forall>fd' k yss. fd' \<noteq> fd \<longrightarrow> kernel_feeds S fd' k yss x \<longrightarrow> kernel_feeds S fd' k yss s'))"
    if "kernel_ok S x" "kernel_feeds S fd n (xs # xss) x" "region_in in_window buf n" "buf \<noteq> 0" "n < 2 ^ 31"
    using kernel_read_chunk [of S s k fd n xs xss buf] that by fastforce
  show "\<exists>s'. call (kernel_os S) SYS_READ fd buf (of_nat n) x = Some (0, s') \<and> kernel_ok S s' \<and> kernel_display s' = kernel_display x \<and>
      kernel_feeds S fd n [] s' \<and>
      (\<forall>a. in_window a \<longrightarrow> \<not> in_region buf n a \<longrightarrow> mem_of (kernel_os S) s' a = mem_of (kernel_os S) x a) \<and>
      (\<forall>fd' k yss. fd' \<noteq> fd \<longrightarrow> kernel_feeds S fd' k yss x \<longrightarrow> kernel_feeds S fd' k yss s')"
    if "kernel_ok S x" "kernel_feeds S fd n [] x" "region_in in_window buf n" "buf \<noteq> 0" "n < 2 ^ 31"
    using kernel_read_end [of S s k fd n buf] that by fastforce
qed

end
