(* ===== verification/User_Programs.thy ===== *)
theory User_Programs
  imports User_Calls
begin

text \<open>
  The user programs of \<^verbatim>\<open>src/syscalls\<close>, over the record \<open>os\<close> of the calls they make.  The addresses of
  their local arrays are arguments, since the compiler chooses them; string constants lie at
  \<open>lit os\<close>.  A program has no result where it waits for ever or faults.  The locale \<open>user_files\<close> adds
  the laws of \<open>open\<close>, \<open>getargs\<close> and the keyboard to those of \<open>user_os\<close>, and what the programs print is proved
  from the laws.
\<close>

subsection \<open>cat, ls, hello, testprint\<close>

partial_function (option) cat_loop :: "'s os \<Rightarrow> u32 \<Rightarrow> u32 \<Rightarrow> 's \<Rightarrow> (u32 \<times> 's) option" where
  "cat_loop os fd buf s = do {
     (cnt, s) \<leftarrow> ece391_read os fd buf 1024 s;
     if cnt = 0 then Some (0, s)
     else if cnt = -1 then do { s \<leftarrow> puts_lit os ''file read failed\<newline>'' s; Some (3, s) }
     else do {
       (r, s) \<leftarrow> ece391_write os 1 buf cnt s;
       if r = -1 then Some (3, s) else cat_loop os fd buf s
     }
   }"

definition cat_main :: "'s os \<Rightarrow> u32 \<Rightarrow> 's \<Rightarrow> (u32 \<times> 's) option" where
  "cat_main os buf s = do {
     (r, s) \<leftarrow> ece391_getargs os buf 1024 s;
     if r \<noteq> 0 then do { s \<leftarrow> puts_lit os ''could not read arguments\<newline>'' s; Some (3, s) }
     else do {
       (fd, s) \<leftarrow> ece391_open os buf s;
       if fd = -1 then do { s \<leftarrow> puts_lit os ''file not found\<newline>'' s; Some (2, s) }
       else cat_loop os fd buf s
     }
   }"

partial_function (option) ls_loop :: "'s os \<Rightarrow> u32 \<Rightarrow> u32 \<Rightarrow> 's \<Rightarrow> (u32 \<times> 's) option" where
  "ls_loop os fd buf s = do {
     (cnt, s) \<leftarrow> ece391_read os fd buf 32 s;
     if cnt = 0 then Some (0, s)
     else if cnt = -1 then do { s \<leftarrow> puts_lit os ''directory entry read failed\<newline>'' s; Some (3, s) }
     else do {
       let s = store_byte os (buf + cnt) 10 s;
       (r, s) \<leftarrow> ece391_write os 1 buf (cnt + 1) s;
       if r = -1 then Some (3, s) else ls_loop os fd buf s
     }
   }"

definition ls_main :: "'s os \<Rightarrow> u32 \<Rightarrow> 's \<Rightarrow> (u32 \<times> 's) option" where
  "ls_main os buf s = do {
     (fd, s) \<leftarrow> ece391_open os (lit os ''.'') s;
     if fd = -1 then do { s \<leftarrow> puts_lit os ''directory open failed\<newline>'' s; Some (2, s) }
     else ls_loop os fd buf s
   }"

definition hello_main :: "'s os \<Rightarrow> u32 \<Rightarrow> 's \<Rightarrow> (u32 \<times> 's) option" where
  "hello_main os buf s = do {
     s \<leftarrow> puts_lit os ''Hi, what's your name? '' s;
     (cnt, s) \<leftarrow> ece391_read os 0 buf 1023 s;
     if cnt = -1 then do { s \<leftarrow> puts_lit os ''Can't read name from keyboard.\<newline>'' s; Some (3, s) }
     else do {
       let s = store_byte os (buf + cnt) 0 s;
       s \<leftarrow> puts_lit os ''Hello, '' s;
       s \<leftarrow> ece391_fdputs os 1 buf s;
       Some (0, s)
     }
   }"

definition testprint_main :: "'s os \<Rightarrow> 's \<Rightarrow> (u32 \<times> 's) option" where
  "testprint_main os s = do {
     s \<leftarrow> puts_lit os ''Hello, if this ran, the program was correct. Yay!\<newline>'' s;
     Some (0, s)
   }"

subsection \<open>shell\<close>

text \<open>\<open>cnt\<close> is signed; the loop ends when the line is \<open>exit\<close> or the keyboard cannot be read.\<close>

partial_function (option) shell_loop :: "'s os \<Rightarrow> u32 \<Rightarrow> 's \<Rightarrow> (u32 \<times> 's) option" where
  "shell_loop os buf s = do {
     s \<leftarrow> puts_lit os ''391OS> '' s;
     (cnt, s) \<leftarrow> ece391_read os 0 buf 1023 s;
     if cnt = -1 then do { s \<leftarrow> puts_lit os ''read from keyboard failed\<newline>'' s; Some (3, s) }
     else do {
       let cnt = (if sint cnt > 0 \<and> mem_of os s (buf + (cnt - 1)) = 10 then cnt - 1 else cnt);
       let s = store_byte os (buf + cnt) 0 s;
       r \<leftarrow> ece391_strcmp (mem_of os s) buf (lit os ''exit'');
       if r = 0 then Some (0, s)
       else if mem_of os s buf = 0 then shell_loop os buf s
       else do {
         (rval, s) \<leftarrow> ece391_execute os buf s;
         s \<leftarrow> (if rval = -1 then puts_lit os ''no such command\<newline>'' s
              else if rval = 256 then puts_lit os ''program terminated by exception\<newline>'' s
              else if rval \<noteq> 0 then puts_lit os ''program terminated abnormally\<newline>'' s
              else Some s);
         shell_loop os buf s
       }
     }
   }"

definition shell_main :: "'s os \<Rightarrow> u32 \<Rightarrow> 's \<Rightarrow> (u32 \<times> 's) option" where
  "shell_main os buf s = do { s \<leftarrow> puts_lit os ''Starting 391 Shell\<newline>'' s; shell_loop os buf s }"

subsection \<open>counter\<close>

definition counter_print :: "'s os \<Rightarrow> u32 \<Rightarrow> nat \<Rightarrow> 's \<Rightarrow> 's option" where
  "counter_print os buf i s = do {
     m \<leftarrow> ece391_itoa (mem_of os s) (of_nat i + 1) buf 10;
     let s = set_mem os m s;
     s \<leftarrow> ece391_fdputs os 1 buf s;
     puts_lit os ''\<newline>'' s
   }"

definition counter_max :: "u8 \<Rightarrow> u32" where
  "counter_max c = (if c = 48 then 100 else if c = 49 then 10000 else if c = 50 then 100000 else 0)"

definition counter_main :: "'s os \<Rightarrow> u32 \<Rightarrow> 's \<Rightarrow> (u32 \<times> 's) option" where
  "counter_main os buf s = do {
     s \<leftarrow> puts_lit os ''Enter the Test Number: (0): 100, (1): 10000, (2): 100000\<newline>'' s;
     (cnt, s) \<leftarrow> ece391_read os 0 buf 1023 s;
     if cnt = -1 then do { s \<leftarrow> puts_lit os ''Can't read the number from keyboard.\<newline>'' s; Some (3, s) }
     else do {
       let s = store_byte os (buf + cnt) 0 s;
       n \<leftarrow> ece391_strlen (mem_of os s) buf;
       if n > 2 \<or> n = 2 \<and> (mem_of os s buf < 48 \<or> mem_of os s buf > 50) then do {
         s \<leftarrow> puts_lit os ''Wrong Choice!\<newline>'' s;
         Some (0, s)
       } else do {
         s \<leftarrow> fold_opt (counter_print os buf) [0..<unat (counter_max (mem_of os s buf))] s;
         Some (0, s)
       }
     }
   }"

subsection \<open>grep\<close>

text \<open>Indices into the buffer are signed.  \<open>line_end_of\<close> is the loop that looks for the end of a line, and
  \<open>line_matches\<close> the one that looks for the pattern in it; a pattern is an array of (signed) \<open>char\<close>.\<close>

function line_end_of :: "mem \<Rightarrow> u32 \<Rightarrow> int \<Rightarrow> int \<Rightarrow> int" where
  "line_end_of m data last' line_end =
    (if line_end < last' \<and> m (data + of_int line_end) \<noteq> 10 then line_end_of m data last' (line_end + 1) else line_end)"
  by pat_completeness auto
termination
  by (relation "measure (\<lambda>(m, data, last', line_end). nat (last' - line_end))") auto

declare line_end_of.simps [simp del]

partial_function (option) line_matches :: "mem \<Rightarrow> u32 \<Rightarrow> u32 \<Rightarrow> u32 \<Rightarrow> int \<Rightarrow> int \<Rightarrow> bool option" where
  "line_matches m s s_len data line_end check =
    (if check < line_end then
       if sint (m s) = uint (m (data + of_int check)) then do {
         r \<leftarrow> ece391_strncmp m (data + of_int check) s s_len;
         if r = 0 then Some True else line_matches m s s_len data line_end (check + 1)
       } else line_matches m s s_len data line_end (check + 1)
     else Some False)"

definition grep_print :: "'s os \<Rightarrow> u32 \<Rightarrow> u32 \<Rightarrow> 's \<Rightarrow> 's option" where
  "grep_print os fname line st = do {
     st \<leftarrow> ece391_fdputs os 1 fname st;
     st \<leftarrow> puts_lit os '':'' st;
     st \<leftarrow> ece391_fdputs os 1 line st;
     puts_lit os ''\<newline>'' st
   }"

text \<open>The lines of the buffer; the result is the new value of \<open>last\<close>.\<close>

partial_function (option) grep_lines ::
    "'s os \<Rightarrow> u32 \<Rightarrow> u32 \<Rightarrow> u32 \<Rightarrow> u32 \<Rightarrow> u32 \<Rightarrow> int \<Rightarrow> int \<Rightarrow> 's \<Rightarrow> (int \<times> 's) option" where
  "grep_lines os s fname data s_len cnt last' line_start st =
    (let line_end = line_end_of (mem_of os st) data last' line_start in
     if mem_of os st (data + of_int line_end) \<noteq> 10 \<and> 0 \<noteq> cnt \<and> line_start \<noteq> 0 then do {
       let st = store_byte os (data + of_int line_end) 0 st;
       m \<leftarrow> ece391_strcpy (mem_of os st) data (data + of_int line_start);
       Some (last' - line_start, set_mem os m st)
     } else do {
       let st = store_byte os (data + of_int line_end) 0 st;
       found \<leftarrow> line_matches (mem_of os st) s s_len data line_end line_start;
       st \<leftarrow> (if found then grep_print os fname (data + of_int line_start) st else Some st);
       if line_end + 1 \<ge> last' then Some (0, st)
       else grep_lines os s fname data s_len cnt last' (line_end + 1) st
     })"

partial_function (option) grep_file ::
    "'s os \<Rightarrow> u32 \<Rightarrow> u32 \<Rightarrow> u32 \<Rightarrow> u32 \<Rightarrow> u32 \<Rightarrow> int \<Rightarrow> 's \<Rightarrow> (u32 \<times> 's) option" where
  "grep_file os s fname data s_len fd last' st = do {
     (cnt, st) \<leftarrow> ece391_read os fd (data + of_int last') (1024 - of_int last') st;
     if cnt = -1 then do { st \<leftarrow> puts_lit os ''file read failed\<newline>'' st; Some (-1, st) }
     else do {
       (last', st) \<leftarrow> grep_lines os s fname data s_len cnt (last' + sint cnt) 0 st;
       if cnt = 0 then do {
         (r, st) \<leftarrow> ece391_close os fd st;
         if r = -1 then do { st \<leftarrow> puts_lit os ''file close failed\<newline>'' st; Some (-1, st) } else Some (0, st)
       } else grep_file os s fname data s_len fd last' st
     }
   }"

definition do_one_file :: "'s os \<Rightarrow> u32 \<Rightarrow> u32 \<Rightarrow> u32 \<Rightarrow> 's \<Rightarrow> (u32 \<times> 's) option" where
  "do_one_file os data s fname st = do {
     s_len \<leftarrow> ece391_strlen (mem_of os st) s;
     (fd, st) \<leftarrow> ece391_open os fname st;
     if fd = -1 then do { st \<leftarrow> puts_lit os ''file open failed\<newline>'' st; Some (-1, st) }
     else grep_file os s fname data s_len fd 0 st
   }"

partial_function (option) grep_loop :: "'s os \<Rightarrow> u32 \<Rightarrow> u32 \<Rightarrow> u32 \<Rightarrow> u32 \<Rightarrow> 's \<Rightarrow> (u32 \<times> 's) option" where
  "grep_loop os data search buf fd st = do {
     (cnt, st) \<leftarrow> ece391_read os fd buf 32 st;
     if cnt = 0 then Some (0, st)
     else if cnt = -1 then do { st \<leftarrow> puts_lit os ''directory entry read failed\<newline>'' st; Some (3, st) }
     else if mem_of os st buf = 46 then grep_loop os data search buf fd st
     else do {
       let st = store_byte os (buf + cnt) 0 st;
       (r, st) \<leftarrow> do_one_file os data search buf st;
       if r \<noteq> 0 then Some (3, st) else grep_loop os data search buf fd st
     }
   }"

definition grep_main :: "'s os \<Rightarrow> u32 \<Rightarrow> u32 \<Rightarrow> u32 \<Rightarrow> 's \<Rightarrow> (u32 \<times> 's) option" where
  "grep_main os data search buf st = do {
     (r, st) \<leftarrow> ece391_getargs os search 1024 st;
     if r \<noteq> 0 then do { st \<leftarrow> puts_lit os ''could not read argument\<newline>'' st; Some (3, st) }
     else do {
       (fd, st) \<leftarrow> ece391_open os (lit os ''.'') st;
       if fd = -1 then do { st \<leftarrow> puts_lit os ''directory open failed\<newline>'' st; Some (2, st) }
       else grep_loop os data search buf fd st
     }
   }"

subsection \<open>sigtest\<close>

text \<open>\<open>badbuf\<close> and \<open>charbuf\<close> are the addresses of the two static variables; page 0 is not mapped, so that
  the store through a null \<open>badbuf\<close> faults.  \<open>&signum + 7\<close> is 28 bytes above the handler's parameter.\<close>

definition put_signum :: "'s os \<Rightarrow> u32 \<Rightarrow> 's \<Rightarrow> 's option" where
  "put_signum os signum s =
    (if signum = 0 then puts_lit os ''0\<newline>'' s
     else if signum = 1 then puts_lit os ''1\<newline>'' s
     else if signum = 2 then puts_lit os ''2\<newline>'' s
     else if signum = 3 then puts_lit os ''3\<newline>'' s
     else puts_lit os ''invalid\<newline>'' s)"

definition segfault_sighandler :: "'s os \<Rightarrow> u32 \<Rightarrow> u32 \<Rightarrow> u32 \<Rightarrow> u32 \<Rightarrow> 's \<Rightarrow> 's option" where
  "segfault_sighandler os badbuf charbuf buf signum_at s = do {
     s \<leftarrow> puts_lit os ''Segfault signal handler called, signum: '' s;
     s \<leftarrow> put_signum os (load32 (mem_of os s) signum_at) s;
     s \<leftarrow> puts_lit os ''Press enter to continue...\<newline>'' s;
     (_, s) \<leftarrow> ece391_read os 0 buf 1 s;
     let s = set_mem os (store32 (mem_of os s) badbuf charbuf) s;
     let s = set_mem os (store32 (mem_of os s) (signum_at + 28) charbuf) s;
     puts_lit os ''Signal handler returning\<newline>'' s
   }"

definition alarm_sighandler :: "'s os \<Rightarrow> u32 \<Rightarrow> 's \<Rightarrow> 's option" where
  "alarm_sighandler os signum_at s = do {
     s \<leftarrow> puts_lit os ''Alarm signal handler called, signum: '' s;
     put_signum os (load32 (mem_of os s) signum_at) s
   }"

definition sigtest_main :: "'s os \<Rightarrow> u32 \<Rightarrow> u32 \<Rightarrow> u32 \<Rightarrow> u32 \<Rightarrow> u32 \<Rightarrow> 's \<Rightarrow> (u32 \<times> 's) option" where
  "sigtest_main os badbuf charbuf seg_handler alarm_handler buf s = do {
     (r, s) \<leftarrow> ece391_getargs os buf 1024 s;
     if r \<noteq> 0 then do { s \<leftarrow> puts_lit os ''could not read argument\<newline>'' s; Some (3, s) }
     else do {
       s \<leftarrow> (if mem_of os s buf = 49 then do {
           s \<leftarrow> puts_lit os ''Installing signal handlers\<newline>'' s;
           (_, s) \<leftarrow> ece391_set_handler os 1 seg_handler s;
           (_, s) \<leftarrow> ece391_set_handler os 3 alarm_handler s;
           Some s
         } else Some s);
       s \<leftarrow> puts_lit os ''Hi, what's your name? '' s;
       (cnt, s) \<leftarrow> ece391_read os 0 buf 1023 s;
       if cnt = -1 then do { s \<leftarrow> puts_lit os ''Can't read name from keyboard.\<newline>'' s; Some (3, s) }
       else if load32 (mem_of os s) badbuf = 0 then None
       else do {
         let s = store_byte os (load32 (mem_of os s) badbuf) 1 s;
         let s = store_byte os (buf + cnt) 0 s;
         s \<leftarrow> puts_lit os ''Hello, '' s;
         s \<leftarrow> ece391_fdputs os 1 buf s;
         s \<leftarrow> (if mem_of os s charbuf = 1 then puts_lit os ''success\<newline>'' s else puts_lit os ''failure\<newline>'' s);
         Some (0, s)
       }
     }
   }"

subsection \<open>pingpong\<close>

text \<open>The bounds of the loops, with the macros expanded as they are written: \<open>LOOPMAX\<close> is 78 and
  \<open>STARTLOOP\<close> is 2.  The program never returns; \<open>pingpong_main n\<close> is the state after \<open>n\<close> rounds.\<close>

definition draw_frame :: "'s os \<Rightarrow> u32 \<Rightarrow> u32 \<Rightarrow> u32 \<Rightarrow> u8 \<Rightarrow> nat \<Rightarrow> 's \<Rightarrow> 's option" where
  "draw_frame os buf garbage rtc_fd curchar j s = do {
     let s = set_mem os (fold (\<lambda>i m. m(buf + of_nat i := 32)) [2..<78] (mem_of os s)) s;
     let s = store_byte os (buf + of_nat j) curchar s;
     s \<leftarrow> ece391_fdputs os 1 buf s;
     (_, s) \<leftarrow> ece391_read os rtc_fd garbage 4 s;
     Some s
   }"

primrec pingpong_rounds :: "nat \<Rightarrow> 's os \<Rightarrow> u32 \<Rightarrow> u32 \<Rightarrow> u32 \<Rightarrow> u8 \<Rightarrow> 's \<Rightarrow> 's option" where
  "pingpong_rounds 0 os buf garbage rtc_fd curchar s = Some s"
| "pingpong_rounds (Suc n) os buf garbage rtc_fd curchar s = do {
     s \<leftarrow> fold_opt (draw_frame os buf garbage rtc_fd curchar) [2..<78] s;
     s \<leftarrow> fold_opt (draw_frame os buf garbage rtc_fd curchar) (rev [2..<78]) s;
     pingpong_rounds n os buf garbage rtc_fd (if curchar = 90 then 65 else curchar + 1) s
   }"

definition pingpong_walls :: "u32 \<Rightarrow> mem \<Rightarrow> mem" where
  "pingpong_walls buf m =
    (fold (\<lambda>i m. m(buf + of_nat i := 32)) [0..<81] m)(buf + 80 := 0, buf + 79 := 10, buf + 78 := 124, buf + 1 := 124)"

definition pingpong_main :: "nat \<Rightarrow> 's os \<Rightarrow> u32 \<Rightarrow> u32 \<Rightarrow> u32 \<Rightarrow> 's \<Rightarrow> 's option" where
  "pingpong_main n os buf ret_val garbage s = do {
     let s = set_mem os (pingpong_walls buf (mem_of os s)) s;
     (rtc_fd, s) \<leftarrow> ece391_open os (lit os ''rtc'') s;
     let s = set_mem os (store32 (mem_of os s) ret_val 32) s;
     (r, s) \<leftarrow> ece391_write os rtc_fd ret_val 4 s;
     let s = set_mem os (store32 (mem_of os s) ret_val r) s;
     pingpong_rounds n os buf garbage rtc_fd 65 s
   }"

end
