(* ===== verification/Grep.thy ===== *)
theory Grep
  imports Program_Output
begin

text \<open>
  \<open>grep\<close> prints the lines of a file that contain the pattern, each behind the name of the file: the
  proof that \<open>do_one_file\<close> of \<^verbatim>\<open>src/syscalls/ece391grep.c\<close> does so, for text files whose pieces, as the
  system delivers them, end in a line feed.
\<close>

subsection \<open>Searching a line\<close>

text \<open>An empty pattern is found nowhere, since the first test compares with its NUL.\<close>

definition occurs :: "u8 list \<Rightarrow> u8 list \<Rightarrow> bool" where
  "occurs pat l \<longleftrightarrow> pat \<noteq> [] \<and> (\<exists>j < length l. take (length pat) (drop j l) = pat)"

lemma occurs_iff: "occurs pat l \<longleftrightarrow> pat \<noteq> [] \<and> (\<exists>us vs. l = us @ pat @ vs)"
proof -
  have "\<exists>us vs. l = us @ pat @ vs" if "take (length pat) (drop j l) = pat" for j
    using that by (metis append_take_drop_id)
  moreover have "\<exists>j < length l. take (length pat) (drop j l) = pat" if "l = us @ pat @ vs" "pat \<noteq> []" for us vs
    using that by (intro exI [of _ "length us"]) simp
  ultimately show ?thesis unfolding occurs_def by blast
qed

lemma line_end_found:
  assumes "load_bytes m (data + of_nat p) (Suc (length l)) = l @ [10]" "10 \<notin> set l" "p + length l < q"
  shows "line_end_of m data (int q) (int p) = int (p + length l)"
  using assms
proof (induction l arbitrary: p)
  case Nil
  then show ?case by (subst line_end_of.simps) (simp add: load_bytes_Suc)
next
  case (Cons x l)
  have "load_bytes m (data + of_nat (Suc p)) (Suc (length l)) = l @ [10]"
    using Cons(2) by (simp add: load_bytes_Suc ac_simps)
  then have "line_end_of m data (int q) (int (Suc p)) = int (Suc p + length l)" using Cons by (intro Cons.IH) simp_all
  then show ?case using Cons(2-4) by (subst line_end_of.simps) (simp add: load_bytes_Suc ac_simps)
qed

lemma cstr_drop: "cstr m a l \<Longrightarrow> i \<le> length l \<Longrightarrow> cstr m (a + of_nat i) (drop i l)"
proof (induction i arbitrary: a l)
  case (Suc i)
  then obtain x l' where l: "l = x # l'" by (cases l) simp_all
  then have "cstr m (a + 1 + of_nat i) (drop i l')" using Suc by (intro Suc.IH) (simp_all add: cstr_Cons_iff)
  then show ?case using l by (simp add: ac_simps)
qed simp

lemma sint_ascii: "x < 128 \<Longrightarrow> sint (x :: u8) = uint x"
proof -
  assume "x < 128"
  then have "uint x < 128" by (simp add: word_less_def)
  then show ?thesis using signed_take_bit_int_eq_self [of 7 "uint x"] uint_ge_0 [of x] by (simp add: sint_uint)
qed

lemma line_matches_from:
  assumes "cstr m (data + of_nat p) l" "cstr m s pat" "pat \<noteq> []" "\<forall>c \<in> set pat. c < 128" "i \<le> length l"
  shows "line_matches m s (of_nat (length pat)) data (int (p + length l)) (int (p + i)) =
    Some (\<exists>j. i \<le> j \<and> j < length l \<and> take (length pat) (drop j l) = pat)"
  using assms(5)
proof (induction "length l - i" arbitrary: i)
  case 0
  then have "\<not> int (p + i) < int (p + length l)" "\<not> (\<exists>j. i \<le> j \<and> j < length l \<and> take (length pat) (drop j l) = pat)" by auto
  then show ?case by (subst line_matches.simps) simp
next
  case (Suc k)
  let ?P = "\<lambda>j. take (length pat) (drop j l) = pat"
  have i: "i < length l" "Suc i \<le> length l" using Suc(2) by simp_all
  have IH: "line_matches m s (of_nat (length pat)) data (int (p + length l)) (int (p + i) + 1) = Some (\<exists>j. Suc i \<le> j \<and> j < length l \<and> ?P j)"
    using Suc(1) [OF _ i(2)] Suc(2) by (simp add: ac_simps)
  have split: "(\<exists>j. i \<le> j \<and> j < length l \<and> ?P j) \<longleftrightarrow> ?P i \<or> (\<exists>j. Suc i \<le> j \<and> j < length l \<and> ?P j)"
    using i(1) by (metis Suc_leD Suc_leI le_eq_less_or_eq order_refl)
  obtain c pat' where pat: "pat = c # pat'" using assms(3) by (cases pat) auto
  have s: "m s = c" "sint c = uint c" using assms(2,4) pat sint_ascii by (simp_all add: cstr_Cons_iff)
  have at: "m (data + of_nat (p + i)) = l ! i" using cstr_nth [OF assms(1) i(1)] by (simp add: ac_simps)
  have rest: "cstr m (data + of_nat (p + i)) (drop i l)" using cstr_drop [OF assms(1), of i] i(1) by (simp add: ac_simps)
  have len: "unat (of_nat (length pat) :: u32) = length pat" using assms(2) by (intro unat_of_nat32) (simp add: cstr_def)
  obtain r where r: "ece391_strncmp m (data + of_nat (p + i)) s (of_nat (length pat)) = Some r" "r = 0 \<longleftrightarrow> ?P i"
    using ece391_strncmp_eq [OF rest assms(2), of "of_nat (length pat)"] len by auto
  have "?P i \<Longrightarrow> l ! i = c" using pat i(1) by (simp add: Cons_nth_drop_Suc [symmetric])
  moreover have "sint (m s) = uint (m (data + of_nat (p + i))) \<longleftrightarrow> c = l ! i" 
    unfolding s(1) at s(2) by (rule word_uint_eq_iff [symmetric])
  ultimately show ?case using r IH split i(1) by (subst line_matches.simps) auto
qed

subsection \<open>The lines of a piece\<close>

lemma load_bytes_parts:
  assumes "load_bytes m a (length (xs @ ys)) = xs @ ys"
  shows "load_bytes m a (length xs) = xs" "load_bytes m (a + of_nat (length xs)) (length ys) = ys"
  using assms unfolding length_append load_bytes_add by (simp_all add: append_eq_append_conv)

lemma load_bytes_behind:
  assumes "n < 2 ^ 32 - 1"
  shows "load_bytes (m(a := v)) (a + 1) n = load_bytes m (a + 1) n"
proof (rule load_bytes_cong)
  fix x assume "in_region (a + 1) n x"
  moreover have "unat (a - (a + 1)) = 2 ^ 32 - 1" by (simp add: unsigned_minus_1_eq_mask mask_eq_exp_minus_1)
  ultimately show "(m(a := v)) x = m x" using assms by (auto simp: in_region_def)
qed (use assms in simp)

text \<open>The pattern, the name and the two constants lie in the program's memory, apart from the buffer.\<close>

definition grep_ready :: "'s os \<Rightarrow> (u32 \<Rightarrow> bool) \<Rightarrow> u32 \<Rightarrow> u8 list \<Rightarrow> u32 \<Rightarrow> u8 list \<Rightarrow> u32 \<Rightarrow> 's \<Rightarrow> bool" where
  "grep_ready os mine s pat fname nm data st \<longleftrightarrow> cstr (mem_of os st) s pat \<and> cstr (mem_of os st) fname nm \<and>
    region_in mine s (Suc (length pat)) \<and> region_in mine fname (Suc (length nm)) \<and>
    disjoint_regions s (Suc (length pat)) data 1025 \<and> disjoint_regions fname (Suc (length nm)) data 1025 \<and>
    lit_apart os mine data 1025 st '':'' \<and> lit_apart os mine data 1025 st ''\<newline>'' \<and> 13 \<notin> set nm \<and> length nm < 2 ^ 31"

lemma grep_ready_kept:
  assumes "grep_ready os mine s pat fname nm data st" "\<forall>x. mine x \<longrightarrow> \<not> in_region data 1025 x \<longrightarrow> mem_of os st' x = mem_of os st x"
  shows "grep_ready os mine s pat fname nm data st'"
proof -
  have "cstr (mem_of os st') a xs"
    if "cstr (mem_of os st) a xs" "region_in mine a (Suc (length xs))" "disjoint_regions a (Suc (length xs)) data 1025" for a xs
    using cstr_cong [OF that(1)] that(2,3) assms(2) by (auto simp: region_in_def disjoint_regions_def)
  then show ?thesis
    using assms(1) lit_apart_kept [OF _ assms(2), of "'':''"] lit_apart_kept [OF _ assms(2), of "''\<newline>''"] by (simp add: grep_ready_def)
qed

definition grep_output :: "u8 list \<Rightarrow> u8 list \<Rightarrow> u8 list list \<Rightarrow> u8 list" where
  "grep_output pat nm ls = concat (map (\<lambda>l. if occurs pat l then nm @ [58] @ l @ [10] else []) ls)"

definition text_lines :: "u8 list list \<Rightarrow> bool" where
  "text_lines ls \<longleftrightarrow> (\<forall>l \<in> set ls. set l \<inter> {0, 10, 13} = {})"

context user_files
begin

lemma grep_print_shows:
  assumes "ok st" "grep_ready os mine s pat fname nm data st" "cstr (mem_of os st) line l" "13 \<notin> set l" "region_in mine line (Suc (length l))"
    "length l < 2 ^ 31"
  shows "\<exists>st'. grep_print os fname line st = Some st' \<and> ok st' \<and> display st' = fold vch (nm @ [58] @ l @ [10]) (display st) \<and>
    mem_of os st' = mem_of os st \<and> (\<forall>fd n xss. feeds fd n xss st \<longrightarrow> feeds fd n xss st')"
proof -
  note g = assms(2) [unfolded grep_ready_def]
  obtain s1 where 1: "ece391_fdputs os 1 fname st = Some s1" "ok s1" "display s1 = fold vch nm (display st)" "mem_of os s1 = mem_of os st"
    "\<forall>fd n xss. feeds fd n xss st \<longrightarrow> feeds fd n xss s1" using fdputs_text [OF assms(1), of fname nm] g by blast
  have "lit_apart os mine data 1025 s1 '':''" "lit_apart os mine data 1025 s1 ''\<newline>''"
    using g lit_apart_kept [of os mine data 1025 st _ s1] 1(4) by simp_all
  note lits = this
  obtain s2 where 2: "puts_lit os '':'' s1 = Some s2" "ok s2" "display s2 = vch 58 (display s1)" "mem_of os s2 = mem_of os s1"
    "\<forall>fd n xss. feeds fd n xss s1 \<longrightarrow> feeds fd n xss s2"
    using puts_shows [OF 1(2) lits(1), simplified bytes_of_def, simplified] by blast
  obtain s3 where 3: "ece391_fdputs os 1 line s2 = Some s3" "ok s3" "display s3 = fold vch l (display s2)" "mem_of os s3 = mem_of os s2"
    "\<forall>fd n xss. feeds fd n xss s2 \<longrightarrow> feeds fd n xss s3"
    using fdputs_text [OF 2(2), of line l] assms(3-6) 1(4) 2(4) by metis
  have "lit_apart os mine data 1025 s3 ''\<newline>''" using lit_apart_kept [OF lits(2), of s3] 2(4) 3(4) by simp
  then obtain s4 where "puts_lit os ''\<newline>'' s3 = Some s4" "ok s4" "display s4 = vch 10 (display s3)" "mem_of os s4 = mem_of os s3"
    "\<forall>fd n xss. feeds fd n xss s3 \<longrightarrow> feeds fd n xss s4"
    using puts_shows [OF 3(2), of data 1025 "''\<newline>''", simplified bytes_of_def, simplified] by blast
  note 4 = this
  have "\<forall>fd n xss. feeds fd n xss st \<longrightarrow> feeds fd n xss s4" using 1(5) 2(5) 3(5) 4(5) by blast
  then show ?thesis using 1(1,3,4) 2(1,3,4) 3(1,3,4) 4(1-4) by (intro exI [of _ s4]) (simp add: grep_print_def)
qed

lemma grep_line_shows:
  assumes "ok st" "grep_ready os mine s pat fname nm data st" "region_in mine data 1025" "pat \<noteq> []" "\<forall>c \<in> set pat. c < 128"
    "load_bytes (mem_of os st) (data + of_nat p) (length l) = l" "set l \<inter> {0, 10, 13} = {}" "p + length l \<le> 1024"
    "st1 = store_byte os (data + of_nat (p + length l)) 0 st"
  shows "\<exists>st'. line_matches (mem_of os st1) s (of_nat (length pat)) data (int (p + length l)) (int p) = Some (occurs pat l) \<and>
    (if occurs pat l then grep_print os fname (data + of_nat p) st1 else Some st1) = Some st' \<and> ok st' \<and>
    grep_ready os mine s pat fname nm data st' \<and> mem_of os st' = (mem_of os st)(data + of_nat (p + length l) := 0) \<and>
    display st' = fold vch (grep_output pat nm [l]) (display st) \<and> (\<forall>fd n xss. feeds fd n xss st \<longrightarrow> feeds fd n xss st')"
proof -
  have at: "mine (data + of_nat (p + length l))" using region_in_at [OF assms(3), of "p + length l"] assms(8) by simp
  have mem: "mem_of os st1 = (mem_of os st)(data + of_nat (p + length l) := 0)" by (simp add: assms(9) get_store)
  note st1 = own_store_byte [OF assms(1) at, where v = 0, folded assms(9)]
  have "in_region data 1025 (data + of_nat (p + length l))" using assms(8) by (simp add: in_region_def del: of_nat_add)
  then have g: "grep_ready os mine s pat fname nm data st1" using grep_ready_kept [OF assms(2)] mem by auto
  have "load_bytes (mem_of os st1) (data + of_nat p) (length l + 1) = l @ [0]"
    using load_bytes_upd [OF assms(6), of 0] assms(8) mem by (simp add: ac_simps)
  then have l: "cstr (mem_of os st1) (data + of_nat p) l" using assms(7,8) by (intro cstr_bytes) auto
  have found: "line_matches (mem_of os st1) s (of_nat (length pat)) data (int (p + length l)) (int p) = Some (occurs pat l)"
    using line_matches_from [OF l _ assms(4,5), of s 0] g assms(4) by (simp add: grep_ready_def occurs_def)
  show ?thesis
  proof (cases "occurs pat l")
    case True
    have "region_in mine (data + of_nat p) (Suc (length l))" using region_in_offset [OF assms(3), of p "Suc (length l)"] assms(8) by simp
    then obtain st' where "grep_print os fname (data + of_nat p) st1 = Some st'" "ok st'" "display st' = fold vch (nm @ [58] @ l @ [10]) (display st1)"
      "mem_of os st' = mem_of os st1" "\<forall>fd n xss. feeds fd n xss st1 \<longrightarrow> feeds fd n xss st'"
      using grep_print_shows [OF st1(1) g l] assms(7,8) by auto
    then show ?thesis using found True mem st1 grep_ready_kept [OF g] by (auto simp: grep_output_def)
  next
    case False
    then show ?thesis using found mem st1 g by (auto simp: grep_output_def)
  qed
qed

lemma grep_lines_show:
  assumes "ok st" "grep_ready os mine s pat fname nm data st" "region_in mine data 1025" "pat \<noteq> []" "\<forall>c \<in> set pat. c < 128"
    "text_lines ls" "ls \<noteq> []" "rest = concat (map (\<lambda>l. l @ [10]) ls)" "load_bytes (mem_of os st) (data + of_nat p) (length rest) = rest"
    "p + length rest \<le> 1024"
  shows "\<exists>st'. grep_lines os s fname data (of_nat (length pat)) cnt (int (p + length rest)) (int p) st = Some (0, st') \<and> ok st' \<and>
    grep_ready os mine s pat fname nm data st' \<and> display st' = fold vch (grep_output pat nm ls) (display st) \<and>
    (\<forall>fd n xss. feeds fd n xss st \<longrightarrow> feeds fd n xss st')"
  using assms
proof (induction ls arbitrary: p st rest)
  case (Cons l ls)
  let ?rest = "concat (map (\<lambda>l. l @ [10]) ls)" and ?q = "p + length l"
  define st1 where "st1 = store_byte os (data + of_nat ?q) 0 st"
  have l: "set l \<inter> {0, 10, 13} = {}" "text_lines ls" using Cons(7) by (simp_all add: text_lines_def)
  have rest: "rest = (l @ [10]) @ ?rest" "length rest = Suc (length l) + length ?rest" using Cons(9) by simp_all
  have parts: "load_bytes (mem_of os st) (data + of_nat p) (Suc (length l)) = l @ [10]"
    "load_bytes (mem_of os st) (data + of_nat ?q + 1) (length ?rest) = ?rest"
    using load_bytes_parts [of "mem_of os st" "data + of_nat p" "l @ [10]" ?rest] Cons(10) rest(1) by (simp_all add: ac_simps)
  have le: "?q \<le> 1024" "?q < p + length rest" using Cons(11) rest(2) by simp_all
  have "load_bytes (mem_of os st) (data + of_nat p) (length l) = l"
    using take_load_bytes [of "length l" "Suc (length l)" "mem_of os st" "data + of_nat p"] parts(1) by simp
  from grep_line_shows [OF Cons(2-6) this l(1) le(1) st1_def] obtain st2
    where f: "line_matches (mem_of os st1) s (of_nat (length pat)) data (int ?q) (int p) = Some (occurs pat l)"
      "(if occurs pat l then grep_print os fname (data + of_nat p) st1 else Some st1) = Some st2" "ok st2"
      "grep_ready os mine s pat fname nm data st2" "mem_of os st2 = (mem_of os st)(data + of_nat ?q := 0)"
      "display st2 = fold vch (grep_output pat nm [l]) (display st)" "\<forall>fd n xss. feeds fd n xss st \<longrightarrow> feeds fd n xss st2" by blast
  have "line_end_of (mem_of os st) data (int (p + length rest)) (int p) = int ?q"
    using line_end_found [OF parts(1) _ le(2)] l(1) by simp
  moreover have "mem_of os st (data + of_nat ?q) = 10"
    using arg_cong [OF parts(1), of "\<lambda>xs. xs ! length l"] by (simp add: ac_simps)
  ultimately have run: "grep_lines os s fname data (of_nat (length pat)) cnt (int (p + length rest)) (int p) st =
      (if int ?q + 1 \<ge> int (p + length rest) then Some (0, st2)
       else grep_lines os s fname data (of_nat (length pat)) cnt (int (p + length rest)) (int ?q + 1) st2)"
    using f(1,2) [unfolded st1_def] by (subst grep_lines.simps) (cases "occurs pat l"; simp add: Let_def)
  show ?case
  proof (cases "ls = []")
    case True
    then show ?thesis using run f(3,4,6,7) rest(2) by (intro exI [of _ st2]) simp
  next
    case False
    have "load_bytes (mem_of os st2) (data + of_nat (Suc ?q)) (length ?rest) = ?rest"
      using parts(2) load_bytes_behind [of "length ?rest" "mem_of os st" "data + of_nat ?q" 0] Cons(11) rest(2)
      unfolding f(5) by (simp add: ac_simps)
    moreover have "Suc ?q + length ?rest = p + length rest" "p + length rest \<le> 1024" using rest(2) Cons(11) by simp_all
    ultimately obtain st' where "grep_lines os s fname data (of_nat (length pat)) cnt (int (p + length rest)) (int (Suc ?q)) st2 = Some (0, st')"
      "ok st'" "grep_ready os mine s pat fname nm data st'" "display st' = fold vch (grep_output pat nm ls) (display st2)"
      "\<forall>fd n xss. feeds fd n xss st2 \<longrightarrow> feeds fd n xss st'"
      using Cons.IH [OF f(3,4) Cons(4-6) l(2) False refl, of "Suc ?q"] by metis
    moreover have "?rest \<noteq> []" using False by (cases ls) simp_all
    ultimately show ?thesis using run f(6,7) rest(2) by (intro exI [of _ st']) (simp add: grep_output_def ac_simps)
  qed
qed simp

text \<open>After the last piece the buffer is searched once more, as an empty line.\<close>

lemma grep_nothing:
  assumes "ok st" "grep_ready os mine s pat fname nm data st" "region_in mine data 1025"
  shows "\<exists>st'. grep_lines os s fname data n 0 0 0 st = Some (0, st') \<and> ok st' \<and> grep_ready os mine s pat fname nm data st' \<and>
    display st' = display st \<and> (\<forall>fd n xss. feeds fd n xss st \<longrightarrow> feeds fd n xss st')"
proof -
  let ?st = "store_byte os data 0 st"
  have "mine data" using region_in_at [OF assms(3), of 0] by simp
  note st = own_store_byte [OF assms(1) this, where v = 0]
  have "in_region data 1025 data" by (simp add: in_region_def)
  then have "grep_ready os mine s pat fname nm data ?st" using grep_ready_kept [OF assms(2)] by (auto simp: get_store)
  moreover have "line_end_of m data 0 0 = 0" for m by (subst line_end_of.simps) simp
  moreover have "line_matches m s n data 0 0 = Some False" for m by (subst line_matches.simps) simp
  ultimately show ?thesis using st by (subst grep_lines.simps) (simp add: Let_def)
qed

lemma grep_file_shows:
  assumes "ok st" "grep_ready os mine s pat fname nm data st" "region_in mine data 1025" "pat \<noteq> []" "\<forall>c \<in> set pat. c < 128"
    "\<forall>ls \<in> set lss. ls \<noteq> [] \<and> text_lines ls" "feeds fd 1024 (map (\<lambda>ls. concat (map (\<lambda>l. l @ [10]) ls)) lss) st"
  shows "\<exists>st'. grep_file os s fname data (of_nat (length pat)) fd 0 st = Some (0, st') \<and> ok st' \<and>
    display st' = fold vch (grep_output pat nm (concat lss)) (display st)"
  using assms
proof (induction lss arbitrary: st)
  case Nil
  have r: "region_in mine data 1024" "data \<noteq> 0" using region_in_mono [OF Nil(3)] region_nonnull [OF Nil(3)] by simp_all
  have "feeds fd 1024 [] st" using Nil(7) by simp
  from read_end [OF Nil(1) this r] obtain s1 where 1: "call os SYS_READ fd data 1024 st = Some (0, s1)" "ok s1" "display s1 = display st" "feeds fd 1024 [] s1"
    "\<forall>a. mine a \<longrightarrow> \<not> in_region data 1024 a \<longrightarrow> mem_of os s1 a = mem_of os st a" by auto
  have "\<not> in_region data 1025 a \<Longrightarrow> \<not> in_region data 1024 a" for a by (simp add: in_region_def)
  then have g: "grep_ready os mine s pat fname nm data s1" using grep_ready_kept [OF Nil(2)] 1(5) by blast
  obtain s2 where 2: "grep_lines os s fname data (of_nat (length pat)) 0 0 0 s1 = Some (0, s2)" "ok s2" "display s2 = display s1" "feeds fd 1024 [] s2"
    using grep_nothing [OF 1(2) g Nil(3)] 1(4) by blast
  obtain s3 where "call os SYS_CLOSE fd 0 0 s2 = Some (0, s3)" "ok s3" "display s3 = display s2" using close_done [OF 2(2,4)] by blast
  then show ?case using 1 2
    by (subst grep_file.simps) (simp add: ece391_read_def ece391_close_def grep_output_def)
next
  case (Cons ls lss)
  let ?xs = "concat (map (\<lambda>l. l @ [10]) ls)"
  have r: "region_in mine data 1024" "data \<noteq> 0" using region_in_mono [OF Cons(4)] region_nonnull [OF Cons(4)] by simp_all
  have "feeds fd 1024 (?xs # map (\<lambda>ls. concat (map (\<lambda>l. l @ [10]) ls)) lss) st" using Cons(8) by simp
  from read_chunk [OF Cons(2) this r] obtain s1 where 1: "?xs \<noteq> []" "length ?xs \<le> 1024" "call os SYS_READ fd data 1024 st = Some (of_nat (length ?xs), s1)"
    "ok s1" "display s1 = display st" "feeds fd 1024 (map (\<lambda>ls. concat (map (\<lambda>l. l @ [10]) ls)) lss) s1"
    "load_bytes (mem_of os s1) data (length ?xs) = ?xs" "\<forall>a. mine a \<longrightarrow> \<not> in_region data 1024 a \<longrightarrow> mem_of os s1 a = mem_of os st a" by auto
  have "\<not> in_region data 1025 a \<Longrightarrow> \<not> in_region data 1024 a" for a by (simp add: in_region_def)
  then have g: "grep_ready os mine s pat fname nm data s1" using grep_ready_kept [OF Cons(3)] 1(8) by blast
  have ls: "text_lines ls" "ls \<noteq> []" "\<forall>ls \<in> set lss. ls \<noteq> [] \<and> text_lines ls" using Cons(7) by simp_all
  obtain s2 where 2: "grep_lines os s fname data (of_nat (length pat)) (of_nat (length ?xs)) (int (length ?xs)) 0 s1 = Some (0, s2)" "ok s2"
    "grep_ready os mine s pat fname nm data s2" "display s2 = fold vch (grep_output pat nm ls) (display s1)"
    "\<forall>fd n xss. feeds fd n xss s1 \<longrightarrow> feeds fd n xss s2"
    using grep_lines_show [OF 1(4) g Cons(4-6) ls(1,2) refl, of 0 "of_nat (length ?xs)"] 1(2,7) by auto
  obtain s3 where 3: "grep_file os s fname data (of_nat (length pat)) fd 0 s2 = Some (0, s3)" "ok s3"
    "display s3 = fold vch (grep_output pat nm (concat lss)) (display s2)"
    using Cons.IH [OF 2(2,3) Cons(4-6) ls(3)] 1(6) 2(5) by blast
  have "0 < length ?xs" "length ?xs < 2 ^ 31" using 1(1,2) by (simp_all del: length_concat)
  then have "of_nat (length ?xs) \<noteq> (0 :: u32)" "of_nat (length ?xs) \<noteq> (-1 :: u32)" "sint (of_nat (length ?xs) :: u32) = int (length ?xs)"
    using count_word sint_small by blast+
  then show ?case using 1(3,5) 2(1,4) 3
    by (intro exI [of _ s3], subst grep_file.simps) (simp add: ece391_read_def grep_output_def del: length_concat)
qed

lemma do_one_file_shows:
  assumes "ok st" "grep_ready os mine s pat fname nm data st" "region_in mine data 1025" "pat \<noteq> []" "\<forall>c \<in> set pat. c < 128"
    "\<forall>ls \<in> set lss. ls \<noteq> [] \<and> text_lines ls" "holds nm 1024 (map (\<lambda>ls. concat (map (\<lambda>l. l @ [10]) ls)) lss) st"
  shows "\<exists>st'. do_one_file os data s fname st = Some (0, st') \<and> ok st' \<and>
    display st' = fold vch (grep_output pat nm (concat lss)) (display st)"
proof -
  note g = assms(2) [unfolded grep_ready_def]
  obtain fd s1 where o: "call os SYS_OPEN fname 0 0 st = Some (fd, s1)" "fd \<noteq> -1" "ok s1" "display s1 = display st"
    "feeds fd 1024 (map (\<lambda>ls. concat (map (\<lambda>l. l @ [10]) ls)) lss) s1" "\<forall>x. mine x \<longrightarrow> mem_of os s1 x = mem_of os st x"
    using open_found [OF assms(1,7)] g by blast
  have "grep_ready os mine s pat fname nm data s1" using grep_ready_kept [OF assms(2)] o(6) by blast
  moreover have "ece391_strlen (mem_of os st) s = Some (of_nat (length pat))" using g strlen_cstr by (simp add: ece391_strlen_eq)
  ultimately show ?thesis using grep_file_shows [OF o(3) _ assms(3-6) o(5)] o(1,2,4) by (simp add: do_one_file_def ece391_open_def)
qed

end

end
