(* ===== verification/File_Calls.thy ===== *)
theory File_Calls
  imports Kernel_Calls Grep
begin

text \<open>
  The kernel keeps the laws of \<open>user_files\<close>: what \<open>open\<close>, \<open>close\<close>, \<open>getargs\<close> and a read of the keyboard do to a
  program, from the system calls' own lemmas.
\<close>

subsection \<open>What is on the volume, in the argument buffer, at the keyboard\<close>

definition volume_has :: "sys_env \<Rightarrow> nat \<Rightarrow> mem \<Rightarrow> fs_state \<Rightarrow> u8 list \<Rightarrow> u32 \<Rightarrow> u32 \<Rightarrow> nat \<Rightarrow> u8 list list \<Rightarrow> bool" where
  "volume_has S k m st name ty ino n xss \<longleftrightarrow>
    directory_clear m st name \<and> map_of (directory_of m st) name = Some (ty, ino) \<and> fd_feed S k m st (opened ty ino) n xss \<and>
    (\<forall>j \<ge> k. disjoint_regions (local_dentry (envs S j)) 44 (fs_addr st) 4 \<and>
      (\<forall>i < unat (num_dentry m (fs_addr st)). disjoint_regions (local_dentry (envs S j)) 44 (entry_at st i) 44))"

fun kernel_holds :: "sys_env \<Rightarrow> u8 list \<Rightarrow> nat \<Rightarrow> u8 list list \<Rightarrow> kernel \<times> nat \<Rightarrow> bool" where
  "kernel_holds S name n xss (s, k) \<longleftrightarrow> pcb_addr (get_process_count s) = PCB_ptr s \<and> free_fd s \<noteq> None \<and> name \<noteq> [] \<and> length name \<le> 32 \<and>
    (\<exists>ty ino. ty \<le> 2 \<and> (\<forall>m. same_side S k (view_mem s) m \<longrightarrow> volume_has S k m (fs s) name ty ino n xss))"

fun kernel_given :: "u8 list \<Rightarrow> kernel \<times> nat \<Rightarrow> bool" where
  "kernel_given xs (s, k) \<longleftrightarrow> arg_size s = int (length xs) \<and> length (get_args s) = 1024 \<and> take (length xs) (get_args s) = xs \<and>
    0 \<notin> set xs \<and> length xs < 128"

text \<open>The first test of the enter flag that finds it up sees the line, with the caller's pages and its
  terminal still there.\<close>

fun kernel_types :: "sys_env \<Rightarrow> u8 list \<Rightarrow> int \<times> (int \<Rightarrow> tview) \<Rightarrow> kernel \<times> nat \<Rightarrow> bool" where
  "kernel_types S xs d (s, k) \<longleftrightarrow> length xs \<le> 128 \<and> 0 \<notin> set xs \<and>
    (\<exists>i. let kb = enter (envs S k) i; c = con kb in
      ent_flag kb (active_terminal c) = 1 \<and> (\<forall>j < i. ent_flag (enter (envs S k) j) (active_terminal (con (enter (envs S k) j))) \<noteq> 1) \<and>
      read_buf kb = xs @ replicate (128 - length xs) 0 \<and> screens c = d \<and> mapped c \<and> in_range (view c (active_terminal c)) \<and>
      drop_bit 22 (directory (pages c) 32) = drop_bit 22 (directory (pages (con (keyb s))) 32))"

declare kernel_holds.simps [simp del] kernel_given.simps [simp del] kernel_types.simps [simp del]

subsection \<open>Opening and closing\<close>

lemma changes_side:
  assumes "changes_only (local_dentry (envs S k)) 44 m m'" "\<forall>j \<ge> k. region_in (\<lambda>a. \<not> in_window a) (local_dentry (envs S j)) 44"
  shows "same_side S k m m'" "\<forall>a. in_window a \<longrightarrow> m' a = m a"
  using assms by (auto simp: same_side_def kernel_side_def changes_only_def region_in_def)

lemma kernel_ok_later:
  assumes "kernel_ok S (s, k)" "fds_ok s'" "same_side S k (view_mem s) (view_mem s')" "con (keyb s') = con (keyb s)"
  shows "kernel_ok S (s', Suc k)"
proof -
  obtain z where "kernel_side S k z" "view_mem s z = 0" using assms(1) by auto
  then have "kernel_side S (Suc k) z" "view_mem s' z = 0" using assms(3) side_mono by (auto simp: same_side_def)
  then show ?thesis using assms(1,2,4) by auto
qed

lemma window_nonnull: "region_in in_window a n \<Longrightarrow> 0 < n \<Longrightarrow> a \<noteq> 0"
proof -
  assume "region_in in_window a n" "0 < n"
  then have "in_window a" by (auto simp: region_in_def in_region_def)
  then show ?thesis by (auto simp: in_window_def)
qed

lemma volume_has_Suc: "volume_has S k m st name ty ino n xss \<Longrightarrow> volume_has S (Suc k) m st name ty ino n xss"
  using fd_feed_later [of S k m st "opened ty ino" n xss st] by (simp add: volume_has_def)

lemma kernel_open_found:
  assumes "kernel_ok S (s, k)" "kernel_holds S name n xss (s, k)" "cstr (view_mem s) a name" "region_in in_window a (Suc (length name))"
  shows "\<exists>fd s'. kernel_call S SYS_OPEN a 0 0 (s, k) = Some (fd, s', Suc k) \<and> fd \<noteq> -1 \<and> kernel_ok S (s', Suc k) \<and>
    kernel_display (s', Suc k) = kernel_display (s, k) \<and> kernel_feeds S fd n xss (s', Suc k) \<and>
    (\<forall>x. in_window x \<longrightarrow> view_mem s' x = view_mem s x) \<and>
    (\<forall>fd' j yss. kernel_feeds S fd' j yss (s, k) \<longrightarrow> fd' \<noteq> fd \<and> kernel_feeds S fd' j yss (s', Suc k))"
proof -
  let ?d = "local_dentry (envs S k)" and ?p = "PCB_ptr s"
  obtain i where h: "pcb_addr (get_process_count s) = ?p" "free_fd s = Some i" "name \<noteq> []" "length name \<le> 32"
    using assms(2) by (auto simp: kernel_holds.simps)
  obtain ty ino where ty: "ty \<le> 2" and vol: "\<And>m. same_side S k (view_mem s) m \<Longrightarrow> volume_has S k m (fs s) name ty ino n xss"
    using assms(2) unfolding kernel_holds.simps by blast
  note now = vol [OF same_side_refl, unfolded volume_has_def]
  have out: "\<forall>j \<ge> k. region_in (\<lambda>a. \<not> in_window a) (local_dentry (envs S j)) 44" "region_in (\<lambda>a. \<not> in_window a) ?d 44" "fds_ok s"
    using assms(1) by simp_all
  have ready: "lookup_ready a ?d name (view_mem s) (fs s)"
    using now assms(3) h(3,4) window_disjoint [OF out(2) assms(4)] by (simp add: lookup_ready_def)
  have nz: "a \<noteq> 0" using window_nonnull [OF assms(4)] by simp
  obtain m b c where run: "c_open (envs S k) a s = Some (int i, (set_fd ?p i (opened ty ino) (put_mem m (s\<lparr>fs := (fs s)\<lparr>dentry_addr := b\<rparr>\<rparr>)))\<lparr>rtc := c\<rparr>)"
    "changes_only ?d 44 (view_mem s) m"
    using c_open_opens [OF ready nz _ ty h(2)] now by blast
  let ?s = "(set_fd ?p i (opened ty ino) (put_mem m (s\<lparr>fs := (fs s)\<lparr>dentry_addr := b\<rparr>\<rparr>)))\<lparr>rtc := c\<rparr>"
  have i: "2 \<le> i" "i \<le> 7" "unat (of_nat i :: u32) = i" using fds_ok_free [OF out(3) h(2)] by simp_all
  have mem: "view_mem ?s = m" by (simp add: running_memory.get_put)
  note side = changes_side [OF run(2) out(1)]
  have cnt: "get_process_count ?s = get_process_count s" by (simp add: get_process_count_def active_term_def)
  have "fds_ok ?s" using c_open_ok [OF out(3) run(1)] by blast
  then have "kernel_ok S (?s, Suc k)" by (rule kernel_ok_later [OF assms(1)]) (simp_all add: side(1) running_memory.get_put)
  moreover have "kernel_call S SYS_OPEN a 0 0 (s, k) = Some (of_nat i, ?s, Suc k)" using run(1) by (simp add: kernel_calls)
  moreover have "(of_nat i :: u32) \<noteq> -1" using i count_word [of i] by simp
  moreover have "fd_feed S (Suc k) m' (fs ?s) (opened ty ino) n xss" if "same_side S (Suc k) m m'" for m'
    using vol [OF same_side_step(1) [OF side(1) that], unfolded volume_has_def] fd_feed_later [of S k m' "fs s" "opened ty ino" n xss "fs ?s" b "Suc k"] by simp
  then have "kernel_feeds S (of_nat i) n xss (?s, Suc k)" using i h(1) cnt mem by (simp add: kernel_feeds.simps)
  moreover have "fd' \<noteq> of_nat i \<and> kernel_feeds S fd' j yss (?s, Suc k)" if f: "kernel_feeds S fd' j yss (s, k)" for fd' j yss
  proof -
    have "flags (get_fd ?p (unat fd') s) \<noteq> 0" using f same_side_refl unfolding kernel_feeds.simps fd_feed_def by blast
    then have ne: "unat fd' \<noteq> i" using free_fd_Some [OF h(2)] by auto
    then show ?thesis using i(3) side(1) mem cnt by (auto intro!: feeds_kept [OF f, where a = b])
  qed
  ultimately show ?thesis using side(2) mem by (intro exI [of _ "of_nat i"] exI [of _ ?s]) simp
qed

lemma kernel_close:
  assumes "kernel_ok S (s, k)" "kernel_feeds S fd n xss (s, k)"
  shows "\<exists>s'. kernel_call S SYS_CLOSE fd 0 0 (s, k) = Some (0, s', Suc k) \<and> kernel_ok S (s', Suc k) \<and>
    kernel_display (s', Suc k) = kernel_display (s, k) \<and> view_mem s' = view_mem s"
proof -
  define i where "i = unat fd"
  let ?s = "set_fd (PCB_ptr s) i closed_fd s"
  have fd: "2 \<le> i" "i \<le> 7" "flags (get_fd (PCB_ptr s) i s) \<noteq> 0"
    using assms(2) same_side_refl unfolding kernel_feeds.simps fd_feed_def i_def by blast+
  have "unat fd < 2 ^ 31" using fd(2) by (simp add: i_def)
  then have sfd: "sint fd = int i" unfolding i_def by (rule sint_unat_less)
  have run: "c_close (int i) s = (0, ?s)" using fd by (simp add: c_close_def)
  moreover have "fds_ok ?s" using c_close_ok [OF _ run] assms(1) by simp
  ultimately show ?thesis using kernel_ok_later [OF assms(1), of ?s] sfd same_side_refl
    by (intro exI [of _ ?s]) (simp add: kernel_calls)
qed

subsection \<open>Arguments and lines\<close>

lemma cstr_padded:
  assumes "load_bytes m buf n = xs @ replicate (n - length xs) 0" "length xs < n" "0 \<notin> set xs" "n \<le> 2 ^ 32"
  shows "cstr m buf xs"
proof -
  have "load_bytes m buf (length xs + 1) = xs @ [0]"
    using assms(1,2) take_load_bytes [of "length xs + 1" n m buf] by (cases "n - length xs") simp_all
  then show ?thesis using assms by (intro cstr_bytes) simp_all
qed

lemma kernel_getargs:
  assumes "kernel_ok S (s, k)" "kernel_given xs (s, k)" "region_in in_window buf n" "128 \<le> n" "n < 2 ^ 31"
  shows "\<exists>s'. kernel_call S SYS_GETARGS buf (of_nat n) 0 (s, k) = Some (0, s', Suc k) \<and> kernel_ok S (s', Suc k) \<and>
    kernel_display (s', Suc k) = kernel_display (s, k) \<and> cstr (view_mem s') buf xs \<and>
    (\<forall>x. in_window x \<longrightarrow> \<not> in_region buf n x \<longrightarrow> view_mem s' x = view_mem s x) \<and>
    (\<forall>nm j xss. kernel_holds S nm j xss (s, k) \<longrightarrow> kernel_holds S nm j xss (s', Suc k))"
proof -
  let ?ys = "xs @ replicate (128 - length xs) 0"
  define zs :: "u8 list" where "zs = replicate 1024 0"
  let ?m = "store_bytes (view_mem s) buf ?ys" let ?s = "(put_mem ?m s)\<lparr>get_args := zs\<rparr>"
  have g: "arg_size s = int (length xs)" "length (get_args s) = 1024" "take (length xs) (get_args s) = xs" "0 \<notin> set xs" "length xs < 128"
    using assms(2) by (simp_all add: kernel_given.simps)
  have nz: "buf \<noteq> 0" using window_nonnull [OF assms(3)] assms(4) by simp
  have "c_getargs (envs S k) buf (int n) s = (0, ?s)"
    using c_getargs_copies [of buf "length xs" s "int n" "envs S k", folded zs_def] nz g assms(4) by simp
  then have call: "kernel_call S SYS_GETARGS buf (of_nat n) 0 (s, k) = Some (0, ?s, Suc k)"
    using sint_small [OF assms(5)] by (simp add: kernel_calls)
  have len: "length ?ys = 128" using g(5) by simp
  have mem: "view_mem ?s = ?m" by (simp add: running_memory.get_put)
  have out: "\<not> in_region buf n x \<Longrightarrow> ?m x = view_mem s x" for x
    using len assms(4) by (auto simp: store_bytes_outside in_region_def)
  then have side: "same_side S k (view_mem s) ?m" using assms(3) by (intro same_side_own) (auto simp: region_in_def)
  have fds: "fds_ok ?s" using assms(1) fds_ok_pcbs [of ?s s] by simp
  have "load_bytes ?m buf 128 = ?ys" using len by simp
  then have str: "cstr ?m buf xs" using g(4,5) by (intro cstr_padded [of ?m buf 128]) simp_all
  have "kernel_holds S nm j xss (?s, Suc k)" if h: "kernel_holds S nm j xss (s, k)" for nm j xss
  proof -
    have "free_fd ?s = free_fd s" "get_process_count ?s = get_process_count s"
      using flag_at_cong(2) [of ?s s] by (simp_all add: get_process_count_def active_term_def)
    moreover have "volume_has S (Suc k) m (fs ?s) nm ty ino j xss"
      if "\<forall>m. same_side S k (view_mem s) m \<longrightarrow> volume_has S k m (fs s) nm ty ino j xss" "same_side S (Suc k) (view_mem ?s) m" for m ty ino
      using that same_side_step(1) [OF side, of m] volume_has_Suc mem by simp
    ultimately show ?thesis using h unfolding kernel_holds.simps by (simp del: view_mem_simps) blast
  qed
  moreover have "kernel_ok S (?s, Suc k)" by (rule kernel_ok_later [OF assms(1) fds]) (simp_all add: side running_memory.get_put)
  moreover have "kernel_display (?s, Suc k) = kernel_display (s, k)" by simp
  moreover have "cstr (view_mem ?s) buf xs" "\<forall>x. in_window x \<longrightarrow> \<not> in_region buf n x \<longrightarrow> view_mem ?s x = view_mem s x"
    using str out by (simp_all only: mem) blast
  ultimately show ?thesis using call by blast
qed

text \<open>A read of more than 128 bytes copies what lies behind the line's array as well.\<close>

lemma terminal_read_long:
  assumes "buf \<noteq> 0" "128 \<le> n" "n \<le> 2 ^ 32" "wait_enter polls 0 = Some (i, kb)"
  shows "terminal_read beyond polls m fd buf (int n) =
    Some (128, store_bytes m buf (map (read_at beyond kb) [0..<n]), kb\<lparr>read_buf := replicate 128 0\<rparr>)"
proof -
  have "fold (\<lambda>j m. m(buf + of_nat j := 0)) [0..<128] m = store_bytes m buf (map (\<lambda>_. 0) [0..<128])"
    by (rule fold_store_bytes)
  moreover have "store_bytes (store_bytes m buf (map (\<lambda>_. 0) [0..<128])) buf (map (read_at beyond kb) [0..<n]) =
      store_bytes m buf (map (read_at beyond kb) [0..<n])"
    using store_bytes_over [of "map (read_at beyond kb) [0..<n]" "map (\<lambda>_. 0) [0..<128]" m buf] assms(2,3) by simp
  ultimately show ?thesis using assms(1,4) by (simp add: terminal_read_def copy_line_def Let_def fold_store_bytes)
qed

lemma view_mem_keyb:
  "drop_bit 22 (directory (pages (con kb)) 32) = drop_bit 22 (directory (kernel_pages s) 32) \<Longrightarrow> view_mem (s\<lparr>keyb := kb\<rparr>) = view_mem s"
  by (simp add: view_mem_def window_page_def cong: if_cong)

lemma kernel_line:
  assumes "kernel_ok S (s, k)" "kernel_types S xs d (s, k)" "region_in in_window buf n" "128 \<le> n" "n < 2 ^ 31"
  shows "length xs \<le> 128 \<and> 0 \<notin> set xs \<and> (\<exists>s'. kernel_call S SYS_READ 0 buf (of_nat n) (s, k) = Some (128, s', Suc k) \<and>
    kernel_ok S (s', Suc k) \<and> kernel_display (s', Suc k) = d \<and> load_bytes (view_mem s') buf 128 = xs @ replicate (128 - length xs) 0 \<and>
    (\<forall>x. in_window x \<longrightarrow> \<not> in_region buf n x \<longrightarrow> view_mem s' x = view_mem s x))"
proof -
  obtain i where i: "ent_flag (enter (envs S k) i) (active_terminal (con (enter (envs S k) i))) = 1"
    "\<forall>j < i. ent_flag (enter (envs S k) j) (active_terminal (con (enter (envs S k) j))) \<noteq> 1"
    and kb: "read_buf (enter (envs S k) i) = xs @ replicate (128 - length xs) 0" "screens (con (enter (envs S k) i)) = d"
      "mapped (con (enter (envs S k) i))" "in_range (view (con (enter (envs S k) i)) (active_terminal (con (enter (envs S k) i))))"
      "drop_bit 22 (directory (pages (con (enter (envs S k) i))) 32) = drop_bit 22 (directory (pages (con (keyb s))) 32)"
    and xs: "length xs \<le> 128" "0 \<notin> set xs"
    using assms(2) unfolding kernel_types.simps Let_def by blast
  let ?f = "enter (envs S k) i"
  define kb1 where "kb1 = ?f\<lparr>ent_flag := (ent_flag ?f)(active_terminal (con ?f) := 0)\<rparr>"
  define kb2 where "kb2 = kb1\<lparr>read_buf := replicate 128 0\<rparr>"
  define ys where "ys = map (read_at (past_read (envs S k)) kb1) [0..<n]"
  let ?m = "store_bytes (view_mem s) buf ys" let ?s = "(put_mem ?m s)\<lparr>keyb := kb2\<rparr>"
  have con: "con kb2 = con ?f" "read_buf kb1 = read_buf ?f" by (simp_all add: kb1_def kb2_def)
  have nz: "buf \<noteq> 0" using window_nonnull [OF assms(3)] assms(4) by simp
  have "wait_enter (enter (envs S k)) 0 = Some (i, kb1)" unfolding kb1_def by (rule wait_enter_first [OF i])
  then have "terminal_read (past_read (envs S k)) (enter (envs S k)) (view_mem s) 0 buf (int n) = Some (128, ?m, kb2)"
    using terminal_read_long [OF nz assms(4)] assms(5) by (simp add: ys_def kb2_def)
  moreover have "c_read (envs S k) 0 buf (int n) s = dev_read (envs S k) stdinTable 0 buf (int n) s"
    using std_tables(1,3) [of s] nz assms(1) by (simp add: c_read_def)
  ultimately have call: "kernel_call S SYS_READ 0 buf (of_nat n) (s, k) = Some (128, ?s, Suc k)"
    using sint_small [OF assms(5)] by (simp add: kernel_calls)
  have len: "length ys = n" by (simp add: ys_def)
  have mem: "view_mem ?s = ?m"
    using view_mem_keyb [of kb2 "put_mem ?m s"] kb(5) con(1) by (simp add: running_memory.get_put)
  have out: "\<not> in_region buf n x \<Longrightarrow> ?m x = view_mem s x" for x using len assms(5) by (simp add: store_bytes_outside)
  have "map (read_at (past_read (envs S k)) kb1) [0..<128] = read_buf ?f"
    using kb(1) con(2) xs(1) by (intro nth_equalityI) (simp_all add: read_at_def)
  then have ys: "take 128 ys = xs @ replicate (128 - length xs) 0" using kb(1) assms(4) by (simp add: ys_def take_map)
  have "take 128 (load_bytes ?m buf n) = take 128 ys" using len assms(5) by simp
  then have line: "load_bytes ?m buf 128 = xs @ replicate (128 - length xs) 0" using take_load_bytes [OF assms(4)] ys by simp
  obtain z where "kernel_side S k z" "view_mem s z = 0" using assms(1) by auto
  then have "kernel_side S (Suc k) z" "?m z = 0" using out [of z] assms(3) side_mono by (auto simp: kernel_side_def region_in_def)
  moreover have "fds_ok ?s" using assms(1) fds_ok_pcbs [of ?s s] by simp
  ultimately have "kernel_ok S (?s, Suc k)" using assms(1) kb(3,4) mem con(1) by auto
  moreover have "kernel_display (?s, Suc k) = d" using con(1) kb(2) by simp
  moreover have "load_bytes (view_mem ?s) buf 128 = xs @ replicate (128 - length xs) 0"
    "\<forall>x. in_window x \<longrightarrow> \<not> in_region buf n x \<longrightarrow> view_mem ?s x = view_mem s x" using line out by (simp_all only: mem) blast
  ultimately show ?thesis using call xs by blast
qed

interpretation kernel_files: user_files "kernel_os S" "kernel_ok S" in_window kernel_display show_char "kernel_feeds S"
  "kernel_holds S" kernel_given "kernel_types S" for S
proof unfold_locales
  fix x :: "kernel \<times> nat" and name xss n a xs buf d fd
  obtain s k where x [simp]: "x = (s, k)" by fastforce
  show "\<exists>fd s'. call (kernel_os S) SYS_OPEN a 0 0 x = Some (fd, s') \<and> fd \<noteq> -1 \<and> kernel_ok S s' \<and> kernel_display s' = kernel_display x \<and>
      kernel_feeds S fd n xss s' \<and> (\<forall>y. in_window y \<longrightarrow> mem_of (kernel_os S) s' y = mem_of (kernel_os S) x y) \<and>
      (\<forall>fd' k yss. kernel_feeds S fd' k yss x \<longrightarrow> fd' \<noteq> fd \<and> kernel_feeds S fd' k yss s')"
    if "kernel_ok S x" "kernel_holds S name n xss x" "cstr (mem_of (kernel_os S) x) a name" "region_in in_window a (Suc (length name))"
    using kernel_open_found [of S s k name n xss a] that by fastforce
  show "\<exists>s'. call (kernel_os S) SYS_GETARGS buf (of_nat n) 0 x = Some (0, s') \<and> kernel_ok S s' \<and> kernel_display s' = kernel_display x \<and>
      cstr (mem_of (kernel_os S) s') buf xs \<and>
      (\<forall>y. in_window y \<longrightarrow> \<not> in_region buf n y \<longrightarrow> mem_of (kernel_os S) s' y = mem_of (kernel_os S) x y) \<and>
      (\<forall>nm k xss. kernel_holds S nm k xss x \<longrightarrow> kernel_holds S nm k xss s')"
    if "kernel_ok S x" "kernel_given xs x" "region_in in_window buf n" "128 \<le> n" "length xs < n" "n < 2 ^ 31"
    using kernel_getargs [of S s k xs buf n] that by fastforce
  show "\<exists>s'. call (kernel_os S) SYS_CLOSE fd 0 0 x = Some (0, s') \<and> kernel_ok S s' \<and> kernel_display s' = kernel_display x \<and>
      mem_of (kernel_os S) s' = mem_of (kernel_os S) x" if "kernel_ok S x" "kernel_feeds S fd n xss x"
    using kernel_close [of S s k fd n xss] that by fastforce
  show "length xs \<le> 128 \<and> 0 \<notin> set xs \<and> (\<exists>s'. call (kernel_os S) SYS_READ 0 buf (of_nat n) x = Some (128, s') \<and> kernel_ok S s' \<and> kernel_display s' = d \<and>
      load_bytes (mem_of (kernel_os S) s') buf 128 = xs @ replicate (128 - length xs) 0 \<and>
      (\<forall>y. in_window y \<longrightarrow> \<not> in_region buf n y \<longrightarrow> mem_of (kernel_os S) s' y = mem_of (kernel_os S) x y))"
    if "kernel_ok S x" "kernel_types S xs d x" "region_in in_window buf n" "128 \<le> n" "n < 2 ^ 31"
    using kernel_line [of S s k xs d buf n] that by fastforce
qed

end
