(* ===== verification/Program_Runs.thy ===== *)
theory Program_Runs
  imports File_Calls
begin

text \<open>
  The user programs running on the kernel: the whole path from \<open>main\<close> through the interrupt gate, the
  dispatcher and the drivers to the screen.  Each statement is the program's lemma of \<open>user_files\<close> at the
  kernel.
\<close>

subsection \<open>What the screen shows\<close>

definition shows_text :: "u8 list \<Rightarrow> console \<Rightarrow> console \<Rightarrow> bool" where
  "shows_text zs c c' \<longleftrightarrow> active_terminal c' = active_terminal c \<and>
    view c' (active_terminal c) = fold vchar zs (view c (active_terminal c)) \<and>
    (\<forall>u \<in> {0, 1, 2}. u \<noteq> active_terminal c \<longrightarrow> view c' u = view c u)"

lemma shows_text_display:
  assumes "kernel_ok S (s, k)" "kernel_display (s', k') = fold show_char zs (kernel_display (s, k))"
  shows "shows_text zs (con (keyb s)) (con (keyb s'))"
proof -
  let ?c = "con (keyb s)" and ?c' = "con (keyb s')"
  have t: "active_terminal ?c \<in> {0, 1, 2}" using assms(1) by (simp add: mapped_def)
  have "screens ?c' = fold show_char zs (screens ?c)" using assms(2) by simp
  then have eq: "active_terminal ?c' = active_terminal ?c"
    "(\<lambda>t. if t \<in> {0, 1, 2} then view ?c' t else ([], 0, 0)) =
      (\<lambda>t. if t \<in> {0, 1, 2} then view ?c t else ([], 0, 0))(active_terminal ?c := fold vchar zs (view ?c (active_terminal ?c)))"
    using t by (simp_all only: screens_def show_chars [OF t] prod.inject if_True)
  have "view ?c' u = (if u = active_terminal ?c then fold vchar zs (view ?c (active_terminal ?c)) else view ?c u)" if "u \<in> {0, 1, 2}" for u
    using fun_cong [OF eq(2), of u] that by (simp split: if_splits)
  then show ?thesis using eq(1) t unfolding shows_text_def by metis
qed

subsection \<open>A volume with one file\<close>

text \<open>The sample volume with the entry's name, its type and the first three bytes of the file chosen.\<close>

definition volume :: "u8 \<Rightarrow> u8 \<Rightarrow> mem" where
  "volume c ty = store_bytes (store_bytes (store_bytes mounted_disk 0x10000 [c]) 0x10020 [ty]) 0x402000 [104, 105, 10]"

definition sample_sys :: "(string \<Rightarrow> u32) \<Rightarrow> sys_env" where
  "sample_sys lits = \<lparr>envs = (\<lambda>_. sample_env), depth = 1,
     user_regs = \<lparr>eax = 0, ebx = 0, ecx = 0, edx = 0, esi = 0, edi = 0, ebp = 0, sel_ds = 0x2B, sel_es = 0x2B, sel_fs = 0x2B\<rparr>,
     kstack = [], junk_regs = (0, 0), child = (\<lambda>_ _ _. None), literals = lits\<rparr>"

lemma sample_sys_simps [simp]: "envs (sample_sys lits) k = sample_env" "literals (sample_sys lits) = lits"
  by (simp_all add: sample_sys_def)

lemma window_unat: "in_window a \<longleftrightarrow> 0x8000000 \<le> unat a \<and> unat a < 0x8400000"
proof -
  have "drop_bit 22 a = 32 \<longleftrightarrow> unat a div 2 ^ 22 = 32"
    by (simp add: word_unat_eq_iff unat_drop_bit_eq drop_bit_eq_div unat_div)
  then show ?thesis unfolding in_window_def by auto
qed

lemma region_window:
  assumes "0x8000000 \<le> unat a" "unat a + n \<le> 0x8400000"
  shows "region_in in_window a n"
proof -
  have "in_window x" if "unat (x - a) < n" for x
  proof -
    have "unat (a + (x - a)) = unat a + unat (x - a)" using that assms(2) by (intro unat_add_lem [THEN iffD1]) simp
    then have "unat x = unat a + unat (x - a)" by simp
    then show ?thesis using that assms by (simp add: window_unat)
  qed
  then show ?thesis by (simp add: region_in_def in_region_def)
qed

lemma sample_side:
  assumes "same_side (sample_sys lits) k U m" "unat a + n \<le> 0x30000 \<or> 0x3002C \<le> unat a \<and> unat a + n \<le> 0x8000000"
  shows "load_bytes m a n = load_bytes U a n"
proof (rule load_bytes_cong)
  fix x assume x: "in_region a n x"
  have "unat (a + (x - a)) = unat a + unat (x - a)" using x assms(2) by (intro unat_add_lem [THEN iffD1]) (auto simp: in_region_def)
  then have eq: "unat x = unat a + unat (x - a)" by simp
  then have "unat x < 0x30000 \<or> 0x3002C \<le> unat x \<and> unat x < 0x8000000" using x assms(2) unfolding in_region_def by linarith
  moreover have "unat x - 0x30000 = unat (x - 0x30000)" if "0x30000 \<le> unat x"
    using that unat_sub [of "0x30000" x] by (simp add: word_le_nat_alt)
  moreover have "unat (x - 0x30000) \<ge> 44" if "unat x < 0x30000"
  proof -
    have "unat (x - 0x30000) = unat x + (2 ^ 32 - 0x30000)" using that by (simp add: unat_sub_if_size word_size word_le_nat_alt)
    then show ?thesis by simp
  qed
  ultimately have "kernel_side (sample_sys lits) k x"
    by (auto simp: kernel_side_def window_unat in_region_def sample_env_def)
  then show "m x = U x" using assms(1) by (simp add: same_side_def)
qed (use assms(2) in auto)

lemma volume_code:
  "load_bytes (volume 97 2) 0x10000 32 = 97 # replicate 31 0" "load_bytes (volume 46 1) 0x10000 32 = 46 # replicate 31 0"
  "load32 (volume 97 2) 0x10020 = ucast (2 :: u8)" "load32 (volume 46 1) 0x10020 = ucast (1 :: u8)"
  "map (load32 (volume 97 2)) [0x400000, 0x400004, 0x400008, 0x401000, 0x401004, 0x10024] = [1, 1, 1, 3, 0, 0]"
  "map (load32 (volume 46 1)) [0x400000, 0x400004, 0x400008, 0x401000, 0x401004, 0x10024] = [1, 1, 1, 3, 0, 0]"
  "load_bytes (volume 97 2) 0x402000 6 = [104, 105, 10, 0, 0, 0]" "load_bytes (volume 46 1) 0x402000 6 = [104, 105, 10, 0, 0, 0]"
  by code_simp+

lemma volume_words:
  assumes "(c, ty) \<in> {(97, 2), (46, 1)}"
  shows "load_bytes (volume c ty) 0x10000 32 = c # replicate 31 0" "load32 (volume c ty) 0x10020 = ucast ty"
    "map (load32 (volume c ty)) [0x400000, 0x400004, 0x400008, 0x401000, 0x401004, 0x10024] = [1, 1, 1, 3, 0, 0]"
    "load_bytes (volume c ty) 0x402000 6 = [104, 105, 10, 0, 0, 0]"
proof -
  consider "c = 97" "ty = 2" | "c = 46" "ty = 1" using assms by auto
  then have "load_bytes (volume c ty) 0x10000 32 = c # replicate 31 0 \<and> load32 (volume c ty) 0x10020 = ucast ty \<and>
    map (load32 (volume c ty)) [0x400000, 0x400004, 0x400008, 0x401000, 0x401004, 0x10024] = [1, 1, 1, 3, 0, 0] \<and>
    load_bytes (volume c ty) 0x402000 6 = [104, 105, 10, 0, 0, 0]"
    by cases (simp_all only: volume_code simp_thms)
  then show "load_bytes (volume c ty) 0x10000 32 = c # replicate 31 0" "load32 (volume c ty) 0x10020 = ucast ty"
    "map (load32 (volume c ty)) [0x400000, 0x400004, 0x400008, 0x401000, 0x401004, 0x10024] = [1, 1, 1, 3, 0, 0]"
    "load_bytes (volume c ty) 0x402000 6 = [104, 105, 10, 0, 0, 0]" by blast+
qed

lemma volume_side:
  assumes "same_side (sample_sys lits) k (volume c ty) m" "(c, ty) \<in> {(97, 2), (46, 1)}"
  shows "num_dentry m (fs_addr mounted) = 1" "entry_name m (entry_at mounted 0) = [c]"
    "load32 m (entry_at mounted 0 + 32) = ucast ty" "load32 m (entry_at mounted 0 + 36) = 0"
    "map (load32 m) [0x400004, 0x400008, 0x401000, 0x401004] = [1, 1, 3, 0]" "load_bytes m 0x402000 6 = [104, 105, 10, 0, 0, 0]"
proof -
  have at: "entry_at mounted 0 = 0x10000" "fs_addr mounted = 0x400000" by (simp_all add: entry_at_def mounted_def)
  have w: "load32 m a = load32 (volume c ty) a" if "unat a + 4 \<le> 0x30000 \<or> 0x3002C \<le> unat a \<and> unat a + 4 \<le> 0x8000000" for a
    using sample_side [OF assms(1) that] by (rule load32_cong)
  show "num_dentry m (fs_addr mounted) = 1" "load32 m (entry_at mounted 0 + 32) = ucast ty" "load32 m (entry_at mounted 0 + 36) = 0"
    "map (load32 m) [0x400004, 0x400008, 0x401000, 0x401004] = [1, 1, 3, 0]"
    using w volume_words(2,3) [OF assms(2)] by (simp_all add: num_dentry_def at)
  show "load_bytes m 0x402000 6 = [104, 105, 10, 0, 0, 0]" using sample_side [OF assms(1), of "0x402000" 6] volume_words(4) [OF assms(2)] by simp
  have "c \<noteq> 0" using assms(2) by auto
  then show "entry_name m (entry_at mounted 0) = [c]"
    using sample_side [OF assms(1), of "0x10000" 32] volume_words(1) [OF assms(2)] by (simp add: entry_name_def at)
qed

text \<open>A process on that volume with the memory \<open>U\<close> in its window.\<close>

definition sample_run :: "mem \<Rightarrow> kernel" where
  "sample_run U = put_mem U shell_running"

lemma sample_run_parts [simp]:
  "view_mem (sample_run U) = U" "fs (sample_run U) = mounted" "PCB_ptr (sample_run U) = pcb_addr 1" "keyb (sample_run U) = line_ready"
  "pcb_addr (get_process_count (sample_run U)) = pcb_addr 1" "free_fd (sample_run U) = Some 2" "fds_ok (sample_run U)"
proof -
  show "view_mem (sample_run U) = U" "fs (sample_run U) = mounted" "PCB_ptr (sample_run U) = pcb_addr 1"
    by (simp_all add: sample_run_def running_memory.get_put)
  show key: "keyb (sample_run U) = line_ready" by (simp add: sample_run_def shell_running_def)
  have "get_process_count (sample_run U) = 1"
    unfolding get_process_count_def active_term_def get_active_term_def key
    by (simp add: sample_run_def shell_running_def line_ready_def boot_console_def)
  then show "pcb_addr (get_process_count (sample_run U)) = pcb_addr 1" by simp
  show "free_fd (sample_run U) = Some 2" using flag_at_cong(2) [of "sample_run U" shell_running] shell_free by (simp add: sample_run_def)
  show "fds_ok (sample_run U)" using fds_ok_pcbs [of "sample_run U" shell_running] shell_running_fds by (simp add: sample_run_def)
qed

lemma sample_ok:
  assumes "same_side (sample_sys lits) k (volume c ty) U" "(c, ty) \<in> {(97, 2), (46, 1)}"
  shows "kernel_ok (sample_sys lits) (sample_run U, k)"
proof -
  have con: "con line_ready = boot_console" by (simp add: line_ready_def)
  have "U 0x402003 = 0" using arg_cong [OF volume_side(6) [OF assms], of "\<lambda>xs. xs ! 3"] by simp
  moreover have "kernel_side (sample_sys lits) k 0x402003" by (simp add: kernel_side_def window_unat in_region_def sample_env_def)
  moreover have "region_in (\<lambda>a. \<not> in_window a) 0x30000 44"
  proof -
    have "\<not> in_window x" if "unat (x - 0x30000) < 44" for x
    proof -
      have "unat (0x30000 + (x - 0x30000)) = unat (0x30000 :: u32) + unat (x - 0x30000)" using that by (intro unat_add_lem [THEN iffD1]) simp
      then have "unat x = 0x30000 + unat (x - 0x30000)" by simp
      then show ?thesis using that by (simp add: window_unat)
    qed
    then show ?thesis by (simp add: region_in_def in_region_def)
  qed
  ultimately show ?thesis using boot_console_mapped by (auto simp: con sample_env_def)
qed

lemma sample_volume:
  assumes "same_side (sample_sys lits) k (volume c ty) m" "(c, ty) \<in> {(97, 2), (46, 1)}"
    "fd_feed (sample_sys lits) k m mounted (opened (ucast ty) 0) n xss"
  shows "volume_has (sample_sys lits) k m mounted [c] (ucast ty) 0 n xss"
proof -
  note v = volume_side [OF assms(1,2)]
  have "directory_clear m mounted [c]" using v(1,2) by (simp add: directory_clear_def dentry_ok_def hides_def long_entry_def)
  moreover have "map_of (directory_of m mounted) [c] = Some (ucast ty, 0)" using v(1-4) by (simp add: directory_of_def)
  moreover have "disjoint_regions 0x30000 44 (fs_addr mounted) 4" "disjoint_regions (0x30000 :: u32) 44 (entry_at mounted 0) 44"
    by (rule disjoint_regions_apart, simp add: mounted_def entry_at_def)+
  ultimately show ?thesis using assms(3) v(1) by (simp add: volume_has_def sample_env_def)
qed

lemma sample_file:
  assumes "same_side (sample_sys lits) k (volume 97 2) U"
  shows "kernel_holds (sample_sys lits) [97] 1024 [[104, 105, 10]] (sample_run U, k)"
proof -
  have "volume_has (sample_sys lits) k m mounted [97] (ucast (2 :: u8)) 0 1024 [[104, 105, 10]]" if m: "same_side (sample_sys lits) k U m" for m
  proof (rule sample_volume)
    show side: "same_side (sample_sys lits) k (volume 97 2) m" using same_side_step(2) [OF assms m] .
    note v = volume_side(5,6) [OF side, simplified]
    have bytes: "map (\<lambda>i. m (0x402000 + of_nat i)) [0..<6] = [104, 105, 10, 0, 0, 0]" using v(2) by (simp add: load_bytes_def)
    have len: "get_length 0 m mounted = 3" "min 3 (1024 :: u32) = 3" "block_number m 0x401000 0 = 0" "block_base mounted 0 = 0x402000"
      using v(1) by (simp_all add: get_length_def mounted_def block_number_def block_base_def)
    have read: "file_readable m mounted 0 0" "file_readable m mounted 0 3"
      using v(1) len(3,4) by (simp_all add: file_readable_def Let_def mounted_def blocks_ok_def)
    have "file_bytes m mounted 0 0 3 = [104, 105, 10]" "file_byte m mounted 0x401000 3 = 0"
      using bytes len(3,4) by (simp_all add: file_bytes_def file_byte_def upt_rec mounted_def)
    then show "fd_feed (sample_sys lits) k m mounted (opened (ucast (2 :: u8)) 0) 1024 [[104, 105, 10]]"
      using len read by (simp add: fd_feed_def opened_def mounted_def)
  qed simp
  then show ?thesis unfolding kernel_holds.simps by (intro conjI exI [of _ "ucast (2 :: u8)"] exI [of _ 0]) simp_all
qed

lemma sample_directory:
  assumes "same_side (sample_sys lits) k (volume 46 1) U"
  shows "kernel_holds (sample_sys lits) [46] 32 [[46]] (sample_run U, k)"
proof -
  have "volume_has (sample_sys lits) k m mounted [46] (ucast (1 :: u8)) 0 32 [[46]]" if m: "same_side (sample_sys lits) k U m" for m
  proof (rule sample_volume)
    show side: "same_side (sample_sys lits) k (volume 46 1) m" using same_side_step(2) [OF assms m] .
    note v = volume_side(1,2) [OF side, simplified]
    have "disjoint_regions (0x30000 :: u32) 44 (entry_at mounted 0) 44"
      by (rule disjoint_regions_apart) (simp add: mounted_def entry_at_def)
    then show "fd_feed (sample_sys lits) k m mounted (opened (ucast (1 :: u8)) 0) 32 [[46]]"
      using v by (simp add: fd_feed_def opened_def dir_feed_def Let_def sample_env_def)
  qed simp
  then show ?thesis unfolding kernel_holds.simps by (intro conjI exI [of _ "ucast (1 :: u8)"] exI [of _ 0]) simp_all
qed

lemma side_window: "region_in in_window a (length bs) \<Longrightarrow> length bs \<le> 2 ^ 32 \<Longrightarrow> same_side S k m (store_bytes m a bs)"
  using store_bytes_outside [of bs a _ m] by (intro same_side_own) (auto simp: region_in_def)

subsection \<open>Properties\<close>







end
