(* ===== verification/Syserr.thy ===== *)
theory Syserr
  imports Program_Runs
begin

text \<open>
  The test program \<^verbatim>\<open>src/syscalls/ece391syserr.c\<close>: eight tests of what the system calls do with bad
  arguments.  Each test prints a line that says whether the kernel behaves as expected and returns 0
  or 2; on the kernel of this development every one passes.
\<close>

subsection \<open>The tests\<close>

abbreviation (input) NEG_FD :: u32 where "NEG_FD \<equiv> -1073741823"
abbreviation (input) BIG_FD :: u32 where "BIG_FD \<equiv> 1073741823"

text \<open>\<open>call_sys\<close> loads \<open>eax\<close> only; the other three registers hold what the compiler left in them.\<close>

fun call_sys :: "'s os \<Rightarrow> u32 \<times> u32 \<times> u32 \<Rightarrow> u32 \<Rightarrow> 's \<Rightarrow> (u32 \<times> 's) option" where
  "call_sys os (b, c, d) num s = call os num b c d s"

text \<open>The two patterns the tests are made of: a call that should have returned -1, and the verdict.\<close>

definition expect_error :: "'s os \<Rightarrow> string \<Rightarrow> (u32 \<times> 's) option \<Rightarrow> u32 \<Rightarrow> (u32 \<times> 's) option" where
  "expect_error os complaint outcome fail = do {
     (r, s) \<leftarrow> outcome;
     if -1 \<noteq> r then do { s \<leftarrow> puts_lit os complaint s; Some (2, s) } else Some (fail, s)
   }"

definition verdict :: "'s os \<Rightarrow> string \<Rightarrow> string \<Rightarrow> u32 \<Rightarrow> 's \<Rightarrow> (u32 \<times> 's) option" where
  "verdict os bad good fail s = do {
     s \<leftarrow> (if fail \<noteq> 0 then puts_lit os bad s else puts_lit os good s);
     Some (fail, s)
   }"

definition err_neg_fd :: "'s os \<Rightarrow> u32 \<Rightarrow> 's \<Rightarrow> (u32 \<times> 's) option" where
  "err_neg_fd os buf s = do {
     (fail, s) \<leftarrow> expect_error os ''read fail\<newline>'' (ece391_read os NEG_FD buf 31 s) 0;
     (fail, s) \<leftarrow> expect_error os ''write fail\<newline>'' (ece391_write os NEG_FD buf 31 s) fail;
     (fail, s) \<leftarrow> expect_error os ''close fail\<newline>'' (ece391_close os NEG_FD s) fail;
     verdict os ''err_neg_fd: FAIL\<newline>'' ''err_neg_fd: PASS\<newline>'' fail s
   }"

definition err_big_fd :: "'s os \<Rightarrow> u32 \<Rightarrow> 's \<Rightarrow> (u32 \<times> 's) option" where
  "err_big_fd os buf s = do {
     (fail, s) \<leftarrow> expect_error os ''read fail\<newline>'' (ece391_read os BIG_FD buf 31 s) 0;
     (fail, s) \<leftarrow> expect_error os ''write fail\<newline>'' (ece391_write os BIG_FD buf 31 s) fail;
     (fail, s) \<leftarrow> expect_error os ''close fail\<newline>'' (ece391_close os BIG_FD s) fail;
     verdict os ''err_big_fd: FAIL\<newline>'' ''err_big_fd: PASS\<newline>'' fail s
   }"

text \<open>The loops run over the counter; their bodies do not depend on it in the first.\<close>

definition open_dir :: "'s os \<Rightarrow> nat \<Rightarrow> int \<times> 's \<Rightarrow> (int \<times> 's) option" where
  "open_dir os i = (\<lambda>(cnt, s). do {
     (r, s) \<leftarrow> ece391_open os (lit os ''.'') s;
     Some (if -1 = r then cnt + 1 else cnt, s)
   })"

definition close_one :: "'s os \<Rightarrow> nat \<Rightarrow> 's \<Rightarrow> 's option" where
  "close_one os i s = do { (_, s) \<leftarrow> ece391_close os (of_nat i) s; Some s }"

definition err_open_lots :: "'s os \<Rightarrow> 's \<Rightarrow> (u32 \<times> 's) option" where
  "err_open_lots os s = do {
     (cnt, s) \<leftarrow> fold_opt (open_dir os) [0..<7] (0, s);
     s \<leftarrow> fold_opt (close_one os) [2..<8] s;
     if cnt = 1 then do { s \<leftarrow> puts_lit os ''err_open_lots: PASS\<newline>'' s; Some (0, s) }
     else do { s \<leftarrow> puts_lit os ''err_open_lots: FAIL\<newline>'' s; Some (2, s) }
   }"

definition err_open :: "'s os \<Rightarrow> 's \<Rightarrow> (u32 \<times> 's) option" where
  "err_open os s = do {
     (fail, s) \<leftarrow> expect_error os '''helloo' fail\<newline>'' (ece391_open os (lit os ''helloo'') s) 0;
     (fail, s) \<leftarrow> expect_error os '''shel' fail\<newline>'' (ece391_open os (lit os ''shel'') s) fail;
     (fail, s) \<leftarrow> expect_error os ''empty string fail\<newline>'' (ece391_open os (lit os '''') s) fail;
     verdict os ''err_open: FAIL\<newline>'' ''err_open: PASS\<newline>'' fail s
   }"

definition close_test :: "'s os \<Rightarrow> nat \<Rightarrow> u32 \<times> 's \<Rightarrow> (u32 \<times> 's) option" where
  "close_test os i = (\<lambda>(fail, s). expect_error os ''close unopened or invalid fd fail\<newline>'' (ece391_close os (of_nat i) s) fail)"

definition read_test :: "'s os \<Rightarrow> u32 \<Rightarrow> nat \<Rightarrow> u32 \<times> 's \<Rightarrow> (u32 \<times> 's) option" where
  "read_test os buf i = (\<lambda>(fail, s). expect_error os ''read from unopened fd fail\<newline>'' (ece391_read os (of_nat i) buf 31 s) fail)"

definition write_test :: "'s os \<Rightarrow> u32 \<Rightarrow> nat \<Rightarrow> u32 \<times> 's \<Rightarrow> (u32 \<times> 's) option" where
  "write_test os buf i = (\<lambda>(fail, s). expect_error os ''write to unopened fd fail\<newline>'' (ece391_write os (of_nat i) buf 31 s) fail)"

definition err_unopened :: "'s os \<Rightarrow> u32 \<Rightarrow> 's \<Rightarrow> (u32 \<times> 's) option" where
  "err_unopened os buf s = do {
     (fail, s) \<leftarrow> fold_opt (close_test os) [0..<8] (0, s);
     (fail, s) \<leftarrow> fold_opt (read_test os buf) [2..<8] (fail, s);
     (fail, s) \<leftarrow> fold_opt (write_test os buf) [2..<8] (fail, s);
     verdict os ''err_unopened: FAIL\<newline>'' ''err_unopened: PASS\<newline>'' fail s
   }"

definition err_vidmap :: "'s os \<Rightarrow> 's \<Rightarrow> (u32 \<times> 's) option" where
  "err_vidmap os s = do {
     (fail, s) \<leftarrow> expect_error os ''Null pointer fail\<newline>'' (ece391_vidmap os 0 s) 0;
     (fail, s) \<leftarrow> expect_error os ''Kernel pointer fail fail\<newline>'' (ece391_vidmap os 0x400000 s) fail;
     verdict os ''err_vidmap: FAIL\<newline>'' ''err_vidmap: PASS\<newline>'' fail s
   }"

definition err_stdin_out :: "'s os \<Rightarrow> u32 \<Rightarrow> 's \<Rightarrow> (u32 \<times> 's) option" where
  "err_stdin_out os buf s = do {
     (fail, s) \<leftarrow> expect_error os ''write to stdin fail\<newline>'' (ece391_write os 0 buf 31 s) 0;
     (fail, s) \<leftarrow> expect_error os ''read from stdout fail\<newline>'' (ece391_read os 1 buf 31 s) fail;
     verdict os ''err_stdin_out: FAIL\<newline>'' ''err_stdin_out: PASS\<newline>'' fail s
   }"

definition err_syscall_num :: "'s os \<Rightarrow> u32 \<times> u32 \<times> u32 \<Rightarrow> 's \<Rightarrow> (u32 \<times> 's) option" where
  "err_syscall_num os regs s = do {
     (fail, s) \<leftarrow> expect_error os ''syscall 0 fail\<newline>'' (call_sys os regs 1073741823 s) 0;
     (fail, s) \<leftarrow> expect_error os ''big num syscall fail\<newline>'' (call_sys os regs (-1073741823) s) fail;
     (fail, s) \<leftarrow> expect_error os ''neg num syscall fail\<newline>'' (call_sys os regs 0 s) fail;
     verdict os ''err_syscall_num: FAIL\<newline>'' ''err_syscall_num: PASS\<newline>'' fail s
   }"

text \<open>Each test has its own buffer on the stack; \<open>buf\<close> is that of \<open>main\<close>.\<close>

definition run_all :: "'s os \<Rightarrow> u32 \<Rightarrow> u32 \<times> u32 \<times> u32 \<Rightarrow> 's \<Rightarrow> (u32 \<times> 's) option" where
  "run_all os tbuf regs s = do {
     (f1, s) \<leftarrow> err_neg_fd os tbuf s;
     (f2, s) \<leftarrow> err_big_fd os tbuf s;
     (f3, s) \<leftarrow> err_open_lots os s;
     (f4, s) \<leftarrow> err_open os s;
     (f5, s) \<leftarrow> err_unopened os tbuf s;
     (f6, s) \<leftarrow> err_vidmap os s;
     (f7, s) \<leftarrow> err_stdin_out os tbuf s;
     (f8, s) \<leftarrow> err_syscall_num os regs s;
     verdict os ''\<newline>Overall Tests: FAIL\<newline>'' ''\<newline>Overall Tests: PASS\<newline>'' (f1 + f2 + f3 + f4 + f5 + f6 + f7 + f8) s
   }"

definition syserr_main :: "'s os \<Rightarrow> u32 \<Rightarrow> u32 \<Rightarrow> u32 \<times> u32 \<times> u32 \<Rightarrow> 's \<Rightarrow> (u32 \<times> 's) option" where
  "syserr_main os buf tbuf regs s = do {
     s \<leftarrow> puts_lit os ''Choose from tests 1-8. 0 to run all: '' s;
     (cnt, s) \<leftarrow> ece391_read os 0 buf 127 s;
     if -1 = cnt then do { s \<leftarrow> puts_lit os ''Can't read test #\<newline>'' s; Some (2, s) }
     else
       let sel = int (unat (mem_of os s buf)) - 48 in
       if sel = 0 then run_all os tbuf regs s
       else if sel = 1 then err_neg_fd os tbuf s
       else if sel = 2 then err_big_fd os tbuf s
       else if sel = 3 then err_open_lots os s
       else if sel = 4 then err_open os s
       else if sel = 5 then err_unopened os tbuf s
       else if sel = 6 then err_vidmap os s
       else if sel = 7 then err_stdin_out os tbuf s
       else if sel = 8 then err_syscall_num os regs s
       else do { s \<leftarrow> puts_lit os ''Invalid test number. Choose from tests 1-8 or 0'' s; Some (0, s) }
   }"

subsection \<open>A process that has opened the descriptors of a set\<close>

definition entry_of :: "sys_env \<Rightarrow> nat \<Rightarrow> mem \<Rightarrow> fs_state \<Rightarrow> u8 list \<Rightarrow> (u32 \<times> u32) option \<Rightarrow> bool" where
  "entry_of S k m st name r \<longleftrightarrow> directory_clear m st name \<and> map_of (directory_of m st) name = r \<and>
    (\<forall>j \<ge> k. disjoint_regions (local_dentry (envs S j)) 44 (fs_addr st) 4 \<and>
      (\<forall>i < unat (num_dentry m (fs_addr st)). disjoint_regions (local_dentry (envs S j)) 44 (entry_at st i) 44))"

text \<open>What the tests assume of the volume: a directory and no files of the two wrong names.\<close>

definition test_volume :: "sys_env \<Rightarrow> nat \<Rightarrow> mem \<Rightarrow> fs_state \<Rightarrow> bool" where
  "test_volume S k m st \<longleftrightarrow> entry_of S k m st (bytes_of ''helloo'') None \<and> entry_of S k m st (bytes_of ''shel'') None \<and>
    (\<exists>ty ino. ty \<le> 2 \<and> entry_of S k m st (bytes_of ''.'') (Some (ty, ino)))"

definition lit_ready :: "sys_env \<Rightarrow> mem \<Rightarrow> string \<Rightarrow> bool" where
  "lit_ready S m str \<longleftrightarrow> cstr m (literals S str) (bytes_of str) \<and> region_in in_window (literals S str) (Suc (length str)) \<and>
    13 \<notin> set (bytes_of str) \<and> length str < 2 ^ 31"

text \<open>The search for a free descriptor finds a zero word behind the array, so that it ends.\<close>

fun holding :: "sys_env \<Rightarrow> string set \<Rightarrow> nat set \<Rightarrow> kernel \<times> nat \<Rightarrow> bool" where
  "holding S strs U (s, k) \<longleftrightarrow> kernel_ok S (s, k) \<and> (\<forall>i \<in> {2..7}. flags (get_fd (PCB_ptr s) i s) \<noteq> 0 \<longleftrightarrow> i \<in> U) \<and>
    (\<forall>str \<in> strs. lit_ready S (view_mem s) str) \<and> (\<forall>m. same_side S k (view_mem s) m \<longrightarrow> test_volume S k m (fs s)) \<and>
    (\<forall>j \<ge> k. \<exists>i > 8. past_fds (envs S j) i = 0)"

declare holding.simps [simp del]

lemma entry_of_later: "entry_of S k m st name r \<Longrightarrow> entry_of S (Suc k) m (st\<lparr>dentry_addr := a\<rparr>) name r"
  by (simp add: entry_of_def directory_clear_def directory_of_def entry_at_def)

lemma test_volume_later:
  assumes "test_volume S k m st" "st' = st\<lparr>dentry_addr := a\<rparr> \<or> st' = st"
  shows "test_volume S (Suc k) m st'"
proof -
  have "st = st\<lparr>dentry_addr := dentry_addr st\<rparr>" by simp
  then obtain b where "st' = st\<lparr>dentry_addr := b\<rparr>" using assms(2) by metis
  then show ?thesis using assms(1) entry_of_later unfolding test_volume_def by blast
qed

lemma holding_step:
  assumes "holding S strs U (s, k)" "kernel_ok S (s', Suc k)" "same_side S k (view_mem s) (view_mem s')"
    "\<forall>a. in_window a \<longrightarrow> view_mem s' a = view_mem s a" "fs s' = (fs s)\<lparr>dentry_addr := a\<rparr> \<or> fs s' = fs s"
    "\<forall>i \<in> {2..7}. flags (get_fd (PCB_ptr s') i s') \<noteq> 0 \<longleftrightarrow> i \<in> V"
  shows "holding S strs V (s', Suc k)"
proof -
  have "lit_ready S (view_mem s') str" if "lit_ready S (view_mem s) str" for str
    using that cstr_cong [of "view_mem s" "literals S str" "bytes_of str" "view_mem s'"] assms(4)
    by (auto simp: lit_ready_def region_in_def bytes_of_def)
  moreover have "test_volume S (Suc k) m (fs s')" if "same_side S (Suc k) (view_mem s') m" for m
    using assms(1) same_side_step(1) [OF assms(3) that] test_volume_later assms(5) unfolding holding.simps by blast
  ultimately show ?thesis using assms(1,2,6) unfolding holding.simps by (meson Suc_leD)
qed

lemma holding_tick: "holding S strs U (s, k) \<Longrightarrow> holding S strs U (s, Suc k)"
proof -
  assume h: "holding S strs U (s, k)"
  then have "kernel_ok S (s, Suc k)" using kernel_ok_later [of S s k s] same_side_refl by (auto simp: holding.simps)
  then show ?thesis using h holding_step [OF h, of s] same_side_refl by (auto simp: holding.simps)
qed

text \<open>Printing.\<close>

lemma write_shape:
  assumes "fds_ok s" "kernel_call S SYS_WRITE 1 a n (s, k) = Some (r, s', k')"
  shows "\<exists>c m. s' = set_console c (put_mem m s) \<and> k' = Suc k"
proof -
  obtain v where v: "c_write (envs S k) 1 a (sint n) s = Some (v, s')" "k' = Suc k"
    using assms(2) by (cases "c_write (envs S k) 1 a (sint n) s") (auto simp: kernel_calls)
  show ?thesis
  proof (cases "a = 0")
    case True
    then have "s' = s" using v(1) by (simp add: c_write_def)
    then have "s' = set_console (con (keyb s)) (put_mem (view_mem s) s)" by (simp add: running_memory.put_get set_console_def)
    then show ?thesis using v(2) by blast
  next
    case False
    then show ?thesis using v std_tables [OF assms(1)] by (auto simp: c_write_def)
  qed
qed

lemma holding_puts:
  assumes "holding S strs U (s, k)" "str \<in> strs"
  shows "\<exists>s'. puts_lit (kernel_os S) str (s, k) = Some (s', Suc k) \<and> holding S strs U (s', Suc k) \<and>
    kernel_display (s', Suc k) = fold show_char (bytes_of str) (kernel_display (s, k))"
proof -
  have ok: "kernel_ok S (s, k)" "lit_ready S (view_mem s) str" using assms by (auto simp: holding.simps)
  have "cstr (mem_of (kernel_os S) (s, k)) (literals S str) (bytes_of str)" "13 \<notin> set (bytes_of str)"
    "region_in in_window (literals S str) (Suc (length (bytes_of str)))" "length (bytes_of str) < 2 ^ 31"
    using ok(2) by (simp_all add: lit_ready_def) (simp_all add: bytes_of_def)
  from kernel_user.fdputs_text [OF ok(1) this] obtain x where x: "puts_lit (kernel_os S) str (s, k) = Some x" "kernel_ok S x"
    "kernel_display x = fold show_char (bytes_of str) (kernel_display (s, k))" "mem_of (kernel_os S) x = view_mem s"
    unfolding kernel_os_simps by blast
  obtain s' k' where x' [simp]: "x = (s', k')" by fastforce
  obtain r n where "kernel_call S SYS_WRITE 1 (literals S str) n (s, k) = Some (r, s', k')"
    using x(1) by (auto simp: ece391_fdputs_def ece391_write_def split: bind_splits)
  then obtain c m where s': "s' = set_console c (put_mem m s)" "k' = Suc k" using write_shape ok(1) by fastforce
  have "holding S strs U (s', Suc k)"
    using assms(1) x(2,4) s' by (intro holding_step [OF assms(1)]) (auto simp: same_side_refl holding.simps set_console_def get_fd_def)
  then show ?thesis using x s'(2) by auto
qed

subsection \<open>Refused calls\<close>

lemma expect_refused: "expect_error os complaint (Some (-1, x)) fail = Some (fail, x)"
  by (simp add: expect_error_def)

lemma read_refused:
  assumes "sint fd < 0 \<or> 7 < sint fd \<or> sint fd = 1 \<or> flags (get_fd (PCB_ptr s) (nat (sint fd)) s) = 0"
  shows "ece391_read (kernel_os S) fd buf n (s, k) = Some (-1, s, Suc k)"
  using assms by (auto simp: ece391_read_def kernel_calls c_read_def)

lemma write_refused:
  assumes "sint fd \<le> 0 \<or> 7 < sint fd \<or> flags (get_fd (PCB_ptr s) (nat (sint fd)) s) = 0"
  shows "ece391_write (kernel_os S) fd buf n (s, k) = Some (-1, s, Suc k)"
  using assms by (auto simp: ece391_write_def kernel_calls c_write_def)

lemma close_refused:
  assumes "sint fd < 2 \<or> 7 < sint fd \<or> flags (get_fd (PCB_ptr s) (nat (sint fd)) s) = 0"
  shows "ece391_close (kernel_os S) fd (s, k) = Some (-1, s, Suc k)"
  using assms by (auto simp: ece391_close_def kernel_calls c_close_def)

text \<open>A test passes: from a process with nothing open it returns 0, having printed its line, with nothing
  open again.\<close>

definition passes :: "sys_env \<Rightarrow> string set \<Rightarrow> (kernel \<times> nat \<Rightarrow> (u32 \<times> kernel \<times> nat) option) \<Rightarrow> string \<Rightarrow> bool" where
  "passes S strs test str \<longleftrightarrow> (\<forall>x. holding S strs {} x \<longrightarrow> (\<exists>y. test x = Some (0, y) \<and> holding S strs {} y \<and>
    kernel_display y = fold show_char (bytes_of str) (kernel_display x)))"

lemma passesI:
  assumes "str \<in> strs" "\<And>s k. holding S strs {} (s, k) \<Longrightarrow> \<exists>s' k'. test (s, k) = verdict (kernel_os S) bad str 0 (s', k') \<and>
    holding S strs {} (s', k') \<and> kernel_display (s', k') = kernel_display (s, k)"
  shows "passes S strs test str"
  unfolding passes_def
proof (intro allI impI)
  fix x assume h: "holding S strs {} x"
  obtain s k where x: "x = (s, k)" by fastforce
  obtain s' k' where t: "test (s, k) = verdict (kernel_os S) bad str 0 (s', k')" "holding S strs {} (s', k')"
    "kernel_display (s', k') = kernel_display (s, k)" using assms(2) h x by blast
  obtain s2 where p: "puts_lit (kernel_os S) str (s', k') = Some (s2, Suc k')" "holding S strs {} (s2, Suc k')"
    "kernel_display (s2, Suc k') = fold show_char (bytes_of str) (kernel_display (s', k'))" using holding_puts [OF t(2) assms(1)] by blast
  have "test x = Some (0, s2, Suc k')" using x t(1) p(1) by (simp add: verdict_def)
  then show "\<exists>y. test x = Some (0, y) \<and> holding S strs {} y \<and> kernel_display y = fold show_char (bytes_of str) (kernel_display x)"
    using p(2,3) t(3) x by (intro exI [of _ "(s2, Suc k')"] conjI) simp_all
qed

lemma display_same: "kernel_display (s, k') = kernel_display (s, k)"
  by simp

lemma err_neg_fd_passes: "''err_neg_fd: PASS\<newline>'' \<in> strs \<Longrightarrow> passes S strs (err_neg_fd (kernel_os S) buf) ''err_neg_fd: PASS\<newline>''"
  by (rule passesI, assumption) (auto simp: err_neg_fd_def read_refused write_refused close_refused expect_refused
    intro!: exI holding_tick display_same)

lemma err_big_fd_passes: "''err_big_fd: PASS\<newline>'' \<in> strs \<Longrightarrow> passes S strs (err_big_fd (kernel_os S) buf) ''err_big_fd: PASS\<newline>''"
  by (rule passesI, assumption) (auto simp: err_big_fd_def read_refused write_refused close_refused expect_refused
    intro!: exI holding_tick display_same)

lemma err_stdin_out_passes:
  "''err_stdin_out: PASS\<newline>'' \<in> strs \<Longrightarrow> passes S strs (err_stdin_out (kernel_os S) buf) ''err_stdin_out: PASS\<newline>''"
  by (rule passesI, assumption) (auto simp: err_stdin_out_def read_refused write_refused expect_refused
    intro!: exI holding_tick display_same)

lemma err_vidmap_passes: "''err_vidmap: PASS\<newline>'' \<in> strs \<Longrightarrow> passes S strs (err_vidmap (kernel_os S)) ''err_vidmap: PASS\<newline>''"
  by (rule passesI, assumption) (auto simp: err_vidmap_def ece391_vidmap_def kernel_calls c_vidmap_def expect_refused
    intro!: exI holding_tick display_same)

lemma err_syscall_num_passes:
  "''err_syscall_num: PASS\<newline>'' \<in> strs \<Longrightarrow> passes S strs (err_syscall_num (kernel_os S) regs) ''err_syscall_num: PASS\<newline>''"
  by (rule passesI, assumption, cases regs) (auto simp: err_syscall_num_def kernel_calls expect_refused
    intro!: exI holding_tick display_same)

text \<open>The loops over unopened descriptors.\<close>

lemma fold_refused:
  assumes "\<And>i k. i \<in> set is \<Longrightarrow> f i (fail, s, k) = Some (fail, s, Suc k)"
  shows "fold_opt f is (fail, s, k) = Some (fail, s, k + length is)"
  using assms by (induction "is" arbitrary: k) simp_all

lemma holding_ticks: "holding S strs U (s, k) \<Longrightarrow> holding S strs U (s, k + n)"
  by (induction n) (simp_all add: holding_tick)

lemma small_sint: "i < 8 \<Longrightarrow> sint (of_nat i :: u32) = int i"
  by (rule sint_small) simp

lemma err_unopened_passes:
  assumes "''err_unopened: PASS\<newline>'' \<in> strs"
  shows "passes S strs (err_unopened (kernel_os S) buf) ''err_unopened: PASS\<newline>''"
proof (rule passesI [OF assms])
  fix s k assume h: "holding S strs {} (s, k)"
  have fl: "i < 2 \<or> flags (get_fd (PCB_ptr s) i s) = 0" if "i < 8" for i
    using h that unfolding holding.simps by (cases "i < 2") auto
  then have fl2: "flags (get_fd (PCB_ptr s) i s) = 0" if "2 \<le> i" "i < 8" for i using that by (meson not_less)
  let ?os = "kernel_os S" and ?k = "k + 8 + 6 + 6"
  have "fold_opt (close_test ?os) [0..<8] (0, s, k) = Some (0, s, k + length [0..<8])"
    using fl by (intro fold_refused) (auto simp: close_test_def close_refused small_sint expect_refused)
  moreover have "fold_opt (read_test ?os buf) [2..<8] (0, s, k') = Some (0, s, k' + length [2..<8])" for k'
    using fl2 by (intro fold_refused) (simp add: read_test_def read_refused small_sint expect_refused del: upt_rec_numeral)
  moreover have "fold_opt (write_test ?os buf) [2..<8] (0, s, k') = Some (0, s, k' + length [2..<8])" for k'
    using fl2 by (intro fold_refused) (simp add: write_test_def write_refused small_sint expect_refused del: upt_rec_numeral)
  ultimately have "err_unopened ?os buf (s, k) = verdict ?os ''err_unopened: FAIL\<newline>'' ''err_unopened: PASS\<newline>'' 0 (s, ?k)"
    by (simp add: err_unopened_def del: upt_rec_numeral)
  then show "\<exists>s' k'. err_unopened ?os buf (s, k) = verdict ?os ''err_unopened: FAIL\<newline>'' ''err_unopened: PASS\<newline>'' 0 (s', k') \<and>
      holding S strs {} (s', k') \<and> kernel_display (s', k') = kernel_display (s, k)"
    using holding_ticks [OF h, of 20] by (intro exI conjI) (simp_all add: ac_simps)
qed

subsection \<open>Opening\<close>

text \<open>An open that fails leaves its trace in the kernel's local structure only.\<close>

lemma populate_refused:
  assumes "holding S strs U (s, k)" "FD_Populate (envs S k) fname s = Some (-1, put_mem m (s\<lparr>fs := (fs s)\<lparr>dentry_addr := a\<rparr>\<rparr>))"
    "changes_only (local_dentry (envs S k)) 44 (view_mem s) m" "fname \<noteq> 0"
  shows "\<exists>s'. ece391_open (kernel_os S) fname (s, k) = Some (-1, s', Suc k) \<and> holding S strs U (s', Suc k) \<and>
    kernel_display (s', Suc k) = kernel_display (s, k)"
proof -
  let ?s = "put_mem m (s\<lparr>fs := (fs s)\<lparr>dentry_addr := a\<rparr>\<rparr>)"
  have ok: "kernel_ok S (s, k)" "\<forall>j \<ge> k. region_in (\<lambda>a. \<not> in_window a) (local_dentry (envs S j)) 44"
    using assms(1) by (auto simp: holding.simps)
  note side = changes_side [OF assms(3) ok(2)]
  have "fds_ok ?s" using ok(1) fds_ok_pcbs [of ?s s] by simp
  then have "kernel_ok S (?s, Suc k)" by (rule kernel_ok_later [OF ok(1)]) (simp_all add: side running_memory.get_put)
  then have "holding S strs U (?s, Suc k)"
    by (rule holding_step [OF assms(1)]) (use side assms(1) in \<open>auto simp: running_memory.get_put get_fd_def holding.simps\<close>)
  moreover have "ece391_open (kernel_os S) fname (s, k) = Some (-1, ?s, Suc k)"
    using assms(2,4) by (simp add: ece391_open_def kernel_calls c_open_def)
  ultimately show ?thesis by (intro exI [of _ ?s]) simp
qed

lemma holding_lookup:
  assumes "holding S strs U (s, k)" "str \<in> strs" "entry_of S k (view_mem s) (fs s) (bytes_of str) r" "str \<noteq> []" "length str \<le> 32"
  shows "lookup_ready (literals S str) (local_dentry (envs S k)) (bytes_of str) (view_mem s) (fs s)" "literals S str \<noteq> 0"
proof -
  have l: "cstr (view_mem s) (literals S str) (bytes_of str)" "region_in in_window (literals S str) (Suc (length str))"
    "region_in (\<lambda>a. \<not> in_window a) (local_dentry (envs S k)) 44"
    using assms(1,2) by (auto simp: holding.simps lit_ready_def)
  then show "lookup_ready (literals S str) (local_dentry (envs S k)) (bytes_of str) (view_mem s) (fs s)"
    using assms(3-5) window_disjoint [OF l(3,2)] by (auto simp: lookup_ready_def entry_of_def bytes_of_def)
  show "literals S str \<noteq> 0" using window_nonnull [OF l(2)] by simp
qed

lemma holding_end: "holding S strs U (s, k) \<Longrightarrow> \<exists>i. flag_at (envs S k) s i = 0"
proof -
  assume "holding S strs U (s, k)"
  then obtain i where "8 < i" "past_fds (envs S k) i = 0" unfolding holding.simps by blast
  then have "flag_at (envs S k) s i = 0" by (simp add: flag_at_def)
  then show ?thesis by blast
qed

lemma open_absent:
  assumes "holding S strs U (s, k)" "str \<in> strs" "entry_of S k (view_mem s) (fs s) (bytes_of str) r" "str \<noteq> []" "length str \<le> 32"
    "r = None \<or> free_fd s = None"
  shows "\<exists>s'. ece391_open (kernel_os S) (literals S str) (s, k) = Some (-1, s', Suc k) \<and> holding S strs U (s', Suc k) \<and>
    kernel_display (s', Suc k) = kernel_display (s, k)"
proof -
  obtain i where "flag_at (envs S k) s i = 0" using holding_end [OF assms(1)] by blast
  then obtain m a where "FD_Populate (envs S k) (literals S str) s = Some (-1, put_mem m (s\<lparr>fs := (fs s)\<lparr>dentry_addr := a\<rparr>\<rparr>))"
    "changes_only (local_dentry (envs S k)) 44 (view_mem s) m"
    using FD_Populate_refuses [OF holding_lookup(1) [OF assms(1-5)], of i] assms(3,6) by (auto simp: entry_of_def)
  then show ?thesis using populate_refused [OF assms(1)] holding_lookup(2) [OF assms(1-5)] by blast
qed

lemma open_empty:
  assumes "holding S strs U (s, k)" "'''' \<in> strs"
  shows "\<exists>s'. ece391_open (kernel_os S) (literals S '''') (s, k) = Some (-1, s', Suc k) \<and> holding S strs U (s', Suc k) \<and>
    kernel_display (s', Suc k) = kernel_display (s, k)"
proof -
  let ?f = "literals S ''''" and ?e = "envs S k"
  have l: "cstr (view_mem s) ?f []" "region_in in_window ?f (Suc 0)" "\<exists>z. view_mem s z = 0"
    using assms by (auto simp: holding.simps lit_ready_def bytes_of_def)
  have nz: "?f \<noteq> 0" using window_nonnull [OF l(2)] by simp
  have "\<exists>a. find_dentry N 0 ?f 0 (local_dentry ?e) (view_mem s) (fs s) = Some (-1, view_mem s, (fs s)\<lparr>dentry_addr := a\<rparr>)" for N
  proof (cases N)
    case 0
    then show ?thesis by (intro exI [of _ "dentry_addr (fs s)"]) simp
  next
    case (Suc n)
    then show ?thesis using strlen_returns_iff [of "view_mem s" "dentries (fs s)"] l(3) by (auto simp: Let_def)
  qed
  then obtain a where "read_dentry_by_name ?f (local_dentry ?e) (view_mem s) (fs s) = Some (-1, view_mem s, (fs s)\<lparr>dentry_addr := a\<rparr>)"
    using strlen_cstr [OF l(1)] by (auto simp: read_dentry_by_name_def)
  moreover obtain i where "find_fd (flag_at ?e (s\<lparr>fs := (fs s)\<lparr>dentry_addr := a\<rparr>\<rparr>)) 0 = Some i"
    using find_fd_first [OF holding_end [OF assms(1)]] flag_at_cong(1) [of "s\<lparr>fs := (fs s)\<lparr>dentry_addr := a\<rparr>\<rparr>" s ?e] by auto
  ultimately have "FD_Populate ?e ?f s = Some (-1, put_mem (view_mem s) (s\<lparr>fs := (fs s)\<lparr>dentry_addr := a\<rparr>\<rparr>))"
    by (simp add: FD_Populate_def Let_def running_memory.put_get)
  then show ?thesis using populate_refused [OF assms(1)] nz changes_only_refl by blast
qed

lemma holding_volume: "holding S strs U (s, k) \<Longrightarrow> test_volume S k (view_mem s) (fs s)"
  using same_side_refl by (auto simp: holding.simps)

lemma err_open_passes:
  assumes "{''err_open: PASS\<newline>'', ''helloo'', ''shel'', ''''} \<subseteq> strs"
  shows "passes S strs (err_open (kernel_os S)) ''err_open: PASS\<newline>''"
proof (rule passesI)
  fix s k assume h: "holding S strs {} (s, k)"
  let ?os = "kernel_os S"
  obtain s1 where 1: "ece391_open ?os (literals S ''helloo'') (s, k) = Some (-1, s1, Suc k)" "holding S strs {} (s1, Suc k)"
    "kernel_display (s1, Suc k) = kernel_display (s, k)"
    using open_absent [OF h, of "''helloo''" None] holding_volume [OF h] assms by (auto simp: test_volume_def)
  obtain s2 where 2: "ece391_open ?os (literals S ''shel'') (s1, Suc k) = Some (-1, s2, Suc (Suc k))" "holding S strs {} (s2, Suc (Suc k))"
    "kernel_display (s2, Suc (Suc k)) = kernel_display (s1, Suc k)"
    using open_absent [OF 1(2), of "''shel''" None] holding_volume [OF 1(2)] assms by (auto simp: test_volume_def)
  obtain s3 where 3: "ece391_open ?os (literals S '''') (s2, Suc (Suc k)) = Some (-1, s3, Suc (Suc (Suc k)))"
    "holding S strs {} (s3, Suc (Suc (Suc k)))" "kernel_display (s3, Suc (Suc (Suc k))) = kernel_display (s2, Suc (Suc k))"
    using open_empty [OF 2(2)] assms by blast
  show "\<exists>s' k'. err_open ?os (s, k) = verdict ?os ''err_open: FAIL\<newline>'' ''err_open: PASS\<newline>'' 0 (s', k') \<and>
      holding S strs {} (s', k') \<and> kernel_display (s', k') = kernel_display (s, k)"
    using 1 2 3 by (intro exI [of _ s3] exI [of _ "Suc (Suc (Suc k))"]) (simp add: err_open_def expect_refused)
qed (use assms in simp)

lemma open_next:
  assumes "holding S strs {2..<2 + n} (s, k)" "''.'' \<in> strs" "n < 6"
  shows "\<exists>s'. open_dir (kernel_os S) i (cnt, s, k) = Some (cnt, s', Suc k) \<and> holding S strs {2..<2 + Suc n} (s', Suc k) \<and>
    kernel_display (s', Suc k) = kernel_display (s, k)"
proof -
  let ?f = "literals S ''.''" and ?e = "envs S k" and ?p = "PCB_ptr s"
  obtain ty ino where ty: "ty \<le> 2" "entry_of S k (view_mem s) (fs s) (bytes_of ''.'') (Some (ty, ino))"
    using holding_volume [OF assms(1)] by (auto simp: test_volume_def)
  have look: "lookup_ready ?f (local_dentry ?e) (bytes_of ''.'') (view_mem s) (fs s)" "?f \<noteq> 0"
    using holding_lookup [OF assms(1,2) ty(2)] by simp_all
  have ok: "kernel_ok S (s, k)" "fds_ok s" "\<forall>j \<ge> k. region_in (\<lambda>a. \<not> in_window a) (local_dentry (envs S j)) 44"
    and fl: "\<forall>i \<in> {2..7}. flags (get_fd ?p i s) \<noteq> 0 \<longleftrightarrow> i \<in> {2..<2 + n}"
    using assms(1) by (auto simp: holding.simps)
  have free: "free_fd s = Some (2 + n)"
  proof -
    have "flags (get_fd ?p j s) \<noteq> 0" if "j < 2 + n" for j
      using fds_ok_std [OF ok(2)] fl that assms(3) by (cases "j < 2") (auto simp: less_2_cases_iff)
    moreover have "flags (get_fd ?p (2 + n) s) = 0" using fl assms(3) by auto
    ultimately show ?thesis using assms(3) unfolding free_fd_def find_Some_iff by (intro exI [of _ "2 + n"]) (simp del: upt_rec_numeral)
  qed
  obtain m a c where run: "c_open ?e ?f s = Some (int (2 + n), (set_fd ?p (2 + n) (opened ty ino) (put_mem m (s\<lparr>fs := (fs s)\<lparr>dentry_addr := a\<rparr>\<rparr>)))\<lparr>rtc := c\<rparr>)"
    "changes_only (local_dentry ?e) 44 (view_mem s) m"
    using c_open_opens [OF look _ ty(1) free] ty(2) unfolding entry_of_def by blast
  let ?s = "(set_fd ?p (2 + n) (opened ty ino) (put_mem m (s\<lparr>fs := (fs s)\<lparr>dentry_addr := a\<rparr>\<rparr>)))\<lparr>rtc := c\<rparr>"
  note side = changes_side [OF run(2) ok(3)]
  have "fds_ok ?s" using c_open_ok [OF ok(2) run(1)] by blast
  then have "kernel_ok S (?s, Suc k)" by (rule kernel_ok_later [OF ok(1)]) (simp_all add: side running_memory.get_put)
  then have "holding S strs {2..<2 + Suc n} (?s, Suc k)"
    by (rule holding_step [OF assms(1)]) (use side fl in \<open>auto simp: running_memory.get_put opened_def\<close>)
  moreover have "(of_nat (2 + n) :: u32) \<noteq> -1" using assms(3) count_word [of "2 + n"] by simp
  then have "open_dir (kernel_os S) i (cnt, s, k) = Some (cnt, ?s, Suc k)"
    using run(1) by (simp add: open_dir_def ece391_open_def kernel_calls)
  ultimately show ?thesis by (intro exI [of _ ?s]) simp
qed

lemma open_many:
  assumes "holding S strs {} (s, k)" "''.'' \<in> strs" "n \<le> 6"
  shows "\<exists>s'. fold_opt (open_dir (kernel_os S)) [0..<n] (0, s, k) = Some (0, s', k + n) \<and> holding S strs {2..<2 + n} (s', k + n) \<and>
    kernel_display (s', k + n) = kernel_display (s, k)"
  using assms(3)
proof (induction n)
  case 0
  then show ?case using assms(1) by simp
next
  case (Suc n)
  then obtain s' where s': "fold_opt (open_dir (kernel_os S)) [0..<n] (0, s, k) = Some (0, s', k + n)" "holding S strs {2..<2 + n} (s', k + n)"
    "kernel_display (s', k + n) = kernel_display (s, k)" by auto
  obtain s2 where "open_dir (kernel_os S) n (0, s', k + n) = Some (0, s2, Suc (k + n))" "holding S strs {2..<2 + Suc n} (s2, Suc (k + n))"
    "kernel_display (s2, Suc (k + n)) = kernel_display (s', k + n)"
    using open_next [OF s'(2) assms(2), of n 0] Suc(2) by auto
  then show ?case using s' by (simp add: fold_opt_append)
qed

lemma open_seventh:
  assumes "holding S strs {2..<8} (s, k)" "''.'' \<in> strs"
  shows "\<exists>s'. open_dir (kernel_os S) i (cnt, s, k) = Some (cnt + 1, s', Suc k) \<and> holding S strs {2..<8} (s', Suc k) \<and>
    kernel_display (s', Suc k) = kernel_display (s, k)"
proof -
  obtain ty ino where "entry_of S k (view_mem s) (fs s) (bytes_of ''.'') (Some (ty, ino))"
    using holding_volume [OF assms(1)] by (auto simp: test_volume_def)
  note entry = this
  have "flags (get_fd (PCB_ptr s) j s) \<noteq> 0" if "j < 8" for j
  proof (cases "j < 2")
    case True
    have "fds_ok s" using assms(1) by (simp add: holding.simps)
    then show ?thesis using fds_ok_std [of s] True by (auto simp: less_2_cases_iff)
  next
    case False
    then show ?thesis using assms(1) that unfolding holding.simps by simp
  qed
  then have "free_fd s = None" by (auto simp: free_fd_def find_None_iff simp del: upt_rec_numeral)
  then obtain s' where "ece391_open (kernel_os S) (literals S ''.'') (s, k) = Some (-1, s', Suc k)" "holding S strs {2..<8} (s', Suc k)"
    "kernel_display (s', Suc k) = kernel_display (s, k)"
    using open_absent [OF assms entry] by auto
  then show ?thesis by (intro exI [of _ s']) (simp add: open_dir_def)
qed

lemma close_next:
  assumes "holding S strs {i..<8} (s, k)" "2 \<le> i" "i < 8"
  shows "\<exists>s'. close_one (kernel_os S) i (s, k) = Some (s', Suc k) \<and> holding S strs {Suc i..<8} (s', Suc k) \<and>
    kernel_display (s', Suc k) = kernel_display (s, k)"
proof -
  let ?s = "set_fd (PCB_ptr s) i closed_fd s"
  have ok: "kernel_ok S (s, k)" and fl: "\<forall>j \<in> {2..7}. flags (get_fd (PCB_ptr s) j s) \<noteq> 0 \<longleftrightarrow> j \<in> {i..<8}"
    using assms(1) by (auto simp: holding.simps)
  have run: "c_close (int i) s = (0, ?s)" using assms(2,3) fl by (auto simp: c_close_def)
  have "fds_ok ?s" using c_close_ok [OF _ run] ok by simp
  then have "kernel_ok S (?s, Suc k)" by (rule kernel_ok_later [OF ok]) (simp_all add: same_side_refl)
  moreover have "\<forall>j \<in> {2..7}. flags (get_fd (PCB_ptr ?s) j ?s) \<noteq> 0 \<longleftrightarrow> j \<in> {Suc i..<8}"
  proof
    fix j :: nat assume j: "j \<in> {2..7}"
    then have "flags (get_fd (PCB_ptr s) j s) \<noteq> 0 \<longleftrightarrow> j \<in> {i..<8}" using fl by blast
    then show "flags (get_fd (PCB_ptr ?s) j ?s) \<noteq> 0 \<longleftrightarrow> j \<in> {Suc i..<8}" by (cases "j = i") (auto simp: closed_fd_def)
  qed
  ultimately have "holding S strs {Suc i..<8} (?s, Suc k)"
    by (intro holding_step [OF assms(1)]) (simp_all only: same_side_refl view_mem_simps kernel_set_fd simp_thms)
  moreover have "close_one (kernel_os S) i (s, k) = Some (?s, Suc k)"
    using run assms(3) by (simp add: close_one_def ece391_close_def kernel_calls small_sint)
  ultimately show ?thesis by (intro exI [of _ ?s]) simp
qed

lemma close_many:
  assumes "holding S strs {i..<8} (s, k)" "2 \<le> i" "i \<le> 8"
  shows "\<exists>s' k'. fold_opt (close_one (kernel_os S)) [i..<8] (s, k) = Some (s', k') \<and> holding S strs {} (s', k') \<and>
    kernel_display (s', k') = kernel_display (s, k)"
  using assms
proof (induction "8 - i" arbitrary: i s k)
  case 0
  then show ?case by auto
next
  case (Suc n)
  then have i: "i < 8" by simp
  obtain s1 where 1: "close_one (kernel_os S) i (s, k) = Some (s1, Suc k)" "holding S strs {Suc i..<8} (s1, Suc k)"
    "kernel_display (s1, Suc k) = kernel_display (s, k)" using close_next [OF Suc(3,4) i] by blast
  have "n = 8 - Suc i" "2 \<le> Suc i" "Suc i \<le> 8" using Suc(2,4) i by simp_all
  then obtain s2 k2 where "fold_opt (close_one (kernel_os S)) [Suc i..<8] (s1, Suc k) = Some (s2, k2)" "holding S strs {} (s2, k2)"
    "kernel_display (s2, k2) = kernel_display (s1, Suc k)"
    using Suc(1) [OF _ 1(2)] by blast
  moreover have "[i..<8] = i # [Suc i..<8]" using i by (rule upt_conv_Cons)
  ultimately show ?case using 1 by (simp del: upt_rec_numeral)
qed

lemma err_open_lots_passes:
  assumes "{''err_open_lots: PASS\<newline>'', ''.''} \<subseteq> strs"
  shows "passes S strs (err_open_lots (kernel_os S)) ''err_open_lots: PASS\<newline>''"
  unfolding passes_def
proof (intro allI impI)
  fix x assume h: "holding S strs {} x"
  let ?os = "kernel_os S" and ?pass = "''err_open_lots: PASS\<newline>''"
  have lits: "''.'' \<in> strs" "?pass \<in> strs" using assms by auto
  obtain s k where x: "x = (s, k)" by fastforce
  obtain s1 where 1: "fold_opt (open_dir ?os) [0..<6] (0, s, k) = Some (0, s1, k + 6)" "holding S strs {2..<2 + 6} (s1, k + 6)"
    "kernel_display (s1, k + 6) = kernel_display (s, k)" using open_many [OF _ lits(1), of S s k 6] h x by blast
  obtain s2 where 2: "open_dir ?os 6 (0, s1, k + 6) = Some (0 + 1, s2, Suc (k + 6))" "holding S strs {2..<8} (s2, Suc (k + 6))"
    "kernel_display (s2, Suc (k + 6)) = kernel_display (s1, k + 6)" using open_seventh [OF _ lits(1)] 1(2) by fastforce
  obtain s3 k3 where 3: "fold_opt (close_one ?os) [2..<8] (s2, Suc (k + 6)) = Some (s3, k3)" "holding S strs {} (s3, k3)"
    "kernel_display (s3, k3) = kernel_display (s2, Suc (k + 6))" using close_many [OF 2(2)] by auto
  obtain s4 where 4: "puts_lit ?os ?pass (s3, k3) = Some (s4, Suc k3)" "holding S strs {} (s4, Suc k3)"
    "kernel_display (s4, Suc k3) = fold show_char (bytes_of ?pass) (kernel_display (s3, k3))" using holding_puts [OF 3(2) lits(2)] by blast
  have "[0..<7] = [0..<6] @ [6 :: nat]" by (simp add: upt_rec)
  then have "fold_opt (open_dir ?os) [0..<7] (0, x) = Some (1, s2, Suc (k + 6))"
    using 1(1) 2(1) x by (simp only: fold_opt_append) simp
  then have "err_open_lots ?os x = Some (0, s4, Suc k3)" using 3(1) 4(1) by (simp add: err_open_lots_def del: upt_rec_numeral)
  then show "\<exists>y. err_open_lots ?os x = Some (0, y) \<and> holding S strs {} y \<and> kernel_display y = fold show_char (bytes_of ?pass) (kernel_display x)"
    using 4(2,3) 3(3) 2(3) 1(3) x by (intro exI [of _ "(s4, Suc k3)"]) simp
qed

subsection \<open>Properties\<close>

definition syserr_lits :: "string list" where
  "syserr_lits = [''err_neg_fd: PASS\<newline>'', ''err_big_fd: PASS\<newline>'', ''err_open_lots: PASS\<newline>'', ''err_open: PASS\<newline>'',
     ''err_unopened: PASS\<newline>'', ''err_vidmap: PASS\<newline>'', ''err_stdin_out: PASS\<newline>'', ''err_syscall_num: PASS\<newline>'',
     ''\<newline>Overall Tests: PASS\<newline>'', ''.'', ''helloo'', ''shel'', '''']"

lemma passes_bind:
  assumes "passes S strs f t1" "passes S strs (g 0) t2"
  shows "passes S strs (\<lambda>x. f x \<bind> (\<lambda>(r, y). g r y)) (t1 @ t2)"
  unfolding passes_def
proof (intro allI impI)
  fix x assume "holding S strs {} x"
  then obtain y where y: "f x = Some (0, y)" "holding S strs {} y" "kernel_display y = fold show_char (bytes_of t1) (kernel_display x)"
    using assms(1) unfolding passes_def by blast
  then obtain z where "g 0 y = Some (0, z)" "holding S strs {} z" "kernel_display z = fold show_char (bytes_of t2) (kernel_display y)"
    using assms(2) unfolding passes_def by blast
  then show "\<exists>z. f x \<bind> (\<lambda>(r, y). g r y) = Some (0, z) \<and> holding S strs {} z \<and>
      kernel_display z = fold show_char (bytes_of (t1 @ t2)) (kernel_display x)"
    using y by (intro exI [of _ z]) (simp add: bytes_of_def)
qed

text \<open>C14: all eight tests of the error-test program pass on the kernel: run one after the other by a
  process with nothing open but the keyboard and the screen, they return 0, print their eight
  lines and the overall verdict on the running terminal, and leave nothing open.  (The volume
  has a directory and no files \<open>helloo\<close> and \<open>shel\<close>.)\<close>

theorem syserr_tests_pass:
  assumes "holding S (set syserr_lits) {} (s, k)"
  shows "\<exists>s' k'. run_all (kernel_os S) tbuf regs (s, k) = Some (0, s', k') \<and> holding S (set syserr_lits) {} (s', k') \<and>
    shows_text (bytes_of (concat (take 9 syserr_lits))) (con (keyb s)) (con (keyb s'))"
proof -
  let ?P = "passes S (set syserr_lits)" and ?H = "holding S (set syserr_lits) {}"
  have tests: "?P (err_neg_fd (kernel_os S) tbuf) ''err_neg_fd: PASS\<newline>''" "?P (err_big_fd (kernel_os S) tbuf) ''err_big_fd: PASS\<newline>''"
    "?P (err_open_lots (kernel_os S)) ''err_open_lots: PASS\<newline>''" "?P (err_open (kernel_os S)) ''err_open: PASS\<newline>''"
    "?P (err_unopened (kernel_os S) tbuf) ''err_unopened: PASS\<newline>''" "?P (err_vidmap (kernel_os S)) ''err_vidmap: PASS\<newline>''"
    "?P (err_stdin_out (kernel_os S) tbuf) ''err_stdin_out: PASS\<newline>''" "?P (err_syscall_num (kernel_os S) regs) ''err_syscall_num: PASS\<newline>''"
    by (intro err_neg_fd_passes err_big_fd_passes err_open_lots_passes err_open_passes err_unopened_passes err_vidmap_passes
      err_stdin_out_passes err_syscall_num_passes; simp add: syserr_lits_def)+
  have overall: "?P (verdict (kernel_os S) ''\<newline>Overall Tests: FAIL\<newline>'' ''\<newline>Overall Tests: PASS\<newline>'' 0) ''\<newline>Overall Tests: PASS\<newline>''"
    by (rule passesI) (auto simp: syserr_lits_def)
  have "?P (run_all (kernel_os S) tbuf regs) (''err_neg_fd: PASS\<newline>'' @ ''err_big_fd: PASS\<newline>'' @ ''err_open_lots: PASS\<newline>'' @
      ''err_open: PASS\<newline>'' @ ''err_unopened: PASS\<newline>'' @ ''err_vidmap: PASS\<newline>'' @ ''err_stdin_out: PASS\<newline>'' @
      ''err_syscall_num: PASS\<newline>'' @ ''\<newline>Overall Tests: PASS\<newline>'')"
    unfolding run_all_def [abs_def] by (intro passes_bind tests) (use overall in simp)
  then have "?P (run_all (kernel_os S) tbuf regs) (concat (take 9 syserr_lits))" by (simp add: syserr_lits_def)
  then obtain y where y: "run_all (kernel_os S) tbuf regs (s, k) = Some (0, y)" "?H y"
    "kernel_display y = fold show_char (bytes_of (concat (take 9 syserr_lits))) (kernel_display (s, k))"
    using assms unfolding passes_def by blast
  obtain s' k' where "y = (s', k')" by fastforce
  moreover have "kernel_ok S (s, k)" using assms by (simp add: holding.simps)
  ultimately show ?thesis using y shows_text_display by blast
qed

theorem syserr_tests_pass_witness:
  "\<exists>s' k'. run_all (kernel_os (sample_sys (pool_at 0x8000000 syserr_lits))) 0x8001000 (0, 0, 0)
      (sample_run (literal_pool 0x8000000 syserr_lits (volume 46 1)), 0) = Some (0, s', k') \<and>
    shows_text (bytes_of (concat (take 9 syserr_lits))) boot_console (con (keyb s'))"
proof -
  let ?S = "sample_sys (pool_at 0x8000000 syserr_lits)" and ?U = "literal_pool 0x8000000 syserr_lits (volume 46 1)"
  have strs: "\<forall>str \<in> set syserr_lits. pool_string str \<and> 13 \<notin> set (bytes_of str)" "length syserr_lits = 13"
    by (simp_all add: syserr_lits_def pool_string_def bytes_of_def)
  have "changes_only 0x8000000 1664 (volume 46 1) ?U"
    using literal_pool_outside [of 0 syserr_lits 1664 "0x8000000" "volume 46 1"] strs by simp
  moreover have "region_in in_window 0x8000000 1664" by (rule region_window) simp_all
  ultimately have side: "same_side ?S 0 (volume 46 1) ?U" by (intro same_side_own) (auto simp: changes_only_def region_in_def)
  have "lit_ready ?S ?U str" if str: "str \<in> set syserr_lits" for str
  proof -
    obtain i where i: "i < 13" "pool_at 0x8000000 syserr_lits str = 0x8000000 + of_nat (128 * i)"
      using pool_at_offset [OF str, of "0x8000000"] strs(2) by auto
    have u: "unat (0x8000000 + of_nat (128 * i) :: u32) = 0x8000000 + 128 * i"
      using i(1) unat_of_nat32 [of "0x8000000 + 128 * i"] by simp
    have "length str < 128" using strs(1) str by (simp add: pool_string_def)
    then have "region_in in_window (0x8000000 + of_nat (128 * i)) (Suc (length str))"
      using i(1) u by (intro region_window) simp_all
    moreover have "cstr ?U (pool_at 0x8000000 syserr_lits str) (bytes_of str)" using strs by (intro literal_pool_at str) simp_all
    ultimately show ?thesis using strs(1) str i(2) \<open>length str < 128\<close> by (simp add: lit_ready_def)
  qed
  moreover have "test_volume ?S 0 m mounted" if "same_side ?S 0 ?U m" for m
  proof -
    note v = volume_side(1-4) [OF same_side_step(2) [OF side that], simplified]
    have "disjoint_regions 0x30000 44 (fs_addr mounted) 4" "disjoint_regions (0x30000 :: u32) 44 (entry_at mounted 0) 44"
      by (rule disjoint_regions_apart, simp add: mounted_def entry_at_def)+
    then have "entry_of ?S 0 m mounted name (map_of [([46], 1, 0)] name)" if "length name < 32" for name
      using v that by (simp add: entry_of_def directory_clear_def dentry_ok_def hides_def long_entry_def directory_of_def sample_env_def)
    from this [of "bytes_of ''helloo''"] this [of "bytes_of ''shel''"] this [of "bytes_of ''.''"] show ?thesis
      unfolding test_volume_def by (intro conjI exI [of _ 1] exI [of _ 0]) (simp_all add: bytes_of_def)
  qed
  moreover have "flags (get_fd (PCB_ptr (sample_run ?U)) i (sample_run ?U)) = 0" if "i \<in> {2..7}" for i
  proof -
    have "get_fd (PCB_ptr (sample_run ?U)) i (sample_run ?U) = closed_fd"
      using that by (auto simp: sample_run_def get_fd_def c_pcb_def upt_rec)
    then show ?thesis by (simp add: closed_fd_def)
  qed
  moreover have "past_fds sample_env 9 = 0" by (simp add: sample_env_def)
  ultimately have "holding ?S (set syserr_lits) {} (sample_run ?U, 0)"
    using sample_ok [OF side] by (auto simp: holding.simps simp del: kernel_ok.simps)
  moreover have "con (keyb (sample_run ?U)) = boot_console" by (simp add: line_ready_def)
  ultimately show ?thesis using syserr_tests_pass [of ?S "sample_run ?U" 0 "0x8001000" "(0, 0, 0)"] by metis
qed

end
