(* ===== verification/Emulate.thy ===== *)
theory Emulate
  imports User_Lib
begin

text \<open>
  \<^verbatim>\<open>src/syscalls/ece391emulate.c\<close>, which gives user programs the system calls of this system on a Linux
  machine: a command line is split into words for \<open>execv\<close> and joined again by \<open>getargs\<close>, and a directory
  is read name by name.  What Linux does is a parameter, the record \<open>linux\<close>, over a state of its own.
\<close>

unbundle bit_operations_syntax

subsection \<open>Linux\<close>

text \<open>\<open>lx_readdir\<close> gives the address of the next name, 0 at the end; \<open>lx_spawn\<close> is \<open>fork\<close>, \<open>execv\<close> in the
  child, which kills itself with signal 9 if that returns, and \<open>wait\<close>; \<open>lx_call\<close> an interrupt with the number and three arguments.\<close>

datatype wait_status = Exited u32 | Signaled u32

record 'w linux =
  lx_mem :: "'w \<Rightarrow> mem"
  lx_set_mem :: "mem \<Rightarrow> 'w \<Rightarrow> 'w"
  lx_opendir :: "'w \<Rightarrow> u32 \<times> 'w"
  lx_readdir :: "u32 \<Rightarrow> 'w \<Rightarrow> u32 \<times> 'w"
  lx_closedir :: "u32 \<Rightarrow> 'w \<Rightarrow> 'w"
  lx_open_null :: "'w \<Rightarrow> u32 \<times> 'w"
  lx_close :: "u32 \<Rightarrow> 'w \<Rightarrow> 'w"
  lx_call :: "u32 \<Rightarrow> u32 \<Rightarrow> u32 \<Rightarrow> u32 \<Rightarrow> 'w \<Rightarrow> u32 \<times> 'w"
  lx_spawn :: "u32 \<Rightarrow> u32 list \<Rightarrow> 'w \<Rightarrow> wait_status \<times> 'w"
  lx_open_mem :: "'w \<Rightarrow> u32 \<times> 'w"
  lx_mmap :: "u32 \<Rightarrow> 'w \<Rightarrow> u32 option \<times> 'w"
  lx_perror :: "'w \<Rightarrow> 'w"

text \<open>The static variables; \<open>start_esp\<close> points to \<open>argc\<close> and the \<open>argv\<close> array behind it.\<close>

record emu =
  start_esp :: u32
  dir_fd :: u32
  dir :: u32
  mem_fd :: u32

subsection \<open>execute\<close>

partial_function (option) scan_word :: "mem \<Rightarrow> u32 \<Rightarrow> u32 option" where
  "scan_word m scan = (if 0 \<noteq> m scan \<and> 32 \<noteq> m scan \<and> 10 \<noteq> m scan then scan_word m (scan + 1) else Some scan)"

partial_function (option) skip_blanks :: "mem \<Rightarrow> u32 \<Rightarrow> u32 option" where
  "skip_blanks m scan = (if 32 = m scan then skip_blanks m (scan + 1) else Some scan)"

partial_function (option) split_args :: "mem \<Rightarrow> u32 \<Rightarrow> u32 list \<Rightarrow> (mem \<times> u32 list) option" where
  "split_args m scan args = do {
     scan \<leftarrow> skip_blanks m scan;
     if 0 = m scan \<or> 10 = m scan then Some (m(scan := 0), args)
     else do {
       let args = args @ [scan];
       scan \<leftarrow> scan_word m scan;
       if 0 \<noteq> m scan then split_args (m(scan := 0)) (scan + 1) args else split_args m scan args
     }
   }"

text \<open>\<open>None\<close> inside for the command that is too long.\<close>

definition split_command :: "mem \<Rightarrow> u32 \<Rightarrow> u32 \<Rightarrow> (mem \<times> u32 list) option option" where
  "split_command m buf command = do {
     n \<leftarrow> ece391_strlen m command;
     if 1023 < n then Some None
     else do {
       let m = m(buf := 46, buf + 1 := 47);
       m \<leftarrow> ece391_strcpy m (buf + 2) command;
       scan \<leftarrow> scan_word m (buf + 2);
       r \<leftarrow> (if 0 \<noteq> m scan then split_args (m(scan := 0)) (scan + 1) [buf] else Some (m, [buf]));
       Some (Some r)
     }
   }"

definition emu_execute :: "'w linux \<Rightarrow> u32 \<Rightarrow> u32 \<Rightarrow> 'w \<Rightarrow> (u32 \<times> 'w) option" where
  "emu_execute lx buf command w = do {
     r \<leftarrow> split_command (lx_mem lx w) buf command;
     case r of
       None \<Rightarrow> Some (-1, w)
     | Some (m, args) \<Rightarrow>
         let (status, w) = lx_spawn lx buf args (lx_set_mem lx m w) in
         Some (case status of
             Exited n \<Rightarrow> n AND 0xFF
           | Signaled n \<Rightarrow> if n = 9 then -1 else 256, w)
   }"

subsection \<open>open, getargs, vidmap\<close>

definition emu_open :: "'w linux \<Rightarrow> u32 \<Rightarrow> u32 \<Rightarrow> emu \<Rightarrow> 'w \<Rightarrow> (u32 \<times> emu \<times> 'w) option" where
  "emu_open lx dot filename e w = do {
     c \<leftarrow> ece391_strcmp (lx_mem lx w) filename dot;
     if c = 0 then
       let (d, w) = lx_opendir lx w; (fd, w) = lx_open_null lx w
       in Some (fd, e\<lparr>dir := d, dir_fd := fd\<rparr>, w)
     else
       let (rval, w) = lx_call lx 5 filename 0 0 w
       in Some (if rval > 0xFFFFC000 then -1 else rval, e, w)
   }"

text \<open>\<open>k\<close> arguments are left, from \<open>argv\<close> on; the loop is left early when the buffer is full, which the
  first component says.\<close>

primrec join_args :: "nat \<Rightarrow> u32 \<Rightarrow> u32 \<Rightarrow> int \<Rightarrow> mem \<Rightarrow> (bool \<times> u32 \<times> int \<times> mem) option" where
  "join_args 0 argv buf nbytes m = Some (True, buf, nbytes, m)"
| "join_args (Suc k) argv buf nbytes m = do {
     n \<leftarrow> ece391_strlen m (load32 m argv);
     let len = sint n;
     if len > nbytes then Some (False, buf, nbytes, m)
     else do {
       m \<leftarrow> ece391_strcpy m buf (load32 m argv);
       let buf = buf + of_int len;
       let nbytes = nbytes - len;
       if k = 0 then Some (True, buf, nbytes, m)
       else if nbytes < 1 then Some (False, buf, nbytes, m)
       else join_args k (argv + 4) (buf + 1) (nbytes - 1) (m(buf := 32))
     }
   }"

definition emu_getargs :: "'w linux \<Rightarrow> u32 \<Rightarrow> int \<Rightarrow> emu \<Rightarrow> 'w \<Rightarrow> (u32 \<times> 'w) option" where
  "emu_getargs lx buf nbytes e w = do {
     let argc = sint (load32 (lx_mem lx w) (start_esp e));
     (fits, buf, nbytes, m) \<leftarrow> join_args (nat (argc - 1)) (start_esp e + 8) buf nbytes (lx_mem lx w);
     if \<not> fits \<or> nbytes < 1 then Some (-1, lx_set_mem lx m w) else Some (0, lx_set_mem lx (m(buf := 0)) w)
   }"

definition emu_vidmap :: "'w linux \<Rightarrow> u32 \<Rightarrow> emu \<Rightarrow> 'w \<Rightarrow> u32 \<times> emu \<times> 'w" where
  "emu_vidmap lx screen_start e w =
    (let (e, w) = (if mem_fd e = -1 then let (fd, w) = lx_open_mem lx w in (e\<lparr>mem_fd := fd\<rparr>, w) else (e, w));
         (image, w) = lx_mmap lx (mem_fd e) w
     in case image of
          None \<Rightarrow> (-1, e, lx_perror lx w)
        | Some a \<Rightarrow> (0, e, lx_set_mem lx (store32 (lx_mem lx w) screen_start (a + 0xB8000)) w))"

subsection \<open>read, write, close\<close>

text \<open>The wrappers of the calls that are passed on turn Linux's error codes into -1; argument registers a call does not
  use are given as 0.\<close>

definition emu_call :: "'w linux \<Rightarrow> u32 \<Rightarrow> u32 \<Rightarrow> u32 \<Rightarrow> u32 \<Rightarrow> 'w \<Rightarrow> u32 \<times> 'w" where
  "emu_call lx num b c d w = (let (r, w) = lx_call lx num b c d w in (if r \<le> 0xFFFFC000 then r else -1, w))"

text \<open>The first loop copies the name and returns when enough is copied; the second pads with NUL.\<close>

partial_function (option) copy_name :: "mem \<Rightarrow> u32 \<Rightarrow> u32 \<Rightarrow> int \<Rightarrow> int \<Rightarrow> (int option \<times> u32 \<times> int \<times> mem) option" where
  "copy_name m from dest copied nbytes =
    (if 0 \<noteq> m from then
       let m = m(dest := m from); copied = copied + 1 in
       if copied = nbytes then Some (Some nbytes, dest + 1, copied, m)
       else if 32 = copied then Some (Some 32, dest + 1, copied, m)
       else copy_name m (from + 1) (dest + 1) copied nbytes
     else Some (None, dest, copied, m))"

function pad_name :: "mem \<Rightarrow> u32 \<Rightarrow> int \<Rightarrow> int \<Rightarrow> int \<times> mem" where
  "pad_name m dest copied nbytes =
    (if nbytes > copied \<and> 32 > copied then pad_name (m(dest := 0)) (dest + 1) (copied + 1) nbytes else (copied, m))"
  by pat_completeness auto
termination
  by (relation "measure (\<lambda>(m, dest, copied, nbytes). nat (32 - copied))") auto

declare pad_name.simps [simp del]

definition emu_read :: "'w linux \<Rightarrow> u32 \<Rightarrow> u32 \<Rightarrow> u32 \<Rightarrow> emu \<Rightarrow> 'w \<Rightarrow> (u32 \<times> 'w) option" where
  "emu_read lx fd buf nbytes e w =
    (if 0 = dir e \<or> dir_fd e \<noteq> fd then Some (emu_call lx 3 fd buf nbytes w)
     else
       let (de, w) = lx_readdir lx (dir e) w in
       if de = 0 then Some (0, w)
       else do {
         (done_early, dest, copied, m) \<leftarrow> copy_name (lx_mem lx w) de buf 0 (sint nbytes);
         case done_early of
           Some n \<Rightarrow> Some (of_int n, lx_set_mem lx m w)
         | None \<Rightarrow> let (copied, m) = pad_name m dest copied (sint nbytes) in Some (of_int copied, lx_set_mem lx m w)
       })"

definition emu_write :: "'w linux \<Rightarrow> u32 \<Rightarrow> u32 \<Rightarrow> u32 \<Rightarrow> emu \<Rightarrow> 'w \<Rightarrow> u32 \<times> 'w" where
  "emu_write lx fd buf nbytes e w = (if 0 = dir e \<or> dir_fd e \<noteq> fd then emu_call lx 4 fd buf nbytes w else (-1, w))"

definition emu_close :: "'w linux \<Rightarrow> u32 \<Rightarrow> emu \<Rightarrow> 'w \<Rightarrow> u32 \<times> emu \<times> 'w" where
  "emu_close lx fd e w =
    (if 0 = dir e \<or> dir_fd e \<noteq> fd then let (r, w) = emu_call lx 6 fd 0 0 w in (r, e, w)
     else
       let w = lx_closedir lx (dir e) w;
           w = lx_close lx (dir_fd e) w
       in (0, e\<lparr>dir := 0, dir_fd := -1\<rparr>, w))"

text \<open>The program starts by saving the stack pointer, calls \<open>main\<close> and halts with its result.\<close>

definition emu_start :: "'w linux \<Rightarrow> u32 \<Rightarrow> (emu \<Rightarrow> 'w \<Rightarrow> (u32 \<times> emu \<times> 'w) option) \<Rightarrow> emu \<Rightarrow> 'w \<Rightarrow> (u32 \<times> 'w) option" where
  "emu_start lx esp main e w = do {
     (r, e, w) \<leftarrow> main (e\<lparr>start_esp := esp\<rparr>) w;
     Some (emu_call lx 1 r 0 0 w)
   }"

subsection \<open>The words of a command\<close>

definition word_char :: "u8 \<Rightarrow> bool" where
  "word_char c \<longleftrightarrow> c \<noteq> 32 \<and> c \<noteq> 10"

text \<open>A line feed ends the arguments where one could begin, and separates words like a blank elsewhere.\<close>

function rest_words :: "u8 list \<Rightarrow> u8 list list" where
  "rest_words xs =
    (let ys = dropWhile (\<lambda>c. c = 32) xs in
     if ys = [] \<or> hd ys = 10 then [] else takeWhile word_char ys # rest_words (drop 1 (dropWhile word_char ys)))"
  by pat_completeness auto
termination
proof (relation "measure length")
  fix xs ys :: "u8 list" assume ys: "ys = dropWhile (\<lambda>c. c = 32) xs" "\<not> (ys = [] \<or> hd ys = 10)"
  have "word_char (hd ys)" using ys hd_dropWhile [of "\<lambda>c. c = 32" xs] by (auto simp: word_char_def)
  then have "length (dropWhile word_char ys) < length ys" using ys(2) by (cases ys) (auto simp: le_imp_less_Suc length_dropWhile_le)
  moreover have "length ys \<le> length xs" using ys(1) length_dropWhile_le by blast
  ultimately show "(drop 1 (dropWhile word_char ys), xs) \<in> measure length" by auto
qed simp

declare rest_words.simps [simp del]

lemma scan_word_cstr:
  assumes "cstr m p xs"
  shows "scan_word m p = Some (p + of_nat (length (takeWhile word_char xs)))"
  using assms
proof (induction xs arbitrary: p)
  case Nil
  then show ?case by (subst scan_word.simps) (simp add: cstr_Nil_iff)
next
  case (Cons x xs)
  then have "m p = x" "x \<noteq> 0" "cstr m (p + 1) xs" by (simp_all add: cstr_Cons_iff)
  moreover have "word_char x \<longleftrightarrow> 32 \<noteq> x \<and> 10 \<noteq> x" by (auto simp: word_char_def)
  ultimately show ?case using Cons.IH [of "p + 1"] by (subst scan_word.simps) (auto simp: ac_simps)
qed

lemma skip_blanks_cstr:
  assumes "cstr m p xs"
  shows "skip_blanks m p = Some (p + of_nat (length (takeWhile (\<lambda>c. c = 32) xs)))"
  using assms
proof (induction xs arbitrary: p)
  case Nil
  then show ?case by (subst skip_blanks.simps) (simp add: cstr_Nil_iff)
next
  case (Cons x xs)
  then have "m p = x" "x \<noteq> 0" "cstr m (p + 1) xs" by (simp_all add: cstr_Cons_iff)
  then show ?case using Cons.IH [of "p + 1"] by (subst skip_blanks.simps) (auto simp: ac_simps)
qed

lemma cstr_suffix: "cstr m p (xs @ ys) \<Longrightarrow> cstr m (p + of_nat (length xs)) ys"
proof (induction xs arbitrary: p)
  case (Cons x xs)
  then have "cstr m (p + 1 + of_nat (length xs)) ys" by (intro Cons.IH) (simp add: cstr_Cons_iff)
  then show ?case by (simp add: ac_simps)
qed simp

text \<open>Ending the first part of a string with a NUL makes two strings of it.\<close>

lemma cstr_cut:
  assumes "cstr m p (xs @ c # ys)"
  shows "cstr (m(p + of_nat (length xs) := 0)) p xs" "cstr (m(p + of_nat (length xs) := 0)) (p + of_nat (Suc (length xs))) ys"
proof -
  let ?q = "p + of_nat (length xs)"
  have len: "length xs + length ys + 1 < 2 ^ 32" "0 \<notin> set xs" using assms by (simp_all add: cstr_def)
  have "load_bytes m p (length xs) = xs"
    using assms load_bytes_add [of m p "length xs" "Suc (length ys)"] by (simp add: cstr_def)
  moreover have "p + of_nat i \<noteq> ?q" if "i < length xs" for i
  proof -
    have "unat (of_nat i :: u32) \<noteq> unat (of_nat (length xs) :: u32)" using that len(1) by simp
    then show ?thesis by auto
  qed
  then have "load_bytes (m(?q := 0)) p (length xs) = load_bytes m p (length xs)" by (auto simp: load_bytes_def)
  ultimately show "cstr (m(?q := 0)) p xs" using len by (simp add: cstr_def)
  have ys: "cstr m (?q + 1) ys" using cstr_suffix [OF assms] by (simp add: cstr_Cons_iff)
  have "x \<noteq> ?q" if "in_region (?q + 1) (Suc (length ys)) x" for x
  proof
    assume "x = ?q"
    then have "unat (x - (?q + 1)) = 2 ^ 32 - 1" by (simp add: unsigned_minus_1_eq_mask mask_eq_exp_minus_1)
    then show False using that len(1) by (simp add: in_region_def)
  qed
  then have "cstr (m(?q := 0)) (?q + 1) ys" using cstr_cong [OF ys] by auto
  then show "cstr (m(?q := 0)) (p + of_nat (Suc (length xs))) ys" by (simp add: ac_simps)
qed

lemma changes_only_byte: "i < n \<Longrightarrow> n \<le> 2 ^ 32 \<Longrightarrow> changes_only p n m (m(p + of_nat i := v))"
  by (auto simp: changes_only_def in_region_def)

lemma changes_only_within:
  assumes "changes_only (p + of_nat i) k m m'" "i + k \<le> n" "n \<le> 2 ^ 32"
  shows "changes_only p n m m'"
  using assms in_region_offset [OF assms(2,3)] by (auto simp: changes_only_def)

lemma disjoint_regions_after:
  assumes "i + k \<le> 2 ^ 32"
  shows "disjoint_regions p i (p + of_nat i) k"
proof -
  have False if "unat (x - p) < i" "unat (x - (p + of_nat i)) < k" for x :: u32
  proof -
    let ?d = "x - (p + of_nat i)"
    have "unat (of_nat i + ?d) = unat (of_nat i :: u32) + unat ?d"
      using that assms by (intro unat_add_lem [THEN iffD1]) simp
    then have "unat (x - p) = i + unat ?d" using that assms by simp
    then show False using that(1) by simp
  qed
  then show ?thesis by (auto simp: disjoint_regions_def in_region_def)
qed

lemma cstr_before:
  assumes "cstr m p xs" "changes_only (p + of_nat i) k m m'" "length xs < i" "i + k \<le> 2 ^ 32"
  shows "cstr m' p xs"
proof (rule cstr_cong [OF assms(1)])
  fix x assume x: "in_region p (Suc (length xs)) x"
  have "disjoint_regions p i (p + of_nat i) k" using assms(4) by (rule disjoint_regions_after)
  then have "\<not> in_region (p + of_nat i) k x" using x assms(3) by (auto simp: disjoint_regions_def in_region_def)
  then show "m' x = m x" using assms(2) by (simp add: changes_only_def)
qed

lemma split_args_words:
  assumes "cstr m p xs"
  shows "\<exists>m' ps. split_args m p args = Some (m', args @ ps) \<and> list_all2 (cstr m') ps (rest_words xs) \<and>
    changes_only p (Suc (length xs)) m m'"
  using assms
proof (induction "length xs" arbitrary: m p xs args rule: less_induct)
  case less
  define bs where "bs = takeWhile (\<lambda>c. c = 32) xs"
  define ys where "ys = dropWhile (\<lambda>c. c = 32) xs"
  have xs: "xs = bs @ ys" by (simp add: bs_def ys_def)
  have len: "Suc (length xs) \<le> 2 ^ 32" using less(2) by (simp add: cstr_def)
  let ?q = "p + of_nat (length bs)"
  have q: "cstr m ?q ys" using cstr_suffix less(2) xs by blast
  have skip: "skip_blanks m p = Some ?q" using skip_blanks_cstr [OF less(2)] by (simp add: bs_def)
  have at: "m ?q = (if ys = [] then 0 else hd ys)" "ys \<noteq> [] \<Longrightarrow> hd ys \<noteq> 0"
    using q by (cases ys; simp add: cstr_Nil_iff cstr_Cons_iff)+
  show ?case
  proof (cases "ys = [] \<or> hd ys = 10")
    case True
    then have "split_args m p args = Some (m(?q := 0), args)" using skip at by (subst split_args.simps) auto
    moreover have "rest_words xs = []" using True by (subst rest_words.simps) (simp add: ys_def)
    moreover have "changes_only p (Suc (length xs)) m (m(?q := 0))" using xs len by (intro changes_only_byte) simp_all
    ultimately show ?thesis by (intro exI [of _ "m(?q := 0)"] exI [of _ "[]"]) simp
  next
    case False
    define w where "w = takeWhile word_char ys"
    define zs where "zs = dropWhile word_char ys"
    have ys: "ys = w @ zs" by (simp add: w_def zs_def)
    let ?r = "?q + of_nat (length w)"
    have "word_char (hd ys)" using False hd_dropWhile [of "\<lambda>c. c = 32" xs] by (auto simp: word_char_def ys_def)
    then have w: "w \<noteq> []" using False by (cases ys) (simp_all add: w_def)
    have words: "rest_words xs = w # rest_words (drop 1 zs)" using False by (subst rest_words.simps) (simp add: ys_def [symmetric] w_def zs_def)
    have scan: "scan_word m ?q = Some ?r" using scan_word_cstr [OF q] by (simp add: w_def)
    show ?thesis
    proof (cases zs)
      case Nil
      then have r: "m ?r = 0" "cstr m ?r []" using q ys cstr_end [OF q] cstr_suffix [of m ?q w "[]"] by simp_all
      have "split_args m ?r (args @ [?q]) = Some (m, args @ [?q])"
        using skip_blanks_cstr [OF r(2)] r(1) by (subst split_args.simps) (simp add: fun_upd_idem)
      then have "split_args m p args = Some (m, args @ [?q])" using skip scan at False r(1) by (subst split_args.simps) (simp add: Let_def)
      moreover have "rest_words [] = []" by (subst rest_words.simps) simp
      then have "list_all2 (cstr m) [?q] (rest_words xs)" using words q ys Nil by simp
      ultimately show ?thesis by (intro exI [of _ m] exI [of _ "[?q]"]) (simp add: changes_only_refl)
    next
      case (Cons c zs')
      let ?m = "m(?r := 0)" and ?t = "?q + of_nat (Suc (length w))"
      have cut: "cstr ?m ?q w" "cstr ?m ?t zs'" using cstr_cut [of m ?q w c zs'] q ys Cons by simp_all
      have "m ?r = c" "c \<noteq> 0" using cstr_suffix [of m ?q w zs] q ys Cons by (simp_all add: cstr_Cons_iff)
      then have step: "split_args m p args = split_args ?m ?t (args @ [?q])"
        using skip scan at False by (subst split_args.simps) (simp add: Let_def ac_simps)
      have lens: "length xs = length bs + length w + Suc (length zs')" using xs ys Cons by simp
      obtain m' ps where IH: "split_args ?m ?t (args @ [?q]) = Some (m', (args @ [?q]) @ ps)" "list_all2 (cstr m') ps (rest_words zs')"
        "changes_only ?t (Suc (length zs')) ?m m'" using less(1) [OF _ cut(2)] lens by fastforce
      have "cstr m' ?q w" using cstr_before [OF cut(1) IH(3)] lens len by simp
      moreover have "changes_only p (Suc (length xs)) m ?m"
        using changes_only_byte [of "length bs + length w" "Suc (length xs)" p m 0] lens len by (simp add: ac_simps)
      moreover have "changes_only p (Suc (length xs)) ?m m'"
        using changes_only_within [of p "length bs + Suc (length w)" "Suc (length zs')" ?m m' "Suc (length xs)"] IH(3) lens len
        by (simp add: ac_simps)
      ultimately show ?thesis using step IH(1,2) words Cons
        by (intro exI [of _ m'] exI [of _ "?q # ps"]) (auto intro: changes_only_trans)
    qed
  qed
qed

lemma rest_words_length: "2 * length (rest_words xs) \<le> length xs + 1"
proof (induction xs rule: rest_words.induct)
  case (1 xs)
  let ?ys = "dropWhile (\<lambda>c. c = 32) xs"
  show ?case
  proof (cases "?ys = [] \<or> hd ?ys = 10")
    case True
    then show ?thesis by (subst rest_words.simps) simp
  next
    case False
    let ?zs = "dropWhile word_char ?ys"
    have "word_char (hd ?ys)" using False hd_dropWhile [of "\<lambda>c. c = 32" xs] by (auto simp: word_char_def)
    then have "length ?zs < length ?ys" using False by (cases ?ys) (auto simp: le_imp_less_Suc length_dropWhile_le)
    moreover have "length ?ys \<le> length xs" by (rule length_dropWhile_le)
    moreover have "2 * length (rest_words (drop 1 ?zs)) \<le> length (drop 1 ?zs) + 1" using 1 False by simp
    moreover have "length (rest_words xs) = Suc (length (rest_words (drop 1 ?zs)))" using False by (subst rest_words.simps) (simp add: Let_def)
    moreover have "0 < length ?ys" using False by simp
    moreover have "length (drop 1 ?zs) = length ?zs - 1" by simp
    moreover have "length (rest_words (drop 1 ?zs)) = 0" if "length ?zs = 0"
      using that by (simp only: length_0_conv drop_Nil rest_words.simps [of "[]"]) simp
    ultimately show ?thesis by (cases "length ?zs = 0") linarith+
  qed
qed

definition command_words :: "u8 list \<Rightarrow> u8 list list" where
  "command_words xs = ([46, 47] @ takeWhile word_char xs) # rest_words (drop 1 (dropWhile word_char xs))"

lemma split_command_words:
  assumes "cstr m command xs" "length xs \<le> 1023" "disjoint_regions buf 1026 command (Suc (length xs))"
  shows "\<exists>m' ps. split_command m buf command = Some (Some (m', buf # ps)) \<and> list_all2 (cstr m') (buf # ps) (command_words xs) \<and>
    changes_only buf 1026 m m'"
proof -
  let ?m1 = "m(buf := 46, buf + 1 := 47)" and ?w = "takeWhile word_char xs" and ?zs = "dropWhile word_char xs"
  define m2 where "m2 = store_bytes ?m1 (buf + 2) (xs @ [0])"
  have n: "ece391_strlen m command = Some (of_nat (length xs))" "\<not> 1023 < (of_nat (length xs) :: u32)"
    using strlen_cstr [OF assms(1)] assms(2) by (simp_all add: ece391_strlen_eq word_less_nat_alt)
  have "in_region buf 1026 buf" "in_region buf 1026 (buf + 1)" by (simp_all add: in_region_def)
  then have "?m1 x = m x" if "in_region command (Suc (length xs)) x" for x
    using that assms(3) by (auto simp: disjoint_regions_def)
  then have c1: "cstr ?m1 command xs" by (rule cstr_cong [OF assms(1)])
  have dis: "disjoint_regions (buf + 2) (Suc (length xs)) command (Suc (length xs))"
    using disjoint_regions_offset [OF assms(3), of 2 "Suc (length xs)" 0 "Suc (length xs)"] assms(2) by simp
  have copy: "ece391_strcpy ?m1 (buf + 2) command = Some m2" unfolding m2_def by (rule ece391_strcpy_disjoint [OF c1 dis])
  have ch2: "changes_only buf 1026 m m2"
  proof -
    have "changes_only buf 1026 m ?m1" by (auto simp: changes_only_def in_region_def)
    moreover have "changes_only buf 1026 ?m1 m2"
      unfolding m2_def using assms(2) changes_only_store [of 2 "xs @ [0]" 1026 buf ?m1] by simp
    ultimately show ?thesis by (rule changes_only_trans)
  qed
  have xs0: "0 \<notin> set xs" using assms(1) by (simp add: cstr_def)
  have c2: "cstr m2 (buf + 2) xs" unfolding m2_def using xs0 assms(2) by (intro cstr_store) simp_all
  have "unat (- 1 :: u32) = 4294967295" by (simp add: unsigned_minus_1_eq_mask mask_eq_exp_minus_1)
  then have "m2 buf = 46" "m2 (buf + 1) = 47" unfolding m2_def using assms(2) by (simp_all add: store_bytes_apply)
  then have all: "cstr m2 buf (46 # 47 # xs)" using c2 assms(2) by (simp add: cstr_Cons_iff add.assoc)
  have scan: "scan_word m2 (buf + 2) = Some (buf + 2 + of_nat (length ?w))" using scan_word_cstr [OF c2] .
  show ?thesis
  proof (cases ?zs)
    case Nil
    then have w: "?w = xs" by (metis append_Nil2 takeWhile_dropWhile_id)
    moreover have "m2 (buf + 2 + of_nat (length xs)) = 0" using cstr_end [OF c2] .
    ultimately have "split_command m buf command = Some (Some (m2, [buf]))"
      using n copy scan [unfolded w] by (simp add: split_command_def Let_def)
    moreover have "command_words xs = [46 # 47 # xs]" unfolding command_words_def Nil w by (simp add: rest_words.simps [of "[]"])
    ultimately show ?thesis using all ch2 by auto
  next
    case (Cons c zs')
    have split: "46 # 47 # xs = (46 # 47 # ?w) @ c # zs'" using takeWhile_dropWhile_id [of word_char xs] Cons by simp
    let ?q = "buf + of_nat (length (46 # 47 # ?w))" let ?m3 = "m2(?q := 0)"
    have q: "?q = buf + 2 + of_nat (length ?w)" by simp
    have cut: "cstr ?m3 buf (46 # 47 # ?w)" "cstr ?m3 (buf + of_nat (Suc (length (46 # 47 # ?w)))) zs'"
      using cstr_cut [of m2 buf "46 # 47 # ?w" c zs'] all split by simp_all
    have mq: "m2 ?q = c" "c \<noteq> 0" using cstr_suffix [of m2 buf "46 # 47 # ?w" "c # zs'"] all split by (simp_all add: cstr_Cons_iff)
    obtain m' ps where args: "split_args ?m3 (buf + of_nat (Suc (length (46 # 47 # ?w)))) [buf] = Some (m', [buf] @ ps)"
      "list_all2 (cstr m') ps (rest_words zs')" "changes_only (buf + of_nat (Suc (length (46 # 47 # ?w)))) (Suc (length zs')) ?m3 m'"
      using split_args_words [OF cut(2), of "[buf]"] by blast
    have len: "Suc (length (46 # 47 # ?w)) + Suc (length zs') \<le> 1026" using split [THEN arg_cong, of length] assms(2) by simp
    have "changes_only buf 1026 m2 ?m3" using changes_only_byte [of "length (46 # 47 # ?w)" 1026 buf m2 0] len by simp
    moreover have "changes_only buf 1026 ?m3 m'" using changes_only_within [OF args(3) len] by simp
    ultimately have "changes_only buf 1026 m m'" using ch2 changes_only_trans by blast
    moreover have "cstr m' buf (46 # 47 # ?w)" using cstr_before [OF cut(1) args(3)] len by simp
    moreover have "split_command m buf command = Some (Some (m', buf # ps))"
      using n copy scan mq args(1) by (simp add: split_command_def Let_def ac_simps)
    ultimately show ?thesis using args(2) Cons by (intro exI [of _ m'] exI [of _ ps]) (simp add: command_words_def)
  qed
qed


subsection \<open>The name of a directory entry\<close>

lemma pad_name_zeros:
  "pad_name m p c n = (max c (min n 32), store_bytes m p (replicate (nat (min n 32 - c)) 0))"
proof (induction m p c n rule: pad_name.induct)
  case (1 m p c n)
  show ?case
  proof (cases "n > c \<and> 32 > c")
    case True
    then have k: "nat (min n 32 - c) = Suc (nat (min n 32 - (c + 1)))" by auto
    show ?thesis using 1 True unfolding k by (subst pad_name.simps) (auto simp: ac_simps fun_upd_def)
  next
    case False
    then show ?thesis by (subst pad_name.simps) auto
  qed
qed

lemma copy_name_prefix:
  assumes "cstr m p xs" "disjoint_regions q (length xs) p (Suc (length xs))" "0 \<le> c" "c < n" "c < 32"
  shows "copy_name m p q c n = Some (if int (length xs) < min n 32 - c
      then (None, q + of_nat (length xs), c + int (length xs), store_bytes m q xs)
      else (Some (min n 32), q + of_int (min n 32 - c), min n 32, store_bytes m q (take (nat (min n 32 - c)) xs)))"
  using assms
proof (induction xs arbitrary: m p q c)
  case Nil
  then have "m p = 0" by (simp add: cstr_def)
  then show ?case using Nil by (subst copy_name.simps) auto
next
  case (Cons x xs)
  let ?m = "m(q := x)"
  have mp: "m p = x" "x \<noteq> 0" "cstr m (p + 1) xs" "length xs < 2 ^ 32 - 1" using Cons.prems(1) by (simp_all add: cstr_Cons_iff)
  have dis: "disjoint_regions (q + 1) (length xs) (p + 1) (Suc (length xs))"
    using disjoint_regions_offset [OF Cons.prems(2), of 1 "length xs" 1 "Suc (length xs)"] mp(4) by simp
  have "?m y = m y" if "in_region (p + 1) (Suc (length xs)) y" for y
  proof -
    have "in_region p (Suc (length (x # xs))) y" using in_region_offset [of 1 "Suc (length xs)" "Suc (length (x # xs))" p y] that
      mp(4) by simp
    moreover have "in_region q (length (x # xs)) q" by (simp add: in_region_def)
    ultimately show ?thesis using Cons.prems(2) by (auto simp: disjoint_regions_def)
  qed
  then have c': "cstr ?m (p + 1) xs" by (rule cstr_cong [OF mp(3)])
  show ?case
  proof (cases "c + 1 = n \<or> c + 1 = 32")
    case True
    then have k: "min n 32 - c = 1" "min n 32 = c + 1" using Cons.prems by auto
    then show ?thesis using True mp Cons.prems by (subst copy_name.simps) (auto simp: Let_def k)
  next
    case False
    then have "c + 1 < n" "c + 1 < 32" using Cons.prems by auto
    moreover have k: "nat (min n 32 - c) = Suc (nat (min n 32 - (c + 1)))" using Cons.prems by auto
    ultimately show ?thesis using False mp Cons.IH [OF c' dis, of "c + 1"] Cons.prems
      by (subst copy_name.simps) (auto simp: Let_def k ac_simps fun_upd_def)
  qed
qed


lemma read_name:
  assumes "dir e \<noteq> 0" "dir_fd e = fd" "lx_readdir lx (dir e) w = (de, w')" "de \<noteq> 0" "cstr (lx_mem lx w') de xs"
    "disjoint_regions buf (length xs) de (Suc (length xs))" "sint nbytes = n" "0 < n"
  shows "emu_read lx fd buf nbytes e w = Some (of_int (min n 32),
    lx_set_mem lx (store_bytes (lx_mem lx w') buf (take (nat (min n 32)) (xs @ replicate 32 0))) w')"
proof -
  let ?k = "nat (min n 32)"
  have copy: "copy_name (lx_mem lx w') de buf 0 n = Some (if int (length xs) < min n 32
      then (None, buf + of_nat (length xs), int (length xs), store_bytes (lx_mem lx w') buf xs)
      else (Some (min n 32), buf + of_int (min n 32), min n 32, store_bytes (lx_mem lx w') buf (take ?k xs)))"
    using copy_name_prefix [OF assms(5,6), of 0 n] assms(8) by simp
  show ?thesis
  proof (cases "int (length xs) < min n 32")
    case True
    then have t: "take ?k (xs @ replicate 32 0) = xs @ replicate (nat (min n 32 - int (length xs))) 0"
      by (auto simp: min_def nat_diff_distrib')
    show ?thesis using True copy assms(1-4,7) unfolding t store_bytes_append
      by (simp add: emu_read_def pad_name_zeros Let_def)
  next
    case False
    then have t: "take ?k (xs @ replicate 32 0) = take ?k xs" by auto
    show ?thesis using False copy assms(1-4,7) unfolding t by (simp only: if_False) (simp add: emu_read_def Let_def)
  qed
qed

subsection \<open>The arguments joined\<close>

fun spaced :: "u8 list list \<Rightarrow> u8 list" where
  "spaced [] = []"
| "spaced [xs] = xs"
| "spaced (xs # xss) = xs @ 32 # spaced xss"

text \<open>The pointers to the strings, from \<open>a\<close> on, all apart from the \<open>n\<close> bytes at \<open>b\<close>.\<close>

primrec args_at :: "mem \<Rightarrow> u32 \<Rightarrow> u32 \<Rightarrow> nat \<Rightarrow> u8 list list \<Rightarrow> bool" where
  "args_at m a b n [] \<longleftrightarrow> True"
| "args_at m a b n (xs # xss) \<longleftrightarrow> cstr m (load32 m a) xs \<and> length xs < 2 ^ 31 \<and> disjoint_regions b n a 4 \<and>
    disjoint_regions b n (load32 m a) (Suc (length xs)) \<and> args_at m (a + 4) b n xss"

lemma args_at_changes:
  "args_at m a b n xss \<Longrightarrow> changes_only b n m m' \<Longrightarrow> n \<le> 2 ^ 32 \<Longrightarrow> args_at m' a b n xss"
proof (induction xss arbitrary: a)
  case (Cons xs xss)
  then have "load32 m' a = load32 m a" using changes_only_load32 [of b n m m' a 4 0] by simp
  then show ?case using Cons changes_only_cstr by auto
qed simp

lemma args_at_offset:
  assumes "i + n' \<le> n" "n \<le> 2 ^ 32"
  shows "args_at m a b n xss \<Longrightarrow> args_at m a (b + of_nat i) n' xss"
proof (induction xss arbitrary: a)
  case (Cons xs xss)
  then show ?case using assms disjoint_regions_offset [of b n a 4 i n' 0 4]
      disjoint_regions_offset [of b n "load32 m a" "Suc (length xs)" i n' 0 "Suc (length xs)"] by simp
qed simp

lemma load_bytes_store_prefix:
  assumes "length (xs @ ys) \<le> 2 ^ 32"
  shows "load_bytes (store_bytes m a (xs @ ys)) a (length xs) = xs"
  using assms by (intro nth_equalityI) (auto simp: store_bytes_apply nth_append)

lemma load_bytes_before:
  assumes "changes_only (a + of_nat i) k m m'" "i + k \<le> 2 ^ 32"
  shows "load_bytes m' a i = load_bytes m a i"
proof (rule load_bytes_cong)
  fix x assume "in_region a i x"
  then have "\<not> in_region (a + of_nat i) k x" using disjoint_regions_after [OF assms(2)] by (auto simp: disjoint_regions_def)
  then show "m' x = m x" using assms(1) by (simp add: changes_only_def)
qed (use assms(2) in simp)

lemma first_arg:
  assumes "args_at m argv buf (Suc n) (xs # xss)" "n < 2 ^ 31"
  shows "join_args (Suc k) argv buf (int n) m =
      (if length xs \<le> n then
         let m = store_bytes m buf (xs @ [0]); b = buf + of_nat (length xs); r = int n - int (length xs) in
         if k = 0 then Some (True, b, r, m) else if r < 1 then Some (False, b, r, m)
         else join_args k (argv + 4) (b + 1) (r - 1) (m(b := 32))
       else Some (False, buf, int n, m))"
    "length xs \<le> n \<Longrightarrow> changes_only buf (Suc n) m (store_bytes m buf (xs @ [0]))"
proof -
  have arg: "cstr m (load32 m argv) xs" "length xs < 2 ^ 31" "disjoint_regions buf (Suc n) (load32 m argv) (Suc (length xs))"
    using assms(1) by simp_all
  have len: "ece391_strlen m (load32 m argv) = Some (of_nat (length xs))" "sint (of_nat (length xs) :: u32) = int (length xs)"
    using strlen_cstr [OF arg(1)] arg(2) by (simp_all add: ece391_strlen_eq sint_small)
  have copy: "ece391_strcpy m buf (load32 m argv) = Some (store_bytes m buf (xs @ [0]))" if "length xs \<le> n"
    using that assms(2) disjoint_regions_offset [OF arg(3), of 0 "Suc (length xs)" 0 "Suc (length xs)"] arg(2)
    by (intro ece391_strcpy_disjoint [OF arg(1)]) simp
  show "join_args (Suc k) argv buf (int n) m =
      (if length xs \<le> n then
         let m = store_bytes m buf (xs @ [0]); b = buf + of_nat (length xs); r = int n - int (length xs) in
         if k = 0 then Some (True, b, r, m) else if r < 1 then Some (False, b, r, m)
         else join_args k (argv + 4) (b + 1) (r - 1) (m(b := 32))
       else Some (False, buf, int n, m))"
    using len copy by (simp add: Let_def)
  show "changes_only buf (Suc n) m (store_bytes m buf (xs @ [0]))" if "length xs \<le> n"
    using that assms(2) changes_only_store [of 0 "xs @ [0]" "Suc n" buf m] by simp
qed

lemma join_args_spaced:
  assumes "args_at m argv buf (Suc n) xss" "n < 2 ^ 31"
  shows "\<exists>m'. changes_only buf (Suc n) m m' \<and> (if length (spaced xss) \<le> n
    then join_args (length xss) argv buf (int n) m = Some (True, buf + of_nat (length (spaced xss)), int n - int (length (spaced xss)), m') \<and>
      load_bytes m' buf (length (spaced xss)) = spaced xss
    else \<exists>b k. join_args (length xss) argv buf (int n) m = Some (False, b, k, m'))"
  using assms
proof (induction xss arbitrary: m argv buf n rule: spaced.induct)
  case (1 m argv buf n)
  show ?case using changes_only_refl by (intro exI [of _ m]) simp
next
  case (2 xs m argv buf n)
  note first = first_arg [of m argv buf n xs "[]", OF 2]
  have "load_bytes (store_bytes m buf (xs @ [0])) buf (length xs) = xs" using 2 by (intro load_bytes_store_prefix) simp
  then show ?case
  proof (cases "length xs \<le> n")
    case True
    then show ?thesis using first \<open>load_bytes _ _ _ = xs\<close> by (intro exI [of _ "store_bytes m buf (xs @ [0])"]) simp
  next
    case False
    then show ?thesis using first changes_only_refl by (intro exI [of _ m]) simp
  qed
next
  case (3 xs ys yss m argv buf n)
  let ?l = "length xs" and ?t = "spaced (ys # yss)"
  note first = first_arg [of m argv buf n xs "ys # yss", OF 3(2,3)]
  consider "\<not> ?l \<le> n" | "?l = n" | "?l < n" by linarith
  then show ?case
  proof cases
    case 1
    then show ?thesis using first changes_only_refl by (intro exI [of _ m]) simp
  next
    case 2
    then show ?thesis using first by (intro exI [of _ "store_bytes m buf (xs @ [0])"]) simp
  next
    case less: 3
    define m2 where "m2 = store_bytes m buf (xs @ [32])"
    have m2: "(store_bytes m buf (xs @ [0]))(buf + of_nat ?l := 32) = m2" by (simp add: m2_def store_bytes_snoc)
    have ch: "changes_only buf (Suc n) m m2" using less 3(3) changes_only_store [of 0 "xs @ [32]" "Suc n" buf m] by (simp add: m2_def)
    have "args_at m (argv + 4) buf (Suc n) (ys # yss)" using 3(2) by simp
    from args_at_offset [OF _ _ args_at_changes [OF this ch], of "Suc ?l" "Suc (n - Suc ?l)"]
    have "args_at m2 (argv + 4) (buf + of_nat (Suc ?l)) (Suc (n - Suc ?l)) (ys # yss)" using less 3(3) by simp
    moreover have small: "n - Suc ?l < 2 ^ 31" using 3(3) by simp
    ultimately obtain m' where m': "changes_only (buf + of_nat (Suc ?l)) (Suc (n - Suc ?l)) m2 m'"
      "if length ?t \<le> n - Suc ?l
       then join_args (length (ys # yss)) (argv + 4) (buf + of_nat (Suc ?l)) (int (n - Suc ?l)) m2 =
           Some (True, buf + of_nat (Suc ?l) + of_nat (length ?t), int (n - Suc ?l) - int (length ?t), m') \<and>
         load_bytes m' (buf + of_nat (Suc ?l)) (length ?t) = ?t
       else \<exists>b k. join_args (length (ys # yss)) (argv + 4) (buf + of_nat (Suc ?l)) (int (n - Suc ?l)) m2 = Some (False, b, k, m')"
      using 3(1) by blast
    have ch': "changes_only buf (Suc n) m m'" using changes_only_trans [OF ch changes_only_within [OF m'(1)]] less 3(3) by simp
    have step: "join_args (length (xs # ys # yss)) argv buf (int n) m =
        join_args (length (ys # yss)) (argv + 4) (buf + of_nat (Suc ?l)) (int (n - Suc ?l)) m2"
      using first(1) [of "length (ys # yss)"] less by (simp add: Let_def m2 of_nat_diff diff_diff_eq ac_simps del: join_args.simps)
    have pre: "load_bytes m' buf (Suc ?l) = xs @ [32]"
      using load_bytes_before [OF m'(1)] less 3(3) load_bytes_store_prefix [of "xs @ [32]" "[]" m buf] by (simp add: m2_def)
    show ?thesis
    proof (cases "length ?t \<le> n - Suc ?l")
      case True
      then have "length (spaced (xs # ys # yss)) \<le> n" using less by simp
      moreover have "load_bytes m' buf (Suc ?l + length ?t) = (xs @ [32]) @ ?t" unfolding load_bytes_add pre using True m'(2) by simp
      moreover have "int (n - Suc ?l) - int (length ?t) = int n - int (Suc ?l + length ?t)" using less by simp
      moreover have "join_args (length (xs # ys # yss)) argv buf (int n) m =
          Some (True, buf + of_nat (Suc ?l) + of_nat (length ?t), int (n - Suc ?l) - int (length ?t), m')"
        unfolding step using True m'(2) by simp
      ultimately show ?thesis using ch' by (intro exI [of _ m']) (simp add: ac_simps del: join_args.simps)
    next
      case False
      then have "\<not> length (spaced (xs # ys # yss)) \<le> n" by simp
      moreover have "\<exists>b k. join_args (length (xs # ys # yss)) argv buf (int n) m = Some (False, b, k, m')"
        unfolding step using False m'(2) by meson
      ultimately show ?thesis using ch' by (intro exI [of _ m']) (simp del: join_args.simps)
    qed
  qed
qed


lemma getargs_spaced:
  assumes "load32 (lx_mem lx w) (start_esp e) = of_nat (Suc (length xss))" "Suc (length xss) < 2 ^ 31"
    "args_at (lx_mem lx w) (start_esp e + 8) buf (Suc n) xss" "n < 2 ^ 31"
  shows "\<exists>m'. changes_only buf (Suc n) (lx_mem lx w) m' \<and>
    emu_getargs lx buf (int n) e w = Some (if length (spaced xss) < n then 0 else -1, lx_set_mem lx m' w) \<and>
    (length (spaced xss) < n \<longrightarrow> load_bytes m' buf (Suc (length (spaced xss))) = spaced xss @ [0])"
proof -
  let ?m = "lx_mem lx w" and ?t = "spaced xss"
  have argc: "nat (sint (load32 ?m (start_esp e)) - 1) = length xss" unfolding assms(1) sint_small [OF assms(2)] by simp
  obtain m1 where m1: "changes_only buf (Suc n) ?m m1" "if length ?t \<le> n
    then join_args (length xss) (start_esp e + 8) buf (int n) ?m = Some (True, buf + of_nat (length ?t), int n - int (length ?t), m1) \<and>
      load_bytes m1 buf (length ?t) = ?t
    else \<exists>b k. join_args (length xss) (start_esp e + 8) buf (int n) ?m = Some (False, b, k, m1)"
    using join_args_spaced [OF assms(3,4)] by blast
  show ?thesis
  proof (cases "length ?t < n")
    case True
    let ?m' = "m1(buf + of_nat (length ?t) := 0)"
    have "changes_only buf (Suc n) m1 ?m'" using True assms(4) changes_only_byte [of "length ?t" "Suc n" buf m1 0] by simp
    then have "changes_only buf (Suc n) ?m ?m'" by (rule changes_only_trans [OF m1(1)])
    moreover have "load_bytes ?m' buf (Suc (length ?t)) = ?t @ [0]" using True m1(2) assms(4) load_bytes_upd [of m1 buf "length ?t" ?t 0] by simp
    moreover have "emu_getargs lx buf (int n) e w = Some (0, lx_set_mem lx ?m' w)"
      unfolding emu_getargs_def Let_def argc using True m1(2) by simp
    ultimately show ?thesis using True by (intro exI [of _ ?m']) simp
  next
    case False
    have "emu_getargs lx buf (int n) e w = Some (-1, lx_set_mem lx m1 w)"
    proof (cases "length ?t = n")
      case True
      then show ?thesis unfolding emu_getargs_def Let_def argc using m1(2) by simp
    next
      case neq: False
      then have "\<not> length ?t \<le> n" using False by simp
      then obtain b k where "join_args (length xss) (start_esp e + 8) buf (int n) ?m = Some (False, b, k, m1)" using m1(2) by (metis (full_types))
      then show ?thesis unfolding emu_getargs_def Let_def argc by simp
    qed
    then show ?thesis using False m1(1) by (intro exI [of _ m1]) simp
  qed
qed


subsection \<open>What a Linux program sees\<close>

text \<open>A Linux whose state is its memory, where every program ends with status 3; for the examples.\<close>

definition plain_linux :: "mem linux" where
  "plain_linux = \<lparr>lx_mem = \<lambda>m. m, lx_set_mem = \<lambda>m _. m, lx_opendir = \<lambda>m. (1, m), lx_readdir = \<lambda>d m. (0, m),
    lx_closedir = \<lambda>d m. m, lx_open_null = \<lambda>m. (5, m), lx_close = \<lambda>fd m. m, lx_call = \<lambda>n b c d m. (0, m),
    lx_spawn = \<lambda>path args m. (Exited 3, m), lx_open_mem = \<lambda>m. (6, m), lx_mmap = \<lambda>fd m. (None, m), lx_perror = \<lambda>m. m\<rparr>"

definition wait_value :: "wait_status \<Rightarrow> u32" where
  "wait_value st = (case st of Exited n \<Rightarrow> n AND 0xFF | Signaled n \<Rightarrow> if n = 9 then -1 else 256)"

text \<open>C15: on Linux, \<open>execute\<close> starts the file that the first word of the command names, in the current directory, with
  the words of the command as its arguments, one string each, and returns what the program's
  end means: the low byte of its exit status, -1 if it could not be started, 256 if a signal
  killed it.  Only the local buffer is written, and at most 513 of the 1024 argument pointers are used.\<close>

theorem execute_passes_words:
  assumes "cstr (lx_mem lx w) command xs" "length xs \<le> 1023" "disjoint_regions buf 1026 command (Suc (length xs))"
  shows "\<exists>m' ps. emu_execute lx buf command w =
      (let (status, w') = lx_spawn lx buf (buf # ps) (lx_set_mem lx m' w) in Some (wait_value status, w')) \<and>
    list_all2 (cstr m') (buf # ps) (command_words xs) \<and> length (buf # ps) \<le> 513 \<and> changes_only buf 1026 (lx_mem lx w) m'"
proof -
  obtain m' ps where s: "split_command (lx_mem lx w) buf command = Some (Some (m', buf # ps))"
    "list_all2 (cstr m') (buf # ps) (command_words xs)" "changes_only buf 1026 (lx_mem lx w) m'"
    using split_command_words [OF assms] by blast
  have "2 * length (rest_words (drop 1 (dropWhile word_char xs))) \<le> length xs + 1"
    using rest_words_length [of "drop 1 (dropWhile word_char xs)"] length_dropWhile_le [of word_char xs] by simp
  moreover have "length (buf # ps) = Suc (length (rest_words (drop 1 (dropWhile word_char xs))))"
    using list_all2_lengthD [OF s(2)] by (simp add: command_words_def)
  ultimately have "length (buf # ps) \<le> 513" using assms(2) by simp
  moreover have "emu_execute lx buf command w =
      (let (status, w') = lx_spawn lx buf (buf # ps) (lx_set_mem lx m' w) in Some (wait_value status, w'))"
    by (simp add: emu_execute_def s(1) wait_value_def split: prod.split)
  ultimately show ?thesis using s by blast
qed

theorem execute_passes_words_witness:
  "\<exists>m' ps. emu_execute plain_linux 0x1000 0x2000 (store_bytes (\<lambda>_. 0) 0x2000 [108, 115, 32, 97, 32, 32, 98, 10, 0]) = Some (3, m') \<and>
    list_all2 (cstr m') (0x1000 # ps) [[46, 47, 108, 115], [97], [98]]"
proof -
  let ?xs = "[108, 115, 32, 97, 32, 32, 98, 10] :: u8 list" and ?m = "store_bytes (\<lambda>_. 0) 0x2000 [108, 115, 32, 97, 32, 32, 98, 10, 0]"
  have "cstr (lx_mem plain_linux ?m) 0x2000 ?xs" using cstr_store [of ?xs "\<lambda>_. 0" "0x2000"] by (simp add: plain_linux_def)
  moreover have "disjoint_regions 0x1000 1026 0x2000 (Suc (length ?xs))" by (rule disjoint_regions_apart) simp_all
  moreover have "command_words ?xs = [[46, 47, 108, 115], [97], [98]]" by code_simp
  ultimately show ?thesis using execute_passes_words [of plain_linux ?m "0x2000" ?xs "0x1000"]
    by (fastforce simp: plain_linux_def wait_value_def)
qed

text \<open>C16: on Linux, \<open>getargs\<close> joins the arguments of the process with single blanks into the buffer and returns 0 if
  they and the terminating NUL fit, and returns -1 otherwise.  It writes to the \<open>n\<close> bytes of the buffer
  and the byte behind them only.\<close>

theorem getargs_joins_arguments:
  assumes "load32 (lx_mem lx w) (start_esp e) = of_nat (Suc (length xss))" "Suc (length xss) < 2 ^ 31"
    "args_at (lx_mem lx w) (start_esp e + 8) buf (Suc n) xss" "n < 2 ^ 31"
  shows "\<exists>m'. changes_only buf (Suc n) (lx_mem lx w) m' \<and>
    emu_getargs lx buf (int n) e w = Some (if length (spaced xss) < n then 0 else -1, lx_set_mem lx m' w) \<and>
    (length (spaced xss) < n \<longrightarrow> load_bytes m' buf (Suc (length (spaced xss))) = spaced xss @ [0])"
  by (rule getargs_spaced [OF assms])

definition args_example :: mem where
  "args_example = store_bytes (store32 (store32 (store32 (\<lambda>_. 0) 0x3000 3) 0x3008 0x3010) 0x300C 0x3013) 0x3010 [97, 98, 0, 99, 0]"

theorem getargs_joins_arguments_witness:
  "\<exists>m'. emu_getargs plain_linux 0x4000 8 \<lparr>start_esp = 0x3000, dir_fd = 0, dir = 0, mem_fd = -1\<rparr> args_example = Some (0, m') \<and>
    load_bytes m' 0x4000 5 = [97, 98, 32, 99, 0]"
proof -
  have five: "Suc (Suc (Suc (Suc (Suc 0)))) = 5" by simp
  let ?e = "\<lparr>start_esp = 0x3000, dir_fd = 0, dir = 0, mem_fd = -1\<rparr>" and ?xss = "[[97, 98], [99]] :: u8 list list"
  have m: "load32 args_example 0x3000 = 3" "load32 args_example 0x3008 = 0x3010" "load32 args_example 0x300C = 0x3013"
    "load_bytes args_example 0x3010 (length [97, 98 :: u8] + 1) = [97, 98] @ [0]"
    "load_bytes args_example 0x3013 (length [99 :: u8] + 1) = [99] @ [0]" by code_simp+
  have "cstr args_example 0x3010 [97, 98]" "cstr args_example 0x3013 [99]"
    by (rule cstr_bytes [OF m(4)], simp_all) (rule cstr_bytes [OF m(5)], simp_all)
  moreover have "disjoint_regions (0x4000 :: u32) 9 0x3008 4" "disjoint_regions (0x4000 :: u32) 9 0x300C 4"
    "disjoint_regions (0x4000 :: u32) 9 0x3010 (Suc (Suc (Suc 0)))" "disjoint_regions (0x4000 :: u32) 9 0x3013 (Suc (Suc 0))"
    by (rule disjoint_regions_apart, simp)+
  ultimately have "args_at args_example 0x3008 0x4000 (Suc 8) ?xss" using m(2,3) by simp
  moreover have "length (spaced ?xss) = 4" by simp
  moreover have "spaced ?xss @ [0] = [97, 98, 32, 99, 0]" by simp
  moreover have "lx_mem plain_linux args_example = args_example" "lx_set_mem plain_linux m' args_example = m'" for m'
    by (simp_all add: plain_linux_def)
  ultimately have "\<exists>m'. emu_getargs plain_linux 0x4000 8 ?e args_example = Some (0, m') \<and>
      load_bytes m' 0x4000 (Suc (Suc (Suc (Suc (Suc 0))))) = [97, 98, 32, 99, 0]"
    using getargs_joins_arguments [of plain_linux args_example ?e ?xss "0x4000" 8] m(1)
    by (simp del: spaced.simps args_at.simps) blast
  then show ?thesis by (simp only: five)
qed

end
