(* ===== verification/Spec2Isabelle.thy ===== *)
theory Spec2Isabelle
  imports Lib_Memory Lib_String Scheduler Idt Loading Listing Boot Program_Runs Syserr Emulate
begin

text \<open>
  \<^bold>\<open>HarambeOS\<close> is a small operating system for 32-bit x86 (\<^verbatim>\<open>src/student-distrib\<close>): three
  terminals on one keyboard and screen, a read-only file system in memory, up to six user
  processes with a page of four megabytes each, ten system calls through interrupt \<open>0x80\<close>,
  and a round robin over the terminals driven by the timer.  This development translates its
  C code, and the assembly where it matters, and that of the user programs that run on it
  (\<^verbatim>\<open>src/syscalls\<close>), into HOL functions and proves what the code is meant to guarantee.

  \<^bold>\<open>How the code is translated.\<close>  Memory is a function from 32-bit addresses to bytes
  (\<open>mem\<close>); \<open>uint32_t\<close> and \<open>uint8_t\<close> are machine words that wrap around, C's \<open>int\<close> is \<open>int\<close>
  where the code cannot overflow it.  Static variables of a file are a record, and every
  function takes the record and returns it.  A result \<open>None\<close> means that the code does not
  return normally: it loops for ever, faults on an unmapped page or calls a null function
  pointer.  What the hardware does is a parameter: a device answers every port read from the
  trace of earlier accesses (\<open>device\<close>), interrupts arrive by a schedule.  What the compiler
  decides (addresses of local arrays and string literals, the bytes behind an array) is a
  parameter too, collected in the record \<open>env\<close>.  Jumps into a program and back to a parent
  are values of the type \<open>control\<close>.

  \<^bold>\<open>The theories.\<close>
  \<^item> \<open>Prelude\<close>: machine words, byte memory, C strings (\<open>cstr\<close>), disjoint regions and frames
    (\<open>changes_only\<close>).
  \<^item> \<open>Lib_Memory\<close>, \<open>Lib_String\<close>: \<open>memset\<close> to \<open>memmove\<close> (the inline assembly of \<^verbatim>\<open>lib.c\<close> word by
    word) and the string routines; each is equal to its plain description, and \<open>itoa\<close> writes the
    numeral of its value.
  \<^item> \<open>Port_IO\<close>, \<open>I8259\<close>, \<open>Rtc\<close>: the port accesses of \<^verbatim>\<open>lib.h\<close>, the interrupt controllers
    (\<^verbatim>\<open>i8259.c\<close>) and the clock (\<^verbatim>\<open>rtc.c\<close>) as traces of the bus, read by automata of the chips'
    documented behaviour: after initialisation the right lines are masked and vectors set, a
    frequency is programmed exactly, a read waits for one tick.
  \<^item> \<open>Paging\<close>: the page directory and tables of \<^verbatim>\<open>paging.c\<close> and the processor's walk through them; user
    mode reaches its own process page and the video page only.
  \<^item> \<open>Screen\<close>, \<open>Console_Frame\<close>, \<open>Printf\<close>: the console half of \<^verbatim>\<open>lib.c\<close>, writing to video memory
    through the page table, or to physical memory before paging is on (the interface \<open>printer\<close>); what
    \<open>puts\<close> and \<open>printf\<close> print, and what they leave alone.
  \<^item> \<open>Terminal\<close>, \<open>Keyboard\<close>: \<^verbatim>\<open>keyboard.c\<close>.  A terminal is described by its cells and cursor
    (\<open>view\<close>, \<open>vput\<close>), which \<open>terminal_write\<close> refines and switching terminals keeps; a key edits
    the line of the displayed terminal, and a typed line is what a read hands over.
  \<^item> \<open>File_System\<close>, \<open>Directory\<close>, \<open>Listing\<close>: \<^verbatim>\<open>file_system_driver.c\<close> over the image in memory; the
    directory as a list of named entries, the interface \<open>name_service\<close> that its clients use, and
    the routines that print it.
  \<^item> \<open>Process\<close>, \<open>Devices\<close>, \<open>System_Calls\<close>: the structures of \<^verbatim>\<open>system_calls.h\<close>, the tables of
    function pointers, and the calls on descriptors, arguments and video memory, with the
    invariant of the descriptor table.
  \<^item> \<open>Execute\<close>, \<open>Process_Table\<close>, \<open>Loading\<close>: \<open>c_execute\<close> and \<open>c_halt\<close>.  The specification is a stack of
    process numbers per terminal; \<open>represents\<close> relates it to the kernel's arrays and parent
    links, and every operation refines it.  \<open>Loading\<close> says what becomes of a command line and a
    program file.
  \<^item> \<open>Pit\<close>, \<open>Scheduler\<close>: \<^verbatim>\<open>pit.c\<close>; the timer goes round the terminals in use and resumes each
    process as it was interrupted.
  \<^item> \<open>Idt\<close>: the interrupt gates of \<^verbatim>\<open>idt.c\<close> and the exception handlers.
  \<^item> \<open>Segments\<close>, \<open>Boot\<close>: the descriptors of \<^verbatim>\<open>x86_desc.h\<close> and \<open>entry\<close> of \<^verbatim>\<open>kernel.c\<close>, from the boot
    loader's structure through every initialiser to the first shell.
  \<^item> \<open>Dispatch\<close>: the wrappers of \<^verbatim>\<open>iret_test.S\<close>: a system call runs the routine of the jump table and
    comes back with every register but the result as it was.
  \<^item> \<open>User_Lib\<close>, \<open>User_Calls\<close>, \<open>User_Programs\<close>: the string routines of \<^verbatim>\<open>ece391support.c\<close>, the wrappers of
    \<^verbatim>\<open>ece391syscall.S\<close>, and the programs \<open>cat\<close>, \<open>ls\<close>, \<open>hello\<close>, \<open>testprint\<close>, \<open>shell\<close>, \<open>counter\<close>, \<open>grep\<close>, \<open>sigtest\<close> and
    \<open>pingpong\<close>, each a function of a system to run on (the record \<open>os\<close>).
  \<^item> \<open>Program_Output\<close>, \<open>Grep\<close>: what the programs show on any system that obeys the laws of the
    interfaces \<open>user_os\<close> and \<open>user_files\<close>.
  \<^item> \<open>Kernel_Calls\<close>, \<open>File_Calls\<close>: the kernel, entered through the dispatcher, as such a system: both
    interfaces are interpreted on it.
  \<^item> \<open>Program_Runs\<close>, \<open>Syserr\<close>: programs on the kernel: \<open>cat\<close> shows the file, \<open>ls\<close> the directory, \<open>grep\<close> the
    matching lines, and the error tests of \<^verbatim>\<open>ece391syserr.c\<close> pass.
  \<^item> \<open>Emulate\<close>: \<^verbatim>\<open>ece391emulate.c\<close>, the system calls of the user programs on Linux, which is a parameter.

  \<^bold>\<open>Interfaces.\<close>  Locales state what one part relies on in another and are interpreted on the
  model: a device operation keeps the process table (\<open>driver\<close>), a part of the state read and
  written independently (\<open>state_part\<close>), a directory that finds the first entry of a name
  (\<open>name_service\<close>), a place to print to (\<open>printer\<close>, for a mapped terminal and for the bare screen),
  a system whose writes show characters and whose memory a program owns (\<open>user_os\<close>), and one with
  files, directories, arguments and lines to read (\<open>user_files\<close>, which extends it).

  \<^bold>\<open>Bounds.\<close>  Loops that may not end are \<open>partial_function (option)\<close>, and the theorems say when
  they return.  \<open>c_halt\<close> and \<open>c_execute\<close> call each other when a root shell ends; the depth is
  counted by fuel, and one level suffices since the shell started anew does not halt within
  the call.  \<open>pingpong\<close> never ends; its model runs a given number of rounds.

  \<^bold>\<open>Not modelled.\<close>  The start-up assembly \<^verbatim>\<open>boot.S\<close>, which loads the tables and calls \<open>entry\<close>; the test
  routines of \<^verbatim>\<open>kernel.c\<close> behind the control keys; the word and long port accesses of \<^verbatim>\<open>lib.h\<close>, which
  no driver uses; the animation in \<^verbatim>\<open>src/fish\<close>.
\<close>

end
